(* ===== verification/Prelude.thy ===== *)
theory Prelude
  imports Main "HOL-Library.Word" "HOL-Library.Multiset" "HOL-Library.Finite_Map"
begin

section \<open>Prelude\<close>

text \<open>
  The vocabulary the components share.  Go values are modelled as follows:

  \<^item> \<^typ>\<open>int\<close> with the wrap-around written out (\<open>wrap64\<close>) for \<^verbatim>\<open>int\<close> and \<^verbatim>\<open>int64\<close> where an
    overflow is observable, plain \<^typ>\<open>int\<close> where the source keeps the value in range;
  \<^item> \<^typ>\<open>64 word\<close> and \<^typ>\<open>8 word\<close> for \<^verbatim>\<open>uint64\<close> and \<^verbatim>\<open>byte\<close>;
  \<^item> \<^typ>\<open>string\<close>, a list of eight-bit characters, for \<^verbatim>\<open>string\<close>: a Go string is a byte
    sequence, and \<^verbatim>\<open>len\<close> counts bytes.  \<open>bytes_of\<close> and \<open>string_of\<close> are the conversions
    \<^verbatim>\<open>[]byte(s)\<close> and \<^verbatim>\<open>string(b)\<close>;
  \<^item> an instant (\<^verbatim>\<open>time.Time\<close>) and a \<^verbatim>\<open>time.Duration\<close> are \<^typ>\<open>int\<close> counts of nanoseconds;
  \<^item> a Go map is a finite map (\<open>gomap\<close>, \<open>maplen\<close> for \<^verbatim>\<open>len(m)\<close>): \<^const>\<open>fmlookup\<close> reads it,
    \<^const>\<open>fmupd\<close> and \<^const>\<open>fmdrop\<close> are \<^verbatim>\<open>m[k] = v\<close> and \<^verbatim>\<open>delete(m, k)\<close>, and a \<^verbatim>\<open>range\<close> loop that
    deletes the entries satisfying a condition is \<^const>\<open>fmfilter\<close> on the keys, whatever the
    order in which Go visits them.
\<close>

named_theorems go_simps "definitions that a concrete evaluation unfolds"
named_theorems inv_intros "preservation facts of component invariants"

type_synonym byte = "8 word"
type_synonym time = int
type_synonym duration = int

subsection \<open>Machine integers\<close>

definition max_int64 :: int where
  "max_int64 = 2 ^ 63 - 1"

definition min_int64 :: int where
  "min_int64 = - (2 ^ 63)"

text \<open>The value of a Go \<^verbatim>\<open>int\<close> (64 bits) after an arithmetic operation.\<close>

definition wrap64 :: "int \<Rightarrow> int" where
  "wrap64 x = (x + 2 ^ 63) mod 2 ^ 64 - 2 ^ 63"

definition int64_ok :: "int \<Rightarrow> bool" where
  "int64_ok x \<longleftrightarrow> min_int64 \<le> x \<and> x \<le> max_int64"

lemma wrap64_id [simp]: "int64_ok x \<Longrightarrow> wrap64 x = x"
  by (simp add: wrap64_def int64_ok_def min_int64_def max_int64_def)

lemma wrap64_ok [simp]: "int64_ok (wrap64 x)"
proof -
  have "0 \<le> (x + 2 ^ 63) mod 2 ^ 64" "(x + 2 ^ 63) mod 2 ^ 64 < (2 ^ 64 :: int)"
    by simp_all
  then show ?thesis
    by (simp add: wrap64_def int64_ok_def min_int64_def max_int64_def)
qed

subsection \<open>Bytes and strings\<close>

definition byte_of :: "char \<Rightarrow> byte" where
  "byte_of c = of_nat (of_char c)"

definition char_of_byte :: "byte \<Rightarrow> char" where
  "char_of_byte b = char_of (unat b)"

definition bytes_of :: "string \<Rightarrow> byte list" where
  "bytes_of s = map byte_of s"

definition string_of :: "byte list \<Rightarrow> string" where
  "string_of bs = map char_of_byte bs"

lemma unat_byte_less [simp]: "unat (b :: byte) < 256"
  using unsigned_less [of b, where ?'a = nat] by simp

lemma unat_byte_of [simp]: "unat (byte_of c) = of_char c"
  using nat_of_char_less_256 [of c] by (simp add: byte_of_def unat_of_nat)

lemma char_of_byte_of [simp]: "char_of_byte (byte_of c) = c"
  by (simp add: char_of_byte_def)

lemma byte_of_char_of [simp]: "byte_of (char_of_byte b) = b"
  by (simp add: byte_of_def char_of_byte_def of_char_of)

lemma byte_of_eq_iff [simp]: "byte_of c = byte_of d \<longleftrightarrow> c = d"
  by (metis char_of_byte_of)

lemma char_of_byte_eq_iff [simp]: "char_of_byte b = char_of_byte d \<longleftrightarrow> b = d"
  by (metis byte_of_char_of)

lemma string_of_bytes_of [simp]: "string_of (bytes_of s) = s"
  by (simp add: string_of_def bytes_of_def comp_def)

lemma bytes_of_string_of [simp]: "bytes_of (string_of bs) = bs"
  by (simp add: string_of_def bytes_of_def comp_def)

lemma length_bytes_of [simp]: "length (bytes_of s) = length s"
  by (simp add: bytes_of_def)

lemma length_string_of [simp]: "length (string_of bs) = length bs"
  by (simp add: string_of_def)

lemma bytes_of_append [simp]: "bytes_of (s @ t) = bytes_of s @ bytes_of t"
  by (simp add: bytes_of_def)

lemma string_of_append [simp]: "string_of (s @ t) = string_of s @ string_of t"
  by (simp add: string_of_def)

text \<open>\<^verbatim>\<open>strings.LastIndexByte\<close> and \<^verbatim>\<open>strings.IndexByte\<close>.\<close>

fun last_index :: "char \<Rightarrow> string \<Rightarrow> nat option" where
  "last_index c [] = None"
| "last_index c (x # xs) =
     (case last_index c xs of Some i \<Rightarrow> Some (Suc i) | None \<Rightarrow> if x = c then Some 0 else None)"

fun first_index :: "char \<Rightarrow> string \<Rightarrow> nat option" where
  "first_index c [] = None"
| "first_index c (x # xs) = (if x = c then Some 0 else map_option Suc (first_index c xs))"

lemma last_index_append:
  "last_index c (s @ c # t) = Some (case last_index c t of None \<Rightarrow> length s | Some i \<Rightarrow> Suc (length s + i))"
  by (induction s) (auto split: option.splits)

lemma first_index_None: "first_index c s = None \<longleftrightarrow> c \<notin> set s"
  by (induction s) auto

lemma last_index_None: "last_index c s = None \<longleftrightarrow> c \<notin> set s"
  by (induction s) (auto split: option.splits)

text \<open>\<^verbatim>\<open>strings.ToLower\<close> on the ASCII letters; where a component compares the result with an ASCII text it is exact.\<close>

definition lower_char :: "char \<Rightarrow> char" where
  "lower_char c = (let n = of_char c :: nat in if 65 \<le> n \<and> n \<le> 90 then char_of (n + 32) else c)"

subsection \<open>Go maps\<close>

type_synonym ('k, 'v) gomap = "('k, 'v) fmap"

definition maplen :: "('k, 'v) gomap \<Rightarrow> nat" where
  "maplen m = fcard (fmdom m)"

text \<open>The loop \<^verbatim>\<open>for k, v := range m { if P(v) { delete(m, k) } }\<close>.\<close>

definition delete_if :: "('v \<Rightarrow> bool) \<Rightarrow> ('k, 'v) gomap \<Rightarrow> ('k, 'v) gomap" where
  "delete_if P m = fmfilter (\<lambda>k. case fmlookup m k of None \<Rightarrow> False | Some v \<Rightarrow> \<not> P v) m"

lemma fmlookup_delete_if [simp]:
  "fmlookup (delete_if P m) k =
     (case fmlookup m k of None \<Rightarrow> None | Some v \<Rightarrow> if P v then None else Some v)"
  by (simp add: delete_if_def split: option.split)

lemma delete_if_empty [simp]: "delete_if P fmempty = fmempty"
  by (rule fmap_ext) simp

lemma maplen_empty [simp]: "maplen fmempty = 0"
  by (simp add: maplen_def)

lemma maplen_fmupd:
  "maplen (fmupd k v m) = (if fmlookup m k = None then Suc (maplen m) else maplen m)"
  by (auto simp: maplen_def fcard_finsert_if fmdom_notI fmdom_notD split: option.split
      dest: fmdomI)

lemma maplen_fmupd_le: "maplen (fmupd k v m) \<le> Suc (maplen m)"
  by (simp add: maplen_fmupd)

lemma maplen_fmdrop_le: "maplen (fmdrop k m) \<le> maplen m"
  unfolding maplen_def by (rule fcard_mono) auto

lemma maplen_mono: "fmdom m |\<subseteq>| fmdom n \<Longrightarrow> maplen m \<le> maplen n"
  by (simp add: maplen_def fcard_mono)

lemma maplen_delete_if_le: "maplen (delete_if P m) \<le> maplen m"
  by (rule maplen_mono) (auto simp: delete_if_def)

end
