(* ===== verification/GoFloat.thy ===== *)
theory GoFloat
  imports Prelude "HOL-Library.Log_Nat"
begin

section \<open>Floating point numbers\<close>

text \<open>
  Go's \<^verbatim>\<open>float64\<close> and \<^verbatim>\<open>float32\<close>, the IEEE 754 formats with rounding to the nearest number and to an even one in a tie.  A finite number
  is a sign, a mantissa and an exponent; results are computed exactly as fractions of natural numbers and rounded once.  Shown: rounding is
  exact on what the format holds, monotone, and moves a number by at most half a unit in the last place.
\<close>

subsection \<open>Formats and numbers\<close>

record fformat =
  prec :: nat
  emin :: int
  emax :: int

definition binary64 :: fformat where
  "binary64 = \<lparr>prec = 53, emin = - 1074, emax = 971\<rparr>"

definition binary32 :: fformat where
  "binary32 = \<lparr>prec = 24, emin = - 149, emax = 104\<rparr>"

text \<open>\<open>Fin s m e\<close> is \<open>m * 2 ^ e\<close>, negative when \<open>s\<close> holds; zero has a sign as well.\<close>

datatype gofloat = NaN | Inf bool | Fin bool nat int

fun fval :: "gofloat \<Rightarrow> real" where
  "fval (Fin s m e) = (if s then - 1 else 1) * (real m * 2 powi e)"
| "fval _ = 0"

fun finite_float :: "gofloat \<Rightarrow> bool" where
  "finite_float (Fin s m e) = True"
| "finite_float _ = False"

subsection \<open>Rounding\<close>

text \<open>The fraction \<open>num / den\<close> in units of \<open>2 ^ e\<close>.\<close>

definition scaled :: "nat \<Rightarrow> nat \<Rightarrow> int \<Rightarrow> nat \<times> nat" where
  "scaled num den e = (if 0 \<le> e then (num, den * 2 ^ nat e) else (num * 2 ^ nat (- e), den))"

definition near_even :: "nat \<times> nat \<Rightarrow> nat" where
  "near_even nd = (let q = fst nd div snd nd; r = fst nd mod snd nd in
     if snd nd < 2 * r \<or> 2 * r = snd nd \<and> odd q then q + 1 else q)"

text \<open>The exponent of the leading bit, and the exponent of the unit in the last place.\<close>

definition log2 :: "nat \<Rightarrow> nat \<Rightarrow> int" where
  "log2 num den =
     (let k = int (floorlog 2 num) - int (floorlog 2 den); (n, d) = scaled num den k in if d \<le> n then k else k - 1)"

definition ulp_exp :: "fformat \<Rightarrow> nat \<Rightarrow> nat \<Rightarrow> int" where
  "ulp_exp f num den = max (emin f) (log2 num den - (int (prec f) - 1))"

definition rnd :: "fformat \<Rightarrow> bool \<Rightarrow> nat \<Rightarrow> nat \<Rightarrow> gofloat" where
  "rnd f s num den =
     (if num = 0 then Fin s 0 (emin f)
      else let e = ulp_exp f num den; q = near_even (scaled num den e);
               (m, e1) = (if q = 2 ^ prec f then (2 ^ (prec f - 1), e + 1) else (q, e))
           in if emax f < e1 then Inf s else Fin s m e1)"

subsection \<open>Facts on rounding\<close>

lemma pow2_le [simp]: "(2 :: real) powi a \<le> 2 powi b \<longleftrightarrow> a \<le> b"
  using power_int_strict_increasing [of b a "2 :: real"] power_int_increasing [of a b "2 :: real"] by (cases "a \<le> b") auto

lemma pow2_less [simp]: "(2 :: real) powi a < 2 powi b \<longleftrightarrow> a < b"
  by (simp add: less_le_not_le)

lemma scaled_val:
  assumes "0 < den" and "scaled num den e = (n, d)"
  shows "0 < d" and "real n / real d = real num / real den / 2 powi e"
  using assms by (auto simp: scaled_def power_int_def field_simps split: if_splits)

lemma near_even_error: "0 < d \<Longrightarrow> \<bar>real (near_even (n, d)) - real n / real d\<bar> \<le> 1 / 2"
proof -
  assume d: "0 < d"
  have "real n = real (n div d) * real d + real (n mod d)" by (metis div_mult_mod_eq of_nat_add of_nat_mult)
  then have x: "real n / real d = real (n div d) + real (n mod d) / real d" using d by (simp add: field_simps)
  have "real (n mod d) / real d < 1" using d by simp
  then show ?thesis
    unfolding near_even_def Let_def fst_conv snd_conv x using d by (auto simp: field_simps abs_le_iff)
qed

lemma near_even_exact: "0 < d \<Longrightarrow> real n / real d = real k \<Longrightarrow> near_even (n, d) = k"
proof -
  assume d: "0 < d" and k: "real n / real d = real k"
  then have "real n = real (k * d)" by (simp add: field_simps)
  then have "n = k * d" by (simp only: of_nat_eq_iff)
  then show ?thesis using d by (simp add: near_even_def Let_def)
qed

text \<open>Rounding depends on the value of the fraction only.\<close>

lemma near_even_real:
  assumes "0 < d"
  shows "near_even (n, d) = (let x = real n / real d; q = n div d in
     if 1 / 2 < x - real q \<or> x - real q = 1 / 2 \<and> odd q then q + 1 else q)"
proof -
  have "real n = real (n div d) * real d + real (n mod d)" by (metis div_mult_mod_eq of_nat_add of_nat_mult)
  then have "real n / real d - real (n div d) = real (n mod d) / real d" using assms by (simp add: field_simps)
  moreover have "1 / 2 < real (n mod d) / real d \<longleftrightarrow> d < 2 * (n mod d)"
    and "real (n mod d) / real d = 1 / 2 \<longleftrightarrow> 2 * (n mod d) = d"
    using assms by (simp_all add: field_simps) linarith+
  ultimately show ?thesis unfolding near_even_def Let_def fst_conv snd_conv by metis
qed

lemma div_real: "0 < d \<Longrightarrow> 0 < d' \<Longrightarrow> real n / real d = real n' / real d' \<Longrightarrow> n div d = n' div d'"
  by (metis floor_divide_of_nat_eq nat_int of_int_of_nat_eq)

lemma near_even_cong: "0 < d \<Longrightarrow> 0 < d' \<Longrightarrow> real n / real d = real n' / real d' \<Longrightarrow> near_even (n, d) = near_even (n', d')"
  using div_real [of d d' n n'] by (simp add: near_even_real)

lemma near_even_mono:
  assumes "0 < d" and "0 < d'" and "real n / real d \<le> real n' / real d'"
  shows "near_even (n, d) \<le> near_even (n', d')"
proof (rule ccontr)
  let ?a = "near_even (n, d)" and ?b = "near_even (n', d')"
  assume "\<not> ?a \<le> ?b"
  then have "real ?b + 1 \<le> real ?a" by linarith
  moreover note near_even_error [OF assms(1), of n] near_even_error [OF assms(2), of n'] assms(3)
  ultimately have "real n / real d = real n' / real d'" unfolding abs_le_iff by linarith
  from near_even_cong [OF assms(1,2) this] show False using \<open>\<not> ?a \<le> ?b\<close> by simp
qed

lemma near_even_le: "0 < d \<Longrightarrow> real n / real d \<le> real k \<Longrightarrow> near_even (n, d) \<le> k"
  using near_even_mono [of d 1 n k] near_even_exact [of 1 k k] by simp

lemma near_even_ge: "0 < d \<Longrightarrow> real k \<le> real n / real d \<Longrightarrow> k \<le> near_even (n, d)"
  using near_even_mono [of 1 d k n] near_even_exact [of 1 k k] by simp

lemma floorlog_real:
  assumes "0 < n"
  shows "2 powi (int (floorlog 2 n) - 1) \<le> real n" and "real n < 2 powi int (floorlog 2 n)"
proof -
  have b: "2 ^ (floorlog 2 n - 1) \<le> n" "n < 2 ^ floorlog 2 n" using floorlog_bounds [of n 2] assms by auto
  then have "0 < floorlog 2 n" using assms by (cases "floorlog 2 n") auto
  then have "int (floorlog 2 n) - 1 = int (floorlog 2 n - 1)" by simp
  moreover have "real (2 ^ (floorlog 2 n - 1)) \<le> real n" "real n < real (2 ^ floorlog 2 n)" using b by (simp_all only: of_nat_le_iff of_nat_less_iff)
  ultimately show "2 powi (int (floorlog 2 n) - 1) \<le> real n" "real n < 2 powi int (floorlog 2 n)"
    by (simp_all only: power_int_of_nat of_nat_power of_nat_numeral)
qed

lemma log2_bounds:
  assumes "0 < num" and "0 < den"
  shows "2 powi log2 num den \<le> real num / real den" and "real num / real den < 2 powi (log2 num den + 1)"
proof -
  let ?k = "int (floorlog 2 num) - int (floorlog 2 den)" and ?x = "real num / real den"
  obtain n d where nd: "scaled num den ?k = (n, d)" by fastforce
  note v = scaled_val [OF assms(2) nd] and rn = floorlog_real [OF assms(1)] and rd = floorlog_real [OF assms(2)]
  have pos: "0 < (2 :: real) powi e" for e by simp
  have "?x < 2 powi int (floorlog 2 num) / 2 powi (int (floorlog 2 den) - 1)"
    using rn rd pos by (intro frac_less) (auto simp: assms)
  also have "\<dots> = 2 powi (?k + 1)" by (simp add: power_int_diff power_int_add field_simps)
  finally have hi: "?x < 2 powi (?k + 1)" .
  have "(2 :: real) powi (?k - 1) = 2 powi (int (floorlog 2 num) - 1) / 2 powi int (floorlog 2 den)" by (simp add: power_int_diff power_int_add field_simps)
  also have "\<dots> \<le> ?x" using rn rd assms by (intro frac_le) auto
  finally have lo: "2 powi (?k - 1) \<le> ?x" .
  have "d \<le> n \<longleftrightarrow> 1 \<le> real n / real d" using v(1) by (simp add: field_simps)
  also have "\<dots> \<longleftrightarrow> 2 powi ?k \<le> ?x" unfolding v(2) by (simp only: pos_le_divide_eq pos mult_1)
  finally have t: "d \<le> n \<longleftrightarrow> 2 powi ?k \<le> ?x" .
  show "2 powi log2 num den \<le> ?x" "?x < 2 powi (log2 num den + 1)"
    using hi lo t by (auto simp: log2_def nd)
qed

text \<open>What a format can round at all.\<close>

definition wf_format :: "fformat \<Rightarrow> bool" where
  "wf_format f \<longleftrightarrow> 0 < prec f \<and> emin f \<le> emax f"

lemma wf_formats [simp]: "wf_format binary64" "wf_format binary32"
  by (simp_all add: wf_format_def binary64_def binary32_def)

lemma ulp_hi: "0 < num \<Longrightarrow> 0 < den \<Longrightarrow> real num / real den < 2 powi (ulp_exp f num den + int (prec f))"
proof -
  assume a: "0 < num" "0 < den"
  have "(2 :: real) powi (log2 num den + 1) \<le> 2 powi (ulp_exp f num den + int (prec f))"
    by (simp add: ulp_exp_def)
  then show ?thesis using log2_bounds(2) [OF a] by linarith
qed

lemma ulp_lo: "0 < num \<Longrightarrow> 0 < den \<Longrightarrow> emin f < ulp_exp f num den \<Longrightarrow> 2 powi (ulp_exp f num den + int (prec f) - 1) \<le> real num / real den"
  using log2_bounds(1) [of num den] by (simp add: ulp_exp_def max_def split: if_splits)

lemma ulp_mono:
  assumes "0 < num" "0 < den" "0 < num'" "0 < den'" and "real num / real den \<le> real num' / real den'"
  shows "ulp_exp f num den \<le> ulp_exp f num' den'"
proof -
  have "(2 :: real) powi log2 num den < 2 powi (log2 num' den' + 1)"
    using log2_bounds(1) [OF assms(1,2)] log2_bounds(2) [OF assms(3,4)] assms(5) by linarith
  then have "log2 num den < log2 num' den' + 1" by simp
  then show ?thesis by (simp add: ulp_exp_def)
qed

text \<open>The rounded value before overflow is looked at.\<close>

definition mant :: "fformat \<Rightarrow> nat \<Rightarrow> nat \<Rightarrow> nat" where
  "mant f num den = near_even (scaled num den (ulp_exp f num den))"

definition rval :: "fformat \<Rightarrow> nat \<Rightarrow> nat \<Rightarrow> real" where
  "rval f num den = real (mant f num den) * 2 powi ulp_exp f num den"

lemma mant_scaled:
  assumes "0 < den"
  obtains n d where "mant f num den = near_even (n, d)" "0 < d" "real n / real d = real num / real den / 2 powi ulp_exp f num den"
proof -
  obtain n d where nd: "scaled num den (ulp_exp f num den) = (n, d)" by fastforce
  show thesis by (rule that [of n d]) (use scaled_val [OF assms nd] nd in \<open>simp_all add: mant_def\<close>)
qed

lemma rval_error: "0 < den \<Longrightarrow> \<bar>rval f num den - real num / real den\<bar> \<le> 2 powi (ulp_exp f num den - 1)"
proof -
  assume "0 < den"
  then obtain n d where m: "mant f num den = near_even (n, d)" "0 < d" "real n / real d = real num / real den / 2 powi ulp_exp f num den"
    by (rule mant_scaled)
  let ?u = "(2 :: real) powi ulp_exp f num den"
  have x: "real num / real den = real n / real d * ?u" using m(3) by (simp add: field_simps)
  have "\<bar>real (near_even (n, d)) * ?u - real n / real d * ?u\<bar> = \<bar>real (near_even (n, d)) - real n / real d\<bar> * ?u"
    by (simp only: left_diff_distrib [symmetric] abs_mult) simp
  also have "\<dots> \<le> 1 / 2 * ?u" by (rule mult_right_mono [OF near_even_error [OF m(2)]]) simp
  finally show ?thesis by (simp add: rval_def m(1) x power_int_diff)
qed

lemma rval_exact:
  assumes "0 < num" and "0 < den" and "real num / real den = real k * 2 powi j" and "k < 2 ^ prec f" and "emin f \<le> j"
  shows "rval f num den = real num / real den"
proof -
  obtain n d where m: "mant f num den = near_even (n, d)" "0 < d" "real n / real d = real num / real den / 2 powi ulp_exp f num den"
    using assms(2) by (rule mant_scaled)
  have "real k < 2 powi int (prec f)" using assms(4) by (simp add: power_int_of_nat flip: of_nat_power_less_of_nat_cancel_iff)
  then have "real num / real den < 2 powi int (prec f) * 2 powi j" unfolding assms(3) by (rule mult_strict_right_mono) simp
  also have "\<dots> = 2 powi (int (prec f) + j)" by (simp add: power_int_add)
  finally have "(2 :: real) powi log2 num den < 2 powi (int (prec f) + j)" using log2_bounds(1) [OF assms(1,2)] by linarith
  then have "log2 num den < int (prec f) + j" by simp
  then have le: "ulp_exp f num den \<le> j" using assms(5) by (simp add: ulp_exp_def)
  define i where "i = nat (j - ulp_exp f num den)"
  have j: "j = ulp_exp f num den + int i" using le by (simp add: i_def)
  have "real n / real d = real (k * 2 ^ i)" unfolding m(3) assms(3) j by (simp add: power_int_add)
  from near_even_exact [OF m(2) this] show ?thesis unfolding rval_def m(1) assms(3) j by (simp add: power_int_add)
qed

lemma mant_le: "0 < num \<Longrightarrow> 0 < den \<Longrightarrow> mant f num den \<le> 2 ^ prec f"
proof -
  assume a: "0 < num" "0 < den"
  obtain n d where m: "mant f num den = near_even (n, d)" "0 < d" "real n / real d = real num / real den / 2 powi ulp_exp f num den"
    using a(2) by (rule mant_scaled)
  have "real num / real den \<le> real (2 ^ prec f) * 2 powi ulp_exp f num den"
    using ulp_hi [OF a, of f] by (simp add: power_int_add power_int_of_nat mult.commute)
  then have "real n / real d \<le> real (2 ^ prec f)" unfolding m(3) by (simp only: pos_divide_le_eq zero_less_power_int zero_less_numeral)
  from near_even_le [OF m(2) this] show ?thesis by (simp add: m(1))
qed

lemma mant_ge: "0 < num \<Longrightarrow> 0 < den \<Longrightarrow> 0 < prec f \<Longrightarrow> emin f < ulp_exp f num den \<Longrightarrow> 2 ^ (prec f - 1) \<le> mant f num den"
proof -
  assume a: "0 < num" "0 < den" "0 < prec f" "emin f < ulp_exp f num den"
  obtain n d where m: "mant f num den = near_even (n, d)" "0 < d" "real n / real d = real num / real den / 2 powi ulp_exp f num den"
    using a(2) by (rule mant_scaled)
  have e: "ulp_exp f num den + int (prec f) - 1 = int (prec f - 1) + ulp_exp f num den" using a(3) by simp
  have "real (2 ^ (prec f - 1)) * 2 powi ulp_exp f num den \<le> real num / real den"
    using ulp_lo [OF a(1,2,4)] unfolding e by (simp add: power_int_add power_int_of_nat)
  then have "real (2 ^ (prec f - 1)) \<le> real n / real d" unfolding m(3) by (simp only: pos_le_divide_eq zero_less_power_int zero_less_numeral)
  from near_even_ge [OF m(2) this] show ?thesis by (simp add: m(1))
qed

lemma rval_mono:
  assumes "wf_format f" and "0 < num" "0 < den" "0 < num'" "0 < den'" and "real num / real den \<le> real num' / real den'"
  shows "rval f num den \<le> rval f num' den'"
proof (cases "ulp_exp f num den = ulp_exp f num' den'")
  case True
  obtain n d where m: "mant f num den = near_even (n, d)" "0 < d" "real n / real d = real num / real den / 2 powi ulp_exp f num den"
    using assms(3) by (rule mant_scaled)
  obtain n' d' where m': "mant f num' den' = near_even (n', d')" "0 < d'" "real n' / real d' = real num' / real den' / 2 powi ulp_exp f num' den'"
    using assms(5) by (rule mant_scaled)
  have "real n / real d \<le> real n' / real d'" unfolding m(3) m'(3) True using assms(6) by (intro divide_right_mono) simp_all
  from near_even_mono [OF m(2) m'(2) this] show ?thesis by (simp add: rval_def True m(1) m'(1))
next
  case False
  then have lt: "ulp_exp f num den < ulp_exp f num' den'" using ulp_mono [OF assms(2-6), of f] by simp
  then have g: "emin f < ulp_exp f num' den'" by (simp add: ulp_exp_def less_max_iff_disj)
  have p: "0 < prec f" using assms(1) by (simp add: wf_format_def)
  have "rval f num den \<le> 2 ^ prec f * 2 powi ulp_exp f num den"
    unfolding rval_def using mant_le [OF assms(2,3), of f] by (intro mult_right_mono) (simp_all flip: of_nat_le_iff)
  also have "\<dots> = 2 powi (int (prec f) + ulp_exp f num den)" by (simp add: power_int_add power_int_of_nat)
  also have "\<dots> \<le> 2 powi (int (prec f - 1) + ulp_exp f num' den')" using lt p by simp
  also have "\<dots> = 2 ^ (prec f - 1) * 2 powi ulp_exp f num' den'" by (simp add: power_int_add power_int_of_nat)
  also have "\<dots> \<le> rval f num' den'"
    unfolding rval_def using mant_ge [OF assms(4,5) p g] by (intro mult_right_mono) (simp_all flip: of_nat_le_iff)
  finally show ?thesis .
qed

subsection \<open>The rounded number\<close>

text \<open>The numbers of a format: the mantissa fits, and has its leading bit unless the exponent is the least.\<close>

fun wf_float :: "fformat \<Rightarrow> gofloat \<Rightarrow> bool" where
  "wf_float f (Fin s m e) \<longleftrightarrow> m < 2 ^ prec f \<and> emin f \<le> e \<and> e \<le> emax f \<and> (2 ^ (prec f - 1) \<le> m \<or> e = emin f)"
| "wf_float f _ \<longleftrightarrow> True"

definition with_sign :: "bool \<Rightarrow> real \<Rightarrow> real" where
  "with_sign s x = (if s then - x else x)"

definition largest :: "fformat \<Rightarrow> real" where
  "largest f = real (2 ^ prec f - 1) * 2 powi emax f"

lemma rnd_eq:
  assumes "0 < num"
  shows "rnd f s num den =
     (let q = mant f num den; e = ulp_exp f num den; e1 = (if q = 2 ^ prec f then e + 1 else e) in
      if emax f < e1 then Inf s else Fin s (if q = 2 ^ prec f then 2 ^ (prec f - 1) else q) e1)"
  using assms by (simp add: rnd_def mant_def Let_def)

lemma rnd_wf:
  assumes "wf_format f" and "0 < den"
  shows "wf_float f (rnd f s num den)"
proof (cases "num = 0")
  case True
  then show ?thesis using assms by (simp add: rnd_def wf_format_def)
next
  case False
  have p: "0 < prec f" and e: "emin f \<le> ulp_exp f num den" using assms by (simp_all add: wf_format_def ulp_exp_def)
  have m: "mant f num den \<le> 2 ^ prec f" "emin f < ulp_exp f num den \<Longrightarrow> 2 ^ (prec f - 1) \<le> mant f num den"
    using mant_le [of num den f] mant_ge [of num den f] False assms(2) p by simp_all
  have "(2 :: nat) ^ (prec f - 1) < 2 ^ prec f" using p by simp
  then show ?thesis using m e False by (cases "emin f < ulp_exp f num den") (auto simp: rnd_eq Let_def)
qed

lemma rnd_value:
  assumes "wf_format f" and "rnd f s num den = Fin s' m e" and "0 < num"
  shows "s' = s \<and> real m * 2 powi e = rval f num den"
proof -
  have p: "int (prec f) = int (prec f - 1) + 1" using assms(1) by (simp add: wf_format_def)
  have "(2 :: real) ^ (prec f - 1) * 2 powi (k + 1) = 2 ^ prec f * 2 powi k" for k
    using arg_cong [OF p, of "\<lambda>n. 2 powi n * (2 :: real) powi k"] by (simp add: power_int_add power_int_of_nat)
  then show ?thesis using assms(2,3) by (auto simp: rnd_eq Let_def rval_def split: if_splits)
qed

lemma rnd_finite:
  assumes "wf_format f" and "0 < den" and "real num / real den \<le> largest f"
  shows "\<exists>m e. rnd f s num den = Fin s m e \<and> fval (rnd f s num den) = with_sign s (if num = 0 then 0 else rval f num den)"
proof (cases "num = 0")
  case True
  then show ?thesis by (simp add: rnd_def with_sign_def)
next
  case False
  then have n: "0 < num" by simp
  have p: "0 < prec f" and em: "emin f \<le> emax f" using assms(1) by (simp_all add: wf_format_def)
  have big: "largest f < 2 powi (int (prec f) + emax f)"
    by (simp add: largest_def power_int_add power_int_of_nat of_nat_diff left_diff_distrib)
  have e: "ulp_exp f num den \<le> emax f"
  proof (rule ccontr)
    assume g: "\<not> ulp_exp f num den \<le> emax f"
    then have "2 powi (ulp_exp f num den + int (prec f) - 1) \<le> real num / real den" using ulp_lo [OF n assms(2), of f] em by simp
    moreover have "(2 :: real) powi (int (prec f) + emax f) \<le> 2 powi (ulp_exp f num den + int (prec f) - 1)" using g by simp
    ultimately show False using assms(3) big by linarith
  qed
  have "mant f num den = 2 ^ prec f \<Longrightarrow> ulp_exp f num den \<noteq> emax f"
  proof
    assume q: "mant f num den = 2 ^ prec f" and u: "ulp_exp f num den = emax f"
    obtain a d where m: "mant f num den = near_even (a, d)" "0 < d" "real a / real d = real num / real den / 2 powi ulp_exp f num den"
      using assms(2) by (rule mant_scaled)
    have "real a / real d \<le> real (2 ^ prec f - 1)"
      unfolding m(3) u using assms(3) by (simp only: largest_def pos_divide_le_eq zero_less_power_int zero_less_numeral)
    from near_even_le [OF m(2) this] have "2 ^ prec f \<le> 2 ^ prec f - (1 :: nat)" using q m(1) by metis
    moreover have "0 < (2 :: nat) ^ prec f" by simp
    ultimately show False by linarith
  qed
  then have "\<exists>m e. rnd f s num den = Fin s m e" using e n by (auto simp: rnd_eq Let_def)
  then obtain m e where r: "rnd f s num den = Fin s m e" by blast
  then show ?thesis using rnd_value [OF assms(1) r n] n by (auto simp: with_sign_def)
qed

lemma rnd_overflow:
  assumes "0 < num" and "0 < den" and "2 powi (emax f + int (prec f)) \<le> real num / real den"
  shows "rnd f s num den = Inf s"
proof -
  have "(2 :: real) powi (emax f + int (prec f)) < 2 powi (log2 num den + 1)" using log2_bounds(2) [OF assms(1,2)] assms(3) by linarith
  then have "emax f < ulp_exp f num den" by (simp add: ulp_exp_def less_max_iff_disj)
  then show ?thesis using assms(1) by (simp add: rnd_eq Let_def)
qed

text \<open>
  Rounding is right: a number within the range of the format becomes a number of the format, at most half a unit in the last place away, and
  unchanged when the format holds it.
\<close>

theorem rnd_correct:
  assumes "wf_format f" and "0 < den" and "real num / real den \<le> largest f"
  shows "wf_float f (rnd f s num den) \<and> finite_float (rnd f s num den) \<and>
     \<bar>fval (rnd f s num den) - with_sign s (real num / real den)\<bar> \<le> 2 powi (ulp_exp f num den - 1) \<and>
     (\<forall>k j. real num / real den = real k * 2 powi j \<and> k < 2 ^ prec f \<and> emin f \<le> j \<longrightarrow>
        fval (rnd f s num den) = with_sign s (real num / real den))"
proof -
  obtain m e where r: "rnd f s num den = Fin s m e" "fval (rnd f s num den) = with_sign s (if num = 0 then 0 else rval f num den)"
    using rnd_finite [OF assms] by blast
  show ?thesis
    using rnd_wf [OF assms(1,2), of s num] r rval_error [OF assms(2), of f num] rval_exact [of num den] assms(2)
    by (cases "num = 0") (auto simp: with_sign_def abs_minus_commute simp del: fval.simps)
qed

subsection \<open>Arithmetic\<close>

definition dyadic :: "nat \<Rightarrow> int \<Rightarrow> nat \<times> nat" where
  "dyadic k j = (if 0 \<le> j then (k * 2 ^ nat j, 1) else (k, 2 ^ nat (- j)))"

definition of_int_float :: "fformat \<Rightarrow> int \<Rightarrow> gofloat" where
  "of_int_float f i = rnd f (i < 0) (nat \<bar>i\<bar>) 1"

fun fmul :: "fformat \<Rightarrow> gofloat \<Rightarrow> gofloat \<Rightarrow> gofloat" where
  "fmul f NaN b = NaN"
| "fmul f a NaN = NaN"
| "fmul f (Inf s) (Inf t) = Inf (s \<noteq> t)"
| "fmul f (Inf s) (Fin t m e) = (if m = 0 then NaN else Inf (s \<noteq> t))"
| "fmul f (Fin s m e) (Inf t) = (if m = 0 then NaN else Inf (s \<noteq> t))"
| "fmul f (Fin s m e) (Fin t n g) = (let (num, den) = dyadic (m * n) (e + g) in rnd f (s \<noteq> t) num den)"

fun fdiv :: "fformat \<Rightarrow> gofloat \<Rightarrow> gofloat \<Rightarrow> gofloat" where
  "fdiv f NaN b = NaN"
| "fdiv f a NaN = NaN"
| "fdiv f (Inf s) (Inf t) = NaN"
| "fdiv f (Inf s) (Fin t m e) = Inf (s \<noteq> t)"
| "fdiv f (Fin s m e) (Inf t) = Fin (s \<noteq> t) 0 (emin f)"
| "fdiv f (Fin s m e) (Fin t n g) =
     (if n = 0 then (if m = 0 then NaN else Inf (s \<noteq> t))
      else let (num, den) = dyadic m (e - g) in rnd f (s \<noteq> t) num (den * n))"

text \<open>The sum of two numbers; a zero sum is negative only when both are.\<close>

definition as_int :: "bool \<Rightarrow> nat \<Rightarrow> int \<Rightarrow> int" where
  "as_int s m j = (if s then - 1 else 1) * int m * 2 ^ nat j"

fun fadd :: "fformat \<Rightarrow> gofloat \<Rightarrow> gofloat \<Rightarrow> gofloat" where
  "fadd f NaN b = NaN"
| "fadd f a NaN = NaN"
| "fadd f (Inf s) (Inf t) = (if s = t then Inf s else NaN)"
| "fadd f (Inf s) (Fin t m e) = Inf s"
| "fadd f (Fin s m e) (Inf t) = Inf t"
| "fadd f (Fin s m e) (Fin t n g) =
     (let b = min e g; k = as_int s m (e - b) + as_int t n (g - b); (num, den) = dyadic (nat \<bar>k\<bar>) b
      in rnd f (if k = 0 then s \<and> t else k < 0) num den)"

text \<open>\<^verbatim>\<open>math.Trunc\<close>, and the conversion to an integer of a number in its range.\<close>

fun ftrunc :: "fformat \<Rightarrow> gofloat \<Rightarrow> gofloat" where
  "ftrunc f (Fin s m e) = (if 0 \<le> e then Fin s m e else rnd f s (m div 2 ^ nat (- e)) 1)"
| "ftrunc f x = x"

fun to_int :: "gofloat \<Rightarrow> int" where
  "to_int (Fin s m e) = (if s then - 1 else 1) * int (if 0 \<le> e then m * 2 ^ nat e else m div 2 ^ nat (- e))"
| "to_int _ = 0"

lemma dyadic_val:
  assumes "dyadic k j = (num, den)"
  shows "0 < den" and "real num / real den = real k * 2 powi j"
  using assms by (auto simp: dyadic_def power_int_def field_simps split: if_splits)

text \<open>The values a format holds.\<close>

definition holds :: "fformat \<Rightarrow> real \<Rightarrow> bool" where
  "holds f x \<longleftrightarrow> (\<exists>k j. \<bar>x\<bar> = real k * 2 powi j \<and> k < 2 ^ prec f \<and> emin f \<le> j \<and> j \<le> emax f)"

lemma holds_largest: "holds f x \<Longrightarrow> \<bar>x\<bar> \<le> largest f"
proof -
  assume "holds f x"
  then obtain k j where x: "\<bar>x\<bar> = real k * 2 powi j" "k < 2 ^ prec f" "j \<le> emax f" by (auto simp: holds_def)
  have "real k \<le> real (2 ^ prec f - 1)" using x(2) by linarith
  then show ?thesis unfolding x(1) largest_def using x(3) by (intro mult_mono) simp_all
qed

lemma wf_float_holds: "wf_float f (Fin s m e) \<Longrightarrow> holds f (fval (Fin s m e))"
  by (auto simp: holds_def abs_mult intro!: exI [of _ m] exI [of _ e])

lemma rnd_holds:
  assumes "wf_format f" and "0 < den" and "holds f x" and "\<bar>x\<bar> = real num / real den"
  shows "finite_float (rnd f s num den)" and "fval (rnd f s num den) = with_sign s \<bar>x\<bar>" and "wf_float f (rnd f s num den)"
  using rnd_correct [OF assms(1,2), of num s] holds_largest [OF assms(3)] assms(3,4) by (auto simp: holds_def)

lemma rnd_int:
  assumes "wf_format f" and "emin f \<le> 0" and "0 \<le> emax f" and "n < 2 ^ prec f"
  shows "finite_float (rnd f s n 1)" and "fval (rnd f s n 1) = with_sign s (real n)" and "wf_float f (rnd f s n 1)"
proof -
  have "holds f (real n)" unfolding holds_def using assms by (intro exI [of _ n] exI [of _ 0]) simp
  from rnd_holds [OF assms(1) _ this, of 1 n s]
  show "finite_float (rnd f s n 1)" "fval (rnd f s n 1) = with_sign s (real n)" "wf_float f (rnd f s n 1)" by simp_all
qed

lemma fmul_exact:
  assumes "wf_format f" and "finite_float a" and "finite_float b" and "holds f (fval a * fval b)"
  shows "finite_float (fmul f a b) \<and> fval (fmul f a b) = fval a * fval b \<and> wf_float f (fmul f a b)"
proof -
  obtain s m e where a: "a = Fin s m e" using assms(2) by (cases a) auto
  obtain t n g where b: "b = Fin t n g" using assms(3) by (cases b) auto
  obtain num den where d: "dyadic (m * n) (e + g) = (num, den)" by fastforce
  have x: "\<bar>fval a * fval b\<bar> = real num / real den"
    unfolding dyadic_val(2) [OF d] a b by (simp add: abs_mult power_int_add)
  have "fval a * fval b = with_sign (s \<noteq> t) \<bar>fval a * fval b\<bar>" by (auto simp: a b with_sign_def abs_mult)
  then show ?thesis using rnd_holds [OF assms(1) dyadic_val(1) [OF d] assms(4) x, of "s \<noteq> t"] by (simp add: a b d)
qed

lemma fdiv_exact:
  assumes "wf_format f" and "finite_float a" and "finite_float b" and "fval b \<noteq> 0" and "holds f (fval a / fval b)"
  shows "finite_float (fdiv f a b) \<and> fval (fdiv f a b) = fval a / fval b \<and> wf_float f (fdiv f a b)"
proof -
  obtain s m e where a: "a = Fin s m e" using assms(2) by (cases a) auto
  obtain t n g where b: "b = Fin t n g" using assms(3) by (cases b) auto
  have n: "n \<noteq> 0" using assms(4) b by auto
  obtain num den where d: "dyadic m (e - g) = (num, den)" by fastforce
  have x: "\<bar>fval a / fval b\<bar> = real num / real (den * n)"
    using dyadic_val(2) [OF d] n dyadic_val(1) [OF d] by (simp add: a b abs_mult power_int_diff field_simps)
  have "fval a / fval b = with_sign (s \<noteq> t) \<bar>fval a / fval b\<bar>" by (auto simp: a b with_sign_def abs_mult)
  moreover have "0 < den * n" using dyadic_val(1) [OF d] n by simp
  moreover have "fdiv f a b = rnd f (s \<noteq> t) num (den * n)" using n by (simp add: a b d)
  ultimately show ?thesis using rnd_holds [OF assms(1) _ assms(5) x, of "s \<noteq> t"] by metis
qed

text \<open>Truncation of a number of the format is exact.\<close>

lemma ftrunc_value:
  assumes "wf_format f" and "emin f \<le> 0" and "0 \<le> emax f" and "wf_float f (Fin s m e)"
  shows "finite_float (ftrunc f (Fin s m e)) \<and> wf_float f (ftrunc f (Fin s m e)) \<and>
     fval (ftrunc f (Fin s m e)) = with_sign s (real_of_int \<lfloor>real m * 2 powi e\<rfloor>)"
proof (cases "0 \<le> e")
  case True
  then have "real m * 2 powi e = real_of_int (int m * 2 ^ nat e)" by (simp add: power_int_def)
  then have fl: "real_of_int \<lfloor>real m * 2 powi e\<rfloor> = real m * 2 powi e" by (metis floor_of_int)
  show ?thesis unfolding fl using True assms(4) by (simp add: with_sign_def)
next
  case False
  then have p: "real m * 2 powi e = real m / real (2 ^ nat (- e))" by (simp add: power_int_def field_simps)
  have "m div 2 ^ nat (- e) < 2 ^ prec f" using assms(4) by (intro le_less_trans [OF div_le_dividend]) simp
  then show ?thesis
    unfolding p floor_divide_of_nat_eq using rnd_int [OF assms(1-3), of "m div 2 ^ nat (- e)" s] False by simp
qed

subsection \<open>Bounds\<close>

text \<open>Rounding does not cross a number the format holds.\<close>

lemma rnd_above:
  assumes "wf_format f" and "0 < num" and "0 < den" and "holds f lo" and "0 \<le> lo" and "lo \<le> real num / real den"
  shows "lo \<le> rval f num den"
proof -
  obtain k j where lo: "lo = real k * 2 powi j" "k < 2 ^ prec f" "emin f \<le> j" using assms(4,5) by (auto simp: holds_def)
  obtain n d where d: "dyadic k j = (n, d)" by fastforce
  note v = dyadic_val [OF d]
  show ?thesis
  proof (cases "k = 0")
    case True
    then show ?thesis using lo by (simp add: rval_def)
  next
    case False
    then have n: "0 < n" using v by (cases "n = 0") auto
    have "lo = rval f n d" using rval_exact [OF n v(1) v(2) lo(2,3)] v(2) lo(1) by simp
    also have "\<dots> \<le> rval f num den" using rval_mono [OF assms(1) n v(1) assms(2,3)] assms(6) v(2) lo(1) by simp
    finally show ?thesis .
  qed
qed

lemma rnd_below:
  assumes "wf_format f" and "0 < num" and "0 < den" and "holds f hi" and "real num / real den \<le> hi"
  shows "rval f num den \<le> hi"
proof -
  have x: "0 < real num / real den" using assms(2,3) by simp
  then have "0 < hi" using assms(5) by linarith
  then obtain k j where hi: "hi = real k * 2 powi j" "k < 2 ^ prec f" "emin f \<le> j" using assms(4) by (auto simp: holds_def)
  obtain n d where d: "dyadic k j = (n, d)" by fastforce
  note v = dyadic_val [OF d]
  have n: "0 < n" using v hi(1) \<open>0 < hi\<close> by (cases "n = 0") auto
  have "rval f num den \<le> rval f n d" using rval_mono [OF assms(1-3) n v(1)] assms(5) v(2) hi(1) by simp
  also have "\<dots> = hi" using rval_exact [OF n v(1) v(2) hi(2,3)] v(2) hi(1) by simp
  finally show ?thesis .
qed

lemma rnd_between:
  assumes "wf_format f" and "0 < den" and "holds f lo" and "holds f hi" and "0 \<le> lo" and "lo \<le> real num / real den" and "real num / real den \<le> hi"
  shows "\<exists>m e. rnd f False num den = Fin False m e \<and> lo \<le> real m * 2 powi e \<and> real m * 2 powi e \<le> hi"
proof -
  have "real num / real den \<le> largest f" using holds_largest [OF assms(4)] assms(7) by linarith
  then obtain m e where r: "rnd f False num den = Fin False m e" "fval (rnd f False num den) = with_sign False (if num = 0 then 0 else rval f num den)"
    using rnd_finite [OF assms(1,2)] by blast
  show ?thesis
    using r assms rnd_above [OF assms(1) _ assms(2,3,5,6)] rnd_below [OF assms(1) _ assms(2,4,7)]
    by (cases "num = 0") (auto simp: with_sign_def)
qed

lemma fadd_between:
  assumes "wf_format f" and "holds f lo" and "holds f hi" and "0 \<le> lo"
      and "lo \<le> real m * 2 powi e + real n * 2 powi g" and "real m * 2 powi e + real n * 2 powi g \<le> hi"
  shows "\<exists>k j. fadd f (Fin False m e) (Fin False n g) = Fin False k j \<and> lo \<le> real k * 2 powi j \<and> real k * 2 powi j \<le> hi"
proof -
  let ?b = "min e g"
  define k where "k = m * 2 ^ nat (e - min e g) + n * 2 ^ nat (g - min e g)"
  obtain num den where d: "dyadic k ?b = (num, den)" by fastforce
  have p: "(2 :: real) powi x = 2 ^ nat (x - ?b) * 2 powi ?b" if "?b \<le> x" for x
    using that power_int_add [of "2 :: real" "x - ?b" ?b] by (simp add: power_int_def)
  have "real num / real den = real m * 2 powi e + real n * 2 powi g"
    unfolding dyadic_val(2) [OF d] k_def using p [of e] p [of g] by (simp add: distrib_right)
  moreover have "as_int False m (e - ?b) + as_int False n (g - ?b) = int k" by (simp add: as_int_def k_def)
  then have "fadd f (Fin False m e) (Fin False n g) = rnd f False num den" using d by (simp add: Let_def)
  ultimately show ?thesis using rnd_between [OF assms(1) dyadic_val(1) [OF d] assms(2-4)] assms(5,6) by simp
qed

lemma fmul_between:
  assumes "wf_format f" and "holds f lo" and "holds f hi" and "0 \<le> lo"
      and "lo \<le> real m * 2 powi e * (real n * 2 powi g)" and "real m * 2 powi e * (real n * 2 powi g) \<le> hi"
  shows "\<exists>k j. fmul f (Fin False m e) (Fin False n g) = Fin False k j \<and> lo \<le> real k * 2 powi j \<and> real k * 2 powi j \<le> hi"
proof -
  obtain num den where d: "dyadic (m * n) (e + g) = (num, den)" by fastforce
  have "real num / real den = real m * 2 powi e * (real n * 2 powi g)" unfolding dyadic_val(2) [OF d] by (simp add: power_int_add)
  then show ?thesis using rnd_between [OF assms(1) dyadic_val(1) [OF d] assms(2-4)] assms(5,6) by (simp add: d)
qed

lemma to_int_floor: "to_int (Fin False m e) = \<lfloor>real m * 2 powi e\<rfloor>"
proof (cases "0 \<le> e")
  case True
  then have "real m * 2 powi e = real_of_int (int m * 2 ^ nat e)" by (simp add: power_int_def)
  then show ?thesis using True by (simp only: floor_of_int) simp
next
  case False
  then have "real m * 2 powi e = real m / real (2 ^ nat (- e))" by (simp add: power_int_def field_simps)
  then show ?thesis using False by (simp only: floor_divide_of_nat_eq) simp
qed

subsection \<open>Evaluation\<close>

lemma floorlog_numeral:
  "floorlog 2 (numeral (num.Bit0 n)) = Suc (floorlog 2 (numeral n))" "floorlog 2 (numeral (num.Bit1 n)) = Suc (floorlog 2 (numeral n))"
  "floorlog 2 1 = 1" "floorlog 2 (Suc 0) = 1"
  by (subst compute_floorlog, simp)+

lemmas float_eval = rnd_def ulp_exp_def log2_def scaled_def near_even_def dyadic_def as_int_def of_int_float_def binary64_def binary32_def
  floorlog_numeral Let_def

lemma float_dyadics:
  assumes "n < 2 ^ 53"
  shows "holds binary64 (real n)" and "holds binary64 (real n / 2)"
proof -
  show "holds binary64 (real n)"
    unfolding holds_def using assms by (intro exI [of _ n] exI [of _ 0]) (simp add: binary64_def)
  show "holds binary64 (real n / 2)"
    unfolding holds_def using assms by (intro exI [of _ n] exI [of _ "- 1"]) (simp add: binary64_def power_int_minus field_simps)
qed

end
