(* ===== verification/FloatUtils.thy ===== *)
theory FloatUtils
  imports GoFloat
begin

section \<open>Floating point helpers\<close>

text \<open>
  The functions on floating point numbers of \<^verbatim>\<open>utils/utilsNumbers.go\<close> and \<^verbatim>\<open>utils/utilsString.go\<close> over the numbers of \<open>GoFloat\<close>.  \<^verbatim>\<open>math.Pow\<close>,
  \<^verbatim>\<open>strconv.ParseFloat\<close> and \<^verbatim>\<open>strconv.FormatFloat\<close> are parameters with their documented laws.
\<close>

subsection \<open>Cutting off digits\<close>

definition ten :: gofloat where
  "ten = of_int_float binary64 10"

definition TruncateFloat :: "(gofloat \<Rightarrow> gofloat \<Rightarrow> gofloat) \<Rightarrow> gofloat \<Rightarrow> int \<Rightarrow> gofloat" where
  "TruncateFloat pow f precision =
     (let multiplier = pow ten (of_int_float binary64 precision);
          multiplier = (if precision < 0 then of_int_float binary64 1 else multiplier)
      in fdiv binary64 (ftrunc binary64 (fmul binary64 f multiplier)) multiplier)"

text \<open>The powers of ten that \<^verbatim>\<open>float64\<close> holds are computed as they are.\<close>

definition lawful_pow :: "(gofloat \<Rightarrow> gofloat \<Rightarrow> gofloat) \<Rightarrow> bool" where
  "lawful_pow pow \<longleftrightarrow> (\<forall>n \<le> 22. pow ten (of_int_float binary64 (int n)) = of_int_float binary64 (10 ^ n))"

text \<open>Ten to the \<open>n\<close> is \<open>5 ^ n\<close> shifted.\<close>

lemma ten_power:
  assumes "n \<le> 22"
  shows "finite_float (of_int_float binary64 (10 ^ n))" and "fval (of_int_float binary64 (10 ^ n)) = 10 ^ n"
    and "wf_float binary64 (of_int_float binary64 (10 ^ n))"
proof -
  have "(5 :: nat) ^ n \<le> 5 ^ 22" using assms by (rule power_increasing) simp
  then have k: "(5 :: nat) ^ n < 2 ^ prec binary64" by (simp add: binary64_def)
  have "(10 :: real) ^ n = real (5 ^ n) * 2 powi int n" by (simp add: power_int_of_nat flip: power_mult_distrib)
  then have h: "holds binary64 (10 ^ n)"
    unfolding holds_def using k assms by (intro exI [of _ "5 ^ n"] exI [of _ "int n"]) (simp add: binary64_def)
  have a: "\<bar>10 ^ n\<bar> = real (10 ^ n) / real 1" by simp
  note r = rnd_holds [OF wf_formats(1) _ h a, of False]
  show "finite_float (of_int_float binary64 (10 ^ n))" "fval (of_int_float binary64 (10 ^ n)) = 10 ^ n"
    "wf_float binary64 (of_int_float binary64 (10 ^ n))"
    using r by (simp_all add: of_int_float_def with_sign_def nat_power_eq)
qed

text \<open>
  A number with no more digits than asked for is kept: when \<open>f * 10 ^ precision\<close> is an integer of at most 53 bits the result has the value of
  \<open>f\<close>.  Asked for no digits, the function gives the integer part.
\<close>

theorem TruncateFloat_keeps:
  assumes "lawful_pow pow" and "wf_float binary64 (Fin s m e)" and "n \<le> 22"
      and "real m * 2 powi e * 10 ^ n = real k" and "k < 2 ^ 53"
  shows "finite_float (TruncateFloat pow (Fin s m e) (int n)) \<and> fval (TruncateFloat pow (Fin s m e) (int n)) = fval (Fin s m e)"
proof -
  let ?f = binary64 and ?x = "Fin s m e" and ?t = "of_int_float binary64 (10 ^ n)"
  have f: "wf_format ?f" "emin ?f \<le> 0" "0 \<le> emax ?f" "prec ?f = 53" by (simp_all add: binary64_def wf_format_def)
  note t = ten_power [OF assms(3)]
  have xt: "fval ?x * fval ?t = with_sign s (real k)" using assms(4) t(2) by (simp add: with_sign_def)
  have h: "holds ?f (fval ?x * fval ?t)" unfolding xt holds_def using assms(5) f
    by (intro exI [of _ k] exI [of _ 0]) (simp add: with_sign_def binary64_def)
  note mul = fmul_exact [OF f(1) _ t(1) h]
  obtain s1 m1 e1 where p: "fmul ?f ?x ?t = Fin s1 m1 e1" using mul by (cases "fmul ?f ?x ?t") auto
  have v: "fval (Fin s1 m1 e1) = with_sign s (real k)" and w: "wf_float ?f (Fin s1 m1 e1)" using mul p xt by simp_all
  have "\<bar>fval (Fin s1 m1 e1)\<bar> = \<bar>with_sign s (real k)\<bar>" by (simp only: v)
  then have k1: "real m1 * 2 powi e1 = real k" by (simp add: abs_mult with_sign_def split: if_splits)
  then have "fval (ftrunc ?f (Fin s1 m1 e1)) = fval (Fin s1 m1 e1)" using ftrunc_value [OF f(1-3) w] k1 by (auto simp: with_sign_def)
  then have q: "finite_float (ftrunc ?f (Fin s1 m1 e1))" "fval (ftrunc ?f (Fin s1 m1 e1)) / fval ?t = fval ?x"
    using ftrunc_value [OF f(1-3) w] v xt t(2) by (simp_all add: field_simps)
  have "holds ?f (fval (ftrunc ?f (Fin s1 m1 e1)) / fval ?t)" unfolding q(2) by (rule wf_float_holds [OF assms(2)])
  from fdiv_exact [OF f(1) q(1) t(1) _ this] t(2) q(2) p assms(1,3)
  show ?thesis by (simp add: TruncateFloat_def lawful_pow_def)
qed

theorem TruncateFloat_integer_part:
  assumes "lawful_pow pow" and "wf_float binary64 (Fin s m e)" and "p \<le> 0"
  shows "fval (TruncateFloat pow (Fin s m e) p) = with_sign s (real_of_int \<lfloor>real m * 2 powi e\<rfloor>)"
proof -
  let ?f = binary64 and ?x = "Fin s m e" and ?t = "of_int_float binary64 1"
  have f: "wf_format ?f" "emin ?f \<le> 0" "0 \<le> emax ?f" by (simp_all add: binary64_def wf_format_def)
  have t: "finite_float ?t" "fval ?t = 1" "wf_float ?f ?t" using ten_power [of 0] by simp_all
  have "(if p < 0 then ?t else pow ten (of_int_float binary64 p)) = ?t"
    using assms(1,3) unfolding lawful_pow_def by (cases "p = 0") (auto dest: spec [of _ 0])
  then have r: "TruncateFloat pow ?x p = fdiv ?f (ftrunc ?f (fmul ?f ?x ?t)) ?t" by (simp add: TruncateFloat_def Let_def)
  have "holds ?f (fval ?x * fval ?t)" using wf_float_holds [OF assms(2)] t(2) by simp
  note mul = fmul_exact [OF f(1) _ t(1) this]
  obtain s1 m1 e1 where p: "fmul ?f ?x ?t = Fin s1 m1 e1" using mul by (cases "fmul ?f ?x ?t") auto
  have v: "fval (Fin s1 m1 e1) = fval ?x" and w: "wf_float ?f (Fin s1 m1 e1)" using mul p t(2) by simp_all
  note q = ftrunc_value [OF f(1-3) w]
  obtain s2 m2 e2 where p2: "ftrunc ?f (Fin s1 m1 e1) = Fin s2 m2 e2" using q by (cases "ftrunc ?f (Fin s1 m1 e1)") auto
  have "holds ?f (fval (Fin s2 m2 e2) / fval ?t)" using wf_float_holds [of ?f s2 m2 e2] q p2 t(2) by simp
  from fdiv_exact [OF f(1) _ t(1) _ this] have d: "fval (TruncateFloat pow ?x p) = fval (ftrunc ?f (Fin s1 m1 e1))"
    unfolding r p p2 using t(2) by simp
  have "\<bar>fval (Fin s1 m1 e1)\<bar> = \<bar>fval ?x\<bar>" by (simp only: v)
  then have a: "real m1 * 2 powi e1 = real m * 2 powi e" by (simp add: abs_mult split: if_splits)
  show ?thesis
  proof (cases "real m * 2 powi e = 0")
    case True
    then have "real_of_int \<lfloor>real m * 2 powi e\<rfloor> = 0" "real_of_int \<lfloor>real m1 * 2 powi e1\<rfloor> = 0" using a by (metis floor_zero of_int_0)+
    then show ?thesis unfolding d using q by (simp add: with_sign_def)
  next
    case False
    then have "s1 = s" using v a by (cases s; cases s1) auto
    then show ?thesis unfolding d using q a by simp
  qed
qed

text \<open>
  Two surprises.  A digit asked for can be lost: the product with the power of ten is rounded before it is cut, so that \<open>0.29\<close> to two digits is
  \<open>0.28\<close>.  And a large number becomes infinite, although it has no digits to cut off.
\<close>

lemma truncate_product: "fmul binary64 (rnd binary64 False 29 100) (of_int_float binary64 100) = Fin False 8162774324609023 (- 48)"
proof -
  have "rnd binary64 False 29 100 = Fin False 5224175567749775 (- 54)" "of_int_float binary64 100 = Fin False 7036874417766400 (- 46)"
    by (simp_all add: float_eval)
  then show ?thesis by (simp add: float_eval)
qed

lemma truncate_quotient: "fdiv binary64 (ftrunc binary64 (Fin False 8162774324609023 (- 48))) (of_int_float binary64 100) = rnd binary64 False 28 100"
proof -
  have t: "ftrunc binary64 (Fin False 8162774324609023 (- 48)) = Fin False 7881299347898368 (- 48)"
    and h: "of_int_float binary64 100 = Fin False 7036874417766400 (- 46)"
    and r: "rnd binary64 False 28 100 = Fin False 5044031582654956 (- 54)"
    and q: "rnd binary64 False 7881299347898368 28147497671065600 = Fin False 5044031582654956 (- 54)"
    by (simp_all add: float_eval)
  show ?thesis unfolding t h r by (simp add: dyadic_def q)
qed

theorem truncate_loses_digit:
  assumes "lawful_pow pow"
  shows "TruncateFloat pow (rnd binary64 False 29 100) 2 = rnd binary64 False 28 100"
proof -
  have "pow ten (of_int_float binary64 2) = of_int_float binary64 100"
    using assms unfolding lawful_pow_def by (auto dest: spec [of _ 2])
  then show ?thesis unfolding TruncateFloat_def Let_def using truncate_product truncate_quotient by (simp del: ftrunc.simps)
qed

theorem truncate_overflows:
  assumes "lawful_pow pow"
  shows "wf_float binary64 (Fin False 9007199254740991 971) \<and> TruncateFloat pow (Fin False 9007199254740991 971) 1 = Inf False"
proof -
  have p: "pow ten (of_int_float binary64 1) = of_int_float binary64 10"
    using assms unfolding lawful_pow_def by (auto dest: spec [of _ 1])
  have t: "of_int_float binary64 10 = Fin False 5629499534213120 (- 49)" by (simp add: float_eval)
  have m: "fmul binary64 (Fin False 9007199254740991 971) (Fin False 5629499534213120 (- 49)) = Inf False"
  proof -
    obtain num den where d: "dyadic (9007199254740991 * 5629499534213120) (971 + - 49) = (num, den)" by fastforce
    have "real num / real den = 9007199254740991 * 5629499534213120 * 2 ^ 922" using dyadic_val(2) [OF d] by simp
    also have "2 ^ 102 * 2 ^ 922 \<le> \<dots>" by (rule mult_right_mono) simp_all
    also have "(2 :: real) ^ 102 * 2 ^ 922 = 2 powi (emax binary64 + int (prec binary64))" by (simp add: binary64_def flip: power_add)
    finally have b: "2 powi (emax binary64 + int (prec binary64)) \<le> real num / real den" by simp
    then have "0 < real num / real den" by (rule less_le_trans [rotated]) simp
    then have "0 < num" by (cases "num = 0") auto
    from rnd_overflow [OF this dyadic_val(1) [OF d] b] show ?thesis using d by simp
  qed
  have "TruncateFloat pow (Fin False 9007199254740991 971) 1 = Inf False"
    unfolding TruncateFloat_def Let_def p t using m by (simp del: fmul.simps)
  then show ?thesis by (simp add: binary64_def)
qed

lemma lawful_pow_exists: "lawful_pow (\<lambda>a b. of_int_float binary64 (10 ^ nat (to_int b)))"
  unfolding lawful_pow_def
proof (intro allI impI)
  fix n :: nat assume "n \<le> 22"
  then have n: "n < 2 ^ prec binary64" by (simp add: binary64_def)
  have f: "wf_format binary64" "emin binary64 \<le> 0" "0 \<le> emax binary64" by (simp_all add: binary64_def wf_format_def)
  obtain m e where r: "rnd binary64 False n 1 = Fin False m e"
    using rnd_finite [OF f(1), of 1 n False] holds_largest [of binary64 "real n"] n f
    by (force simp: holds_def intro: exI [of _ n] exI [of _ 0])
  then have "real m * 2 powi e = real n" using rnd_int(2) [OF f n, of False] by (simp add: with_sign_def)
  then have "to_int (Fin False m e) = int n" unfolding to_int_floor by simp
  then have "to_int (of_int_float binary64 (int n)) = int n" using r by (simp add: of_int_float_def del: to_int.simps)
  then show "of_int_float binary64 (10 ^ nat (to_int (of_int_float binary64 (int n)))) = of_int_float binary64 (10 ^ n)" by simp
qed

subsection \<open>Text\<close>

text \<open>\<open>parse32\<close> is \<^verbatim>\<open>strconv.ParseFloat\<close> at 32 bits, which also fails out of range; \<open>format32\<close> and \<open>format64\<close> are \<^verbatim>\<open>FormatFloat\<close> with the fewest digits.\<close>

definition StrToFloat32Default :: "(string \<Rightarrow> string + gofloat) \<Rightarrow> string \<Rightarrow> gofloat \<Rightarrow> gofloat" where
  "StrToFloat32Default parse32 str defaultValue =
     (case parse32 (map (\<lambda>c. if c = CHR '','' then CHR ''.'' else c) str) of Inl e \<Rightarrow> defaultValue | Inr value \<Rightarrow> value)"

definition Flat64ToStr :: "(gofloat \<Rightarrow> string) \<Rightarrow> gofloat \<Rightarrow> string" where
  "Flat64ToStr format64 value = format64 value"

definition Flat32ToStr :: "(gofloat \<Rightarrow> string) \<Rightarrow> gofloat \<Rightarrow> string" where
  "Flat32ToStr format32 value = format32 value"

text \<open>What \<^verbatim>\<open>strconv\<close> documents: the text is read back as the number; it has no comma.\<close>

definition lawful_text :: "fformat \<Rightarrow> (string \<Rightarrow> string + gofloat) \<Rightarrow> (gofloat \<Rightarrow> string) \<Rightarrow> bool" where
  "lawful_text f parse format \<longleftrightarrow>
     (\<forall>v. wf_float f v \<and> finite_float v \<longrightarrow> parse (format v) = Inr v \<and> CHR '','' \<notin> set (format v))"

text \<open>A number is read back from its text, with a decimal point or a decimal comma.\<close>

lemma float32_round_trip:
  assumes "lawful_text binary32 parse format" and "wf_float binary32 v" and "finite_float v"
  shows "StrToFloat32Default parse (Flat32ToStr format v) d = v"
    and "StrToFloat32Default parse (map (\<lambda>c. if c = CHR ''.'' then CHR '','' else c) (Flat32ToStr format v)) d = v"
proof -
  have p: "parse (format v) = Inr v" "CHR '','' \<notin> set (format v)" using assms by (simp_all add: lawful_text_def)
  have "map (\<lambda>c. if c = CHR '','' then CHR ''.'' else c) (format v) = format v" using p(2) by (auto intro!: map_idI)
  moreover have "map (\<lambda>c. if c = CHR '','' then CHR ''.'' else c) (map (\<lambda>c. if c = CHR ''.'' then CHR '','' else c) (format v)) = format v"
    using p(2) by (auto simp: comp_def intro!: map_idI)
  ultimately show "StrToFloat32Default parse (Flat32ToStr format v) d = v"
    "StrToFloat32Default parse (map (\<lambda>c. if c = CHR ''.'' then CHR '','' else c) (Flat32ToStr format v)) d = v"
    using p(1) by (simp_all add: StrToFloat32Default_def Flat32ToStr_def)
qed

end
