(* ===== verification/GoHeap.thy ===== *)
theory GoHeap
  imports Prelude
begin

section \<open>The binary heap of container/heap\<close>

text \<open>
  \<^verbatim>\<open>heap.Push\<close> and \<^verbatim>\<open>heap.Pop\<close> of Go's \<^verbatim>\<open>container/heap\<close> on a slice, with the order given by a
  key (\<^verbatim>\<open>Less(i, j)\<close> is \<open>key (h ! i) < key (h ! j)\<close>).  The sift loops \<open>heap_up\<close> and
  \<open>heap_down\<close> are the library's \<^verbatim>\<open>up\<close> and \<^verbatim>\<open>down\<close>, index by index.  The contract a client
  relies on, a multiset of entries of which the first is least, is the locale
  \<open>min_queue\<close>, interpreted here on the two operations.
\<close>

subsection \<open>The operations\<close>

definition swap :: "nat \<Rightarrow> nat \<Rightarrow> 'a list \<Rightarrow> 'a list" where
  "swap i j xs = xs[i := xs ! j, j := xs ! i]"

lemma length_swap [simp]: "length (swap i j xs) = length xs"
  by (simp add: swap_def)

lemma mset_swap_eq [simp]:
  "i < length xs \<Longrightarrow> j < length xs \<Longrightarrow> mset (swap i j xs) = mset xs"
  using Multiset.mset_swap [of j xs i] by (simp add: swap_def)

lemma nth_swap:
  "i < length xs \<Longrightarrow> j < length xs \<Longrightarrow> k < length xs \<Longrightarrow>
   swap i j xs ! k = (if k = j then xs ! i else if k = i then xs ! j else xs ! k)"
  by (simp add: swap_def nth_list_update)

text \<open>\<open>parent j\<close> is \<^verbatim>\<open>(j - 1) / 2\<close>, which Go's truncating division makes 0 at the root.\<close>

definition parent :: "nat \<Rightarrow> nat" where
  "parent j = (j - 1) div 2"

lemma parent_less [simp]: "0 < j \<Longrightarrow> parent j < j"
  unfolding parent_def by linarith

lemma parent_le [simp]: "parent j \<le> j"
  unfolding parent_def by linarith

lemma parent_child [simp]: "parent (2 * i + 1) = i" "parent (2 * i + 2) = i"
  by (simp_all add: parent_def)

lemma parent_eq_iff: "0 < c \<Longrightarrow> parent c = i \<longleftrightarrow> c = 2 * i + 1 \<or> c = 2 * i + 2"
  unfolding parent_def by (auto; presburger)

function heap_up :: "('a \<Rightarrow> 'k::linorder) \<Rightarrow> 'a list \<Rightarrow> nat \<Rightarrow> 'a list" where
  "heap_up key h j =
     (let i = parent j
      in if i = j \<or> \<not> key (h ! j) < key (h ! i) then h
         else heap_up key (swap i j h) i)"
  by pat_completeness auto
termination
  by (relation "measure (\<lambda>(key, h, j). j)") (auto simp: parent_def)

function heap_down :: "('a \<Rightarrow> 'k::linorder) \<Rightarrow> 'a list \<Rightarrow> nat \<Rightarrow> nat \<Rightarrow> 'a list" where
  "heap_down key h i n =
     (let j1 = 2 * i + 1
      in if n \<le> j1 then h
         else let j2 = j1 + 1;
                  j = (if j2 < n \<and> key (h ! j2) < key (h ! j1) then j2 else j1)
              in if \<not> key (h ! j) < key (h ! i) then h
                 else heap_down key (swap i j h) j n)"
  by pat_completeness auto
termination
  by (relation "measure (\<lambda>(key, h, i, n). n - i)") (auto split: if_splits)

declare heap_up.simps [simp del] heap_down.simps [simp del]

definition heap_push :: "('a \<Rightarrow> 'k::linorder) \<Rightarrow> 'a \<Rightarrow> 'a list \<Rightarrow> 'a list" where
  "heap_push key x h = heap_up key (h @ [x]) (length h)"

text \<open>\<^verbatim>\<open>heap.Pop\<close>: swap the root with the last entry, sift down, cut the last entry off.\<close>

definition heap_pop :: "('a \<Rightarrow> 'k::linorder) \<Rightarrow> 'a list \<Rightarrow> 'a \<times> 'a list" where
  "heap_pop key h =
     (let n = length h - 1; h' = heap_down key (swap 0 n h) 0 n
      in (h' ! n, take n h'))"

subsection \<open>The heap order\<close>

definition heap_inv :: "('a \<Rightarrow> 'k::linorder) \<Rightarrow> 'a list \<Rightarrow> bool" where
  "heap_inv key h \<longleftrightarrow> (\<forall>c. 0 < c \<and> c < length h \<longrightarrow> key (h ! parent c) \<le> key (h ! c))"

text \<open>Sifting up: the order holds except between \<open>j\<close> and its parent.\<close>

definition up_inv :: "('a \<Rightarrow> 'k::linorder) \<Rightarrow> 'a list \<Rightarrow> nat \<Rightarrow> bool" where
  "up_inv key h j \<longleftrightarrow> j < length h \<and>
     (\<forall>c. 0 < c \<and> c < length h \<and> c \<noteq> j \<longrightarrow> key (h ! parent c) \<le> key (h ! c)) \<and>
     (\<forall>c. 0 < j \<and> 0 < c \<and> c < length h \<and> parent c = j \<longrightarrow> key (h ! parent j) \<le> key (h ! c))"

text \<open>Sifting down among the first \<open>n\<close> entries: the order holds except below \<open>i\<close>.\<close>

definition down_inv :: "('a \<Rightarrow> 'k::linorder) \<Rightarrow> 'a list \<Rightarrow> nat \<Rightarrow> nat \<Rightarrow> bool" where
  "down_inv key h i n \<longleftrightarrow> n \<le> length h \<and>
     (\<forall>c. 0 < c \<and> c < n \<and> parent c \<noteq> i \<longrightarrow> key (h ! parent c) \<le> key (h ! c)) \<and>
     (\<forall>c. 0 < i \<and> 0 < c \<and> c < n \<and> parent c = i \<longrightarrow> key (h ! parent i) \<le> key (h ! c))"

lemma up_inv_step:
  assumes inv: "up_inv key h j" and less: "key (h ! j) < key (h ! parent j)" and "0 < j"
  shows "up_inv key (swap (parent j) j h) (parent j)"
proof -
  let ?i = "parent j"
  have j: "j < length h" and i: "?i < length h" and ij: "?i < j"
    using inv \<open>0 < j\<close> parent_less [OF \<open>0 < j\<close>] by (auto simp: up_inv_def)
  have ord: "key (h ! parent c) \<le> key (h ! c)" if "0 < c" "c < length h" "c \<noteq> j" for c
    using inv that by (auto simp: up_inv_def)
  have grand: "key (h ! ?i) \<le> key (h ! c)" if "0 < c" "c < length h" "parent c = j" for c
    using inv that \<open>0 < j\<close> by (auto simp: up_inv_def)
  note nth = nth_swap [OF i j]
  have plen: "parent c < length h" if "c < length h" for c
    using that parent_le [of c] by linarith
  have A: "key (swap ?i j h ! parent c) \<le> key (swap ?i j h ! c)"
    if c: "0 < c" "c < length h" "c \<noteq> ?i" for c
  proof (cases "c = j")
    case True
    with less ij show ?thesis by (simp add: nth i j)
  next
    case False
    have "key (h ! parent c) \<le> key (h ! c)" using ord c False by blast
    moreover have "key (h ! j) \<le> key (h ! c)" if "parent c = ?i"
      using ord [OF c(1,2) False] less unfolding that by simp
    moreover have "key (h ! ?i) \<le> key (h ! c)" if "parent c = j"
      using grand that c by blast
    ultimately show ?thesis using c False by (simp add: nth plen)
  qed
  have B: "key (swap ?i j h ! parent ?i) \<le> key (swap ?i j h ! c)"
    if c: "0 < ?i" "0 < c" "c < length h" "parent c = ?i" for c
  proof -
    have pi: "parent ?i < ?i" using c(1) by simp
    have up: "key (h ! parent ?i) \<le> key (h ! ?i)" using ord [OF c(1) i] ij by simp
    have "key (h ! ?i) \<le> key (h ! c)" if "c \<noteq> j" using ord [OF c(2,3) that] c(4) by simp
    moreover have "c \<noteq> ?i" using c by (metis less_irrefl parent_less)
    moreover have "swap ?i j h ! parent ?i = h ! parent ?i"
      using nth [of "parent ?i"] pi ij i by (metis less_asym less_irrefl order.strict_trans)
    ultimately show ?thesis using up c by (auto simp: nth intro: order_trans)
  qed
  show ?thesis using A B i by (auto simp: up_inv_def)
qed

lemma heap_up_correct:
  "up_inv key h j \<Longrightarrow> heap_inv key (heap_up key h j) \<and> mset (heap_up key h j) = mset h"
proof (induction key h j rule: heap_up.induct)
  case (1 key h j)
  show ?case
  proof (cases "parent j = j \<or> \<not> key (h ! j) < key (h ! parent j)")
    case True
    have "heap_inv key h"
      unfolding heap_inv_def
    proof (intro allI impI)
      fix c assume c: "0 < c \<and> c < length h"
      show "key (h ! parent c) \<le> key (h ! c)"
        using 1(2) c True parent_less [of j] by (cases "c = j") (auto simp: up_inv_def)
    qed
    with True show ?thesis by (simp add: heap_up.simps [of key h j] Let_def)
  next
    case False
    then have "0 < j" by (cases j) (auto simp: parent_def)
    from False this 1(2) have "up_inv key (swap (parent j) j h) (parent j)"
      by (simp add: up_inv_step)
    with 1(1) [OF refl False] False
    have "heap_inv key (heap_up key h j) \<and> mset (heap_up key h j) = mset (swap (parent j) j h)"
      by (simp add: heap_up.simps [of key h j] Let_def)
    moreover have "mset (swap (parent j) j h) = mset h"
      using 1(2) parent_less [OF \<open>0 < j\<close>] by (intro mset_swap_eq) (auto simp: up_inv_def)
    ultimately show ?thesis by simp
  qed
qed

lemma down_inv_step:
  assumes inv: "down_inv key h i n" and j: "parent j = i" "0 < j" "j < n"
    and least: "\<And>c. 0 < c \<Longrightarrow> c < n \<Longrightarrow> parent c = i \<Longrightarrow> key (h ! j) \<le> key (h ! c)"
    and less: "key (h ! j) < key (h ! i)"
  shows "down_inv key (swap i j h) j n"
proof -
  have n: "n \<le> length h" using inv by (simp add: down_inv_def)
  have ij: "i < j" using j parent_less by blast
  have il: "i < length h" and jl: "j < length h" using n j ij by linarith+
  have ord: "key (h ! parent c) \<le> key (h ! c)" if "0 < c" "c < n" "parent c \<noteq> i" for c
    using inv that by (auto simp: down_inv_def)
  have grand: "key (h ! parent i) \<le> key (h ! c)" if "0 < i" "0 < c" "c < n" "parent c = i" for c
    using inv that by (auto simp: down_inv_def)
  have nth: "swap i j h ! c = (if c = j then h ! i else if c = i then h ! j else h ! c)"
    if "c < n" for c
    using that n by (simp add: nth_swap [OF il jl])
  have pn: "parent c < n" if "c < n" for c using that parent_le [of c] by linarith
  have A: "key (swap i j h ! parent c) \<le> key (swap i j h ! c)"
    if c: "0 < c" "c < n" "parent c \<noteq> j" for c
  proof (cases "parent c = i")
    case True
    have "c \<noteq> i" using c True by (metis less_irrefl parent_less)
    moreover have "swap i j h ! i = h ! j" using ij by (simp add: nth_swap [OF il jl il])
    ultimately show ?thesis
      unfolding True using least [OF c(1,2) True] less c by (auto simp: nth)
  next
    case False
    have "c \<noteq> j" using False j by auto
    have "key (h ! parent c) \<le> key (h ! c)" using ord c False by blast
    moreover have "key (h ! parent c) \<le> key (h ! j)" if "c = i"
      using grand [OF _ j(2,3,1)] c that by simp
    ultimately show ?thesis using c False \<open>c \<noteq> j\<close> by (auto simp: nth pn)
  qed
  have B: "key (swap i j h ! parent j) \<le> key (swap i j h ! c)"
    if c: "0 < c" "c < n" "parent c = j" for c
  proof -
    have "c \<noteq> i" "c \<noteq> j" using c ij by (metis less_irrefl less_trans parent_less)+
    moreover have "key (h ! j) \<le> key (h ! c)" using ord [OF c(1,2)] c(3) ij by auto
    ultimately show ?thesis using c j ij by (simp add: nth pn)
  qed
  show ?thesis using A B n by (auto simp: down_inv_def)
qed

text \<open>The smaller child, as the code picks it.\<close>

definition least_child :: "('a \<Rightarrow> 'k::linorder) \<Rightarrow> 'a list \<Rightarrow> nat \<Rightarrow> nat \<Rightarrow> nat" where
  "least_child key h i n =
     (if 2 * i + 2 < n \<and> key (h ! (2 * i + 2)) < key (h ! (2 * i + 1)) then 2 * i + 2
      else 2 * i + 1)"

lemma heap_down_unfold:
  "heap_down key h i n =
     (if n \<le> 2 * i + 1 then h
      else if \<not> key (h ! least_child key h i n) < key (h ! i) then h
      else heap_down key (swap i (least_child key h i n) h) (least_child key h i n) n)"
  by (subst heap_down.simps) (simp add: Let_def least_child_def)

lemma least_child_props:
  assumes "\<not> n \<le> 2 * i + 1"
  shows "parent (least_child key h i n) = i" "0 < least_child key h i n"
    "least_child key h i n < n" "i < least_child key h i n"
    "\<And>c. 0 < c \<Longrightarrow> c < n \<Longrightarrow> parent c = i \<Longrightarrow> key (h ! least_child key h i n) \<le> key (h ! c)"
  using assms by (auto simp: least_child_def parent_eq_iff simp flip: parent_child(2))

lemma heap_down_correct:
  "down_inv key h i n \<Longrightarrow>
     (\<forall>c. 0 < c \<and> c < n \<longrightarrow>
        key (heap_down key h i n ! parent c) \<le> key (heap_down key h i n ! c)) \<and>
     mset (heap_down key h i n) = mset h \<and> drop n (heap_down key h i n) = drop n h"
proof (induction "n - i" arbitrary: h i rule: less_induct)
  case less
  let ?j = "least_child key h i n"
  show ?case
  proof (cases "n \<le> 2 * i + 1 \<or> \<not> key (h ! ?j) < key (h ! i)")
    case True
    have "key (h ! parent c) \<le> key (h ! c)" if c: "0 < c" "c < n" for c
    proof (cases "parent c = i")
      case eq: True
      then have "\<not> n \<le> 2 * i + 1" using c by (auto simp: parent_eq_iff)
      with True least_child_props(5) [OF this c eq, of key h]
      have "key (h ! i) \<le> key (h ! ?j)" "key (h ! ?j) \<le> key (h ! c)" by auto
      with eq show ?thesis by simp
    next
      case False
      with less.prems c show ?thesis by (auto simp: down_inv_def)
    qed
    moreover have "heap_down key h i n = h"
      using True by (subst heap_down_unfold) (simp only: if_True if_False disj_comms split: if_split, blast)
    ultimately show ?thesis by simp
  next
    case False
    note props = least_child_props [where n = n and i = i and key = key and h = h]
    have inv: "down_inv key (swap i ?j h) ?j n"
      using False less.prems props by (intro down_inv_step) auto
    have "n \<le> length h" using less.prems by (simp add: down_inv_def)
    then have len: "i < length h" "?j < length h" "i < n" "?j < n" using props False by auto
    have "mset (swap i ?j h) = mset h" using len by simp
    moreover have "drop n (swap i ?j h) = drop n h" using len by (simp add: swap_def)
    moreover have "n - ?j < n - i" using props False by linarith
    note less.hyps [OF this inv]
    ultimately show ?thesis using False by (simp add: heap_down_unfold [of key h i n])
  qed
qed

subsection \<open>Push and pop\<close>

lemma up_inv_append: "heap_inv key h \<Longrightarrow> up_inv key (h @ [x]) (length h)"
proof -
  assume inv: "heap_inv key h"
  have "parent c < length h" if "c < length h" for c using that parent_le [of c] by linarith
  moreover have "parent c \<noteq> length h" if "0 < c" "c \<le> length h" for c
    using parent_less [OF that(1)] that by linarith
  ultimately show ?thesis
    using inv by (auto simp: up_inv_def heap_inv_def nth_append less_Suc_eq_le)
qed

lemma heap_push_correct:
  assumes "heap_inv key h"
  shows "heap_inv key (heap_push key x h)" "mset (heap_push key x h) = add_mset x (mset h)"
  using heap_up_correct [OF up_inv_append [OF assms]] by (simp_all add: heap_push_def)

lemma heap_root_least: "heap_inv key h \<Longrightarrow> c < length h \<Longrightarrow> key (h ! 0) \<le> key (h ! c)"
proof (induction c rule: less_induct)
  case (less c)
  show ?case
  proof (cases "c = 0")
    case False
    then have "parent c < c" by simp
    then have "key (h ! 0) \<le> key (h ! parent c)" using less by simp
    also have "\<dots> \<le> key (h ! c)" using less.prems False by (simp add: heap_inv_def)
    finally show ?thesis .
  qed simp
qed

lemma down_inv_swap_root:
  assumes "heap_inv key h" "h \<noteq> []"
  shows "down_inv key (swap 0 (length h - 1) h) 0 (length h - 1)"
proof -
  have "key (swap 0 (length h - 1) h ! parent c) \<le> key (swap 0 (length h - 1) h ! c)"
    if c: "0 < c" "c < length h - 1" "parent c \<noteq> 0" for c
  proof -
    have "parent c < length h - 1" using parent_less [OF c(1)] c by linarith
    with assms c show ?thesis by (auto simp: nth_swap heap_inv_def)
  qed
  then show ?thesis by (simp add: down_inv_def)
qed

lemma heap_pop_correct:
  assumes inv: "heap_inv key h" and ne: "h \<noteq> []"
  shows "fst (heap_pop key h) = h ! 0"
    "heap_inv key (snd (heap_pop key h))"
    "mset h = add_mset (h ! 0) (mset (snd (heap_pop key h)))"
proof -
  define n where "n = length h - 1"
  define h' where "h' = heap_down key (swap 0 n h) 0 n"
  have n: "Suc n = length h" using ne by (simp add: n_def)
  have down: "\<forall>c. 0 < c \<and> c < n \<longrightarrow> key (h' ! parent c) \<le> key (h' ! c)"
    "mset h' = mset (swap 0 n h)" "drop n h' = drop n (swap 0 n h)"
    using heap_down_correct [OF down_inv_swap_root [OF inv ne]] by (auto simp: h'_def n_def)
  have "0 < length h" "n < length h" using n by linarith+
  then have ms: "mset h' = mset h" using down(2) by simp
  have len: "length h' = Suc n" using arg_cong [OF ms, of size] n by simp
  have drop: "drop n h' = [h ! 0]"
  proof -
    have "drop n (swap 0 n h) = [swap 0 n h ! n]"
      using n by (metis Cons_nth_drop_Suc drop_all length_swap lessI order_refl)
    moreover have "swap 0 n h ! n = h ! 0"
      using \<open>0 < length h\<close> \<open>n < length h\<close> by (simp add: nth_swap)
    ultimately show ?thesis using down(3) by simp
  qed
  have "h' ! n = h ! 0" using drop len by (metis hd_drop_conv_nth lessI list.sel(1))
  then show "fst (heap_pop key h) = h ! 0"
    by (simp add: heap_pop_def Let_def h'_def n_def)
  have sndp: "snd (heap_pop key h) = take n h'"
    by (simp add: heap_pop_def Let_def h'_def n_def)
  show "heap_inv key (snd (heap_pop key h))"
    unfolding sndp heap_inv_def
  proof (intro allI impI)
    fix c assume c: "0 < c \<and> c < length (take n h')"
    then have "c < n" "parent c < c" by auto
    then have "parent c < n" "c < n" by linarith+
    then show "key (take n h' ! parent c) \<le> key (take n h' ! c)" using down(1) c by simp
  qed
  have "mset h' = mset (take n h') + mset (drop n h')"
    by (simp flip: mset_append)
  then show "mset h = add_mset (h ! 0) (mset (snd (heap_pop key h)))"
    using ms drop sndp by simp
qed

subsection \<open>The contract\<close>

text \<open>
  What a client of the heap relies on: a queue holds a multiset of entries, pushing adds one,
  popping a non-empty queue removes the entry that was in front, and no entry is before the
  front one.
\<close>

locale min_queue =
  fixes key :: "'a \<Rightarrow> 'k::linorder"
    and push :: "'a \<Rightarrow> 'q \<Rightarrow> 'q"
    and pop :: "'q \<Rightarrow> 'a \<times> 'q"
    and front :: "'q \<Rightarrow> 'a"
    and entries :: "'q \<Rightarrow> 'a multiset"
    and wf_queue :: "'q \<Rightarrow> bool"
  assumes wf_push: "wf_queue q \<Longrightarrow> wf_queue (push x q)"
    and entries_push: "wf_queue q \<Longrightarrow> entries (push x q) = add_mset x (entries q)"
    and wf_pop: "wf_queue q \<Longrightarrow> entries q \<noteq> {#} \<Longrightarrow> wf_queue (snd (pop q))"
    and pop_front: "wf_queue q \<Longrightarrow> entries q \<noteq> {#} \<Longrightarrow> fst (pop q) = front q"
    and entries_pop: "wf_queue q \<Longrightarrow> entries q \<noteq> {#} \<Longrightarrow>
      entries q = add_mset (front q) (entries (snd (pop q)))"
    and front_least: "wf_queue q \<Longrightarrow> x \<in># entries q \<Longrightarrow> key (front q) \<le> key x"
begin

lemma front_in: "wf_queue q \<Longrightarrow> entries q \<noteq> {#} \<Longrightarrow> front q \<in># entries q"
  using entries_pop [of q] by (metis union_single_eq_member)

lemma none_due: "wf_queue q \<Longrightarrow> t < key (front q) \<Longrightarrow> x \<in># entries q \<Longrightarrow> t < key x"
  by (meson front_least less_le_trans)

lemma size_pop: "wf_queue q \<Longrightarrow> entries q \<noteq> {#} \<Longrightarrow>
    size (entries (snd (pop q))) < size (entries q)"
  using entries_pop [of q] by (metis lessI size_add_mset)

lemma in_pop_iff: "wf_queue q \<Longrightarrow> entries q \<noteq> {#} \<Longrightarrow>
    x \<in># entries q \<longleftrightarrow> x = front q \<or> x \<in># entries (snd (pop q))"
  by (subst entries_pop) simp_all

end

interpretation gh: min_queue key "heap_push key" "heap_pop key" "\<lambda>h. h ! 0" mset "heap_inv key"
  for key :: "'a \<Rightarrow> 'k::linorder"
proof (unfold_locales, goal_cases)
  case (6 q x)
  then show ?case by (metis heap_root_least in_set_conv_nth set_mset_mset)
qed (simp_all add: heap_push_correct heap_pop_correct)

lemma heap_inv_Nil [simp]: "heap_inv key []"
  by (simp add: heap_inv_def)

end
