(* ===== verification/TtlStore.thy ===== *)
theory TtlStore
  imports Prelude
begin

section \<open>The contract of a store whose entries expire\<close>

text \<open>
  Two components of the library keep entries until a deadline: the cache with a time to live
  (\<^verbatim>\<open>cache/memcachettl\<close>) and the list of banned addresses (\<^verbatim>\<open>web/gin/middleware/fail2ban\<close>).
  A client of either relies on the same promise: an entry can be seen until its deadline unless
  it is removed or overwritten.  The locale \<open>ttl_store\<close> states the laws of one operation at a
  time; its lemma \<open>visible_until\<close> draws the consequence for any sequence of operations.
\<close>

text \<open>
  An insertion carries what its caller passes and reads (\<open>'i\<close>: clock readings, a time to live); \<open>Touch\<close> is any other operation of the store, such as a
  lookup that throws an expired entry away.
\<close>

datatype ('i, 'k, 'v, 'o) ttl_op =
    Insert 'i 'k 'v
  | Remove 'k
  | Sweep time
  | Touch 'o

fun op_time_ok :: "('i \<Rightarrow> time) \<Rightarrow> ('o \<Rightarrow> time \<Rightarrow> bool) \<Rightarrow> time \<Rightarrow> ('i, 'k, 'v, 'o) ttl_op \<Rightarrow> bool" where
  "op_time_ok since before t (Insert i k v) = (since i < t)"
| "op_time_ok since before t (Remove k) = True"
| "op_time_ok since before t (Sweep now) = (now < t)"
| "op_time_ok since before t (Touch x) = before x t"

fun op_touches :: "'k \<Rightarrow> ('i, 'k, 'v, 'o) ttl_op \<Rightarrow> bool" where
  "op_touches k (Insert i k' v) = (k' = k)"
| "op_touches k (Remove k') = (k' = k)"
| "op_touches k (Sweep now) = False"
| "op_touches k (Touch x) = False"

text \<open>\<open>since i\<close> is the instant at which an insertion may evict, \<open>before x t\<close> says that an operation read the clock no later than \<open>t\<close>, \<open>deadline i s\<close> the instant up to which what it stores is kept.\<close>

locale ttl_store =
  fixes live :: "time \<Rightarrow> 's \<Rightarrow> 'k \<Rightarrow> 'v option"
    and insert :: "'i \<Rightarrow> 'k \<Rightarrow> 'v \<Rightarrow> 's \<Rightarrow> 's"
    and remove :: "'k \<Rightarrow> 's \<Rightarrow> 's"
    and sweep :: "time \<Rightarrow> 's \<Rightarrow> 's"
    and touch :: "'o \<Rightarrow> 's \<Rightarrow> 's"
    and since :: "'i \<Rightarrow> time"
    and before :: "'o \<Rightarrow> time \<Rightarrow> bool"
    and deadline :: "'i \<Rightarrow> 's \<Rightarrow> time"
    and accepts :: "'i \<Rightarrow> 'k \<Rightarrow> 's \<Rightarrow> bool"
    and wf_store :: "'s \<Rightarrow> bool"
  assumes wf_insert: "wf_store s \<Longrightarrow> wf_store (insert i k v s)"
    and wf_remove: "wf_store s \<Longrightarrow> wf_store (remove k s)"
    and wf_sweep: "wf_store s \<Longrightarrow> wf_store (sweep now s)"
    and wf_touch: "wf_store s \<Longrightarrow> wf_store (touch x s)"
    and live_insert: "wf_store s \<Longrightarrow> accepts i k s \<Longrightarrow> t \<le> deadline i s \<Longrightarrow> live t (insert i k v s) k = Some v"
    and live_insert_other: "wf_store s \<Longrightarrow> since i < t \<Longrightarrow> k' \<noteq> k \<Longrightarrow> live t (insert i k v s) k' = live t s k'"
    and live_remove: "wf_store s \<Longrightarrow> live t (remove k s) k = None"
    and live_remove_other: "wf_store s \<Longrightarrow> k' \<noteq> k \<Longrightarrow> live t (remove k s) k' = live t s k'"
    and live_sweep: "wf_store s \<Longrightarrow> now < t \<Longrightarrow> live t (sweep now s) k = live t s k"
    and live_touch: "wf_store s \<Longrightarrow> before x t \<Longrightarrow> live t (touch x s) k = live t s k"
begin

fun apply_op :: "('i, 'k, 'v, 'o) ttl_op \<Rightarrow> 's \<Rightarrow> 's" where
  "apply_op (Insert i k v) s = insert i k v s"
| "apply_op (Remove k) s = remove k s"
| "apply_op (Sweep now) s = sweep now s"
| "apply_op (Touch x) s = touch x s"

lemma wf_apply_op: "wf_store s \<Longrightarrow> wf_store (apply_op x s)"
  by (cases x) (simp_all add: wf_insert wf_remove wf_sweep wf_touch)

lemma wf_run: "wf_store s \<Longrightarrow> wf_store (fold apply_op ops s)"
  by (induction ops arbitrary: s) (simp_all add: wf_apply_op)

lemma live_apply_op:
  "wf_store s \<Longrightarrow> op_time_ok since before t x \<Longrightarrow> \<not> op_touches k x \<Longrightarrow> live t (apply_op x s) k = live t s k"
  by (cases x) (simp_all add: live_insert_other live_remove_other live_sweep live_touch)

lemma live_run:
  "wf_store s \<Longrightarrow> \<forall>x \<in> set ops. op_time_ok since before t x \<and> \<not> op_touches k x \<Longrightarrow>
   live t (fold apply_op ops s) k = live t s k"
  by (induction ops arbitrary: s) (simp_all add: live_apply_op wf_apply_op)

lemma visible_until:
  assumes "wf_store s" "accepts i k s" "t \<le> deadline i s"
    and "\<forall>x \<in> set ops. op_time_ok since before t x \<and> \<not> op_touches k x"
  shows "live t (fold apply_op ops (insert i k v s)) k = Some v"
  using assms by (simp add: live_run wf_insert live_insert)

lemma gone_after_remove:
  assumes "wf_store s" and "\<forall>x \<in> set ops. op_time_ok since before t x \<and> \<not> op_touches k x"
  shows "live t (fold apply_op ops (remove k s)) k = None"
  using assms by (simp add: live_run wf_remove live_remove)

end

end
