(* ===== verification/MemCacheTTL.thy ===== *)
theory MemCacheTTL
  imports GoHeap TtlStore
begin

section \<open>The cache with a time to live\<close>

text \<open>
  \<^verbatim>\<open>cache/memcachettl/memCacheTTL.go\<close>.  The cache is a map of items and a binary heap of
  expiry entries; an entry is not removed from the heap when its item is overwritten or
  deleted, so a popped entry deletes the item only if it still describes it.  Every operation
  is one definition; the operations that read the clock take the instants they read, in the
  order in which the code calls \<^verbatim>\<open>time.Now\<close>.  \<open>Get\<close> runs in two critical sections
  (\<open>get_read\<close> under the read lock, \<open>get_recheck\<close> under the write lock), kept apart so that
  other operations can be put between them.
\<close>

subsection \<open>State\<close>

record 'v CacheItem =
  Value :: 'v
  Expiration :: time
  seq :: "64 word"

record expireItem =
  ekey :: string
  expiry :: time
  eseq :: "64 word"

record 'v Cache =
  items :: "(string, 'v CacheItem) gomap"
  expiryHeap :: "expireItem list"
  nextSeq :: "64 word"
  maxEntries :: int
  lastLog :: time

definition limitWarnInterval :: duration where
  "limitWarnInterval = 10 * 1000000000"

definition empty_cache :: "'v Cache" where
  "empty_cache = \<lparr>items = fmempty, expiryHeap = [], nextSeq = 0, maxEntries = 0, lastLog = 0\<rparr>"

subsection \<open>Operations\<close>

definition drop_if_current :: "expireItem \<Rightarrow> (string, 'v CacheItem) gomap \<Rightarrow> (string, 'v CacheItem) gomap" where
  "drop_if_current it m =
     (case fmlookup m (ekey it) of
        None \<Rightarrow> m
      | Some item \<Rightarrow>
          if seq item = eseq it \<and> Expiration item = expiry it then fmdrop (ekey it) m else m)"

lemma length_heap_pop [simp]: "h \<noteq> [] \<Longrightarrow> length (snd (heap_pop key h)) < length h"
  by (simp add: heap_pop_def Let_def min.strict_coboundedI2)

function popExpiredLocked :: "time \<Rightarrow> 'v Cache \<Rightarrow> 'v Cache" where
  "popExpiredLocked now c =
     (if expiryHeap c \<noteq> [] \<and> \<not> now < expiry (expiryHeap c ! 0)
      then let (it, h) = heap_pop expiry (expiryHeap c)
           in popExpiredLocked now (c\<lparr>expiryHeap := h, items := drop_if_current it (items c)\<rparr>)
      else c)"
  by pat_completeness auto
termination
  by (relation "measure (\<lambda>(now, c). length (expiryHeap c))") (auto, metis length_heap_pop snd_conv)

declare popExpiredLocked.simps [simp del]

definition warnLimitLocked :: "time \<Rightarrow> 'v Cache \<Rightarrow> 'v Cache" where
  "warnLimitLocked now c =
     (if limitWarnInterval \<le> now - lastLog c then c\<lparr>lastLog := now\<rparr> else c)"

text \<open>The unconditional tail of \<^verbatim>\<open>Set\<close>: store the item and push its expiry entry.\<close>

definition set_store :: "time \<Rightarrow> string \<Rightarrow> 'v \<Rightarrow> duration \<Rightarrow> 'v Cache \<Rightarrow> 'v Cache" where
  "set_store now key value ttl c =
     (let ex = now + ttl; n = nextSeq c + 1
      in c\<lparr>nextSeq := n,
           items := fmupd key \<lparr>Value = value, Expiration = ex, seq = n\<rparr> (items c),
           expiryHeap := heap_push expiry \<lparr>ekey = key, expiry = ex, eseq = n\<rparr> (expiryHeap c)\<rparr>)"

text \<open>
  \<open>Set\<close> reads the clock for the eviction (\<open>t1\<close>), then for the warning (\<open>t2\<close>) or for the
  expiry (\<open>t3\<close>).
\<close>

definition Set :: "time \<Rightarrow> time \<Rightarrow> time \<Rightarrow> string \<Rightarrow> 'v \<Rightarrow> duration \<Rightarrow> 'v Cache \<Rightarrow> 'v Cache" where
  "Set t1 t2 t3 key value ttl c =
     (if 0 < maxEntries c \<and> fmlookup (items c) key = None \<and> maxEntries c \<le> int (maplen (items c))
      then let c1 = popExpiredLocked t1 c
           in if maxEntries c1 \<le> int (maplen (items c1)) then warnLimitLocked t2 c1
              else set_store t3 key value ttl c1
      else set_store t3 key value ttl c)"

definition SetMaxEntries :: "int \<Rightarrow> 'v Cache \<Rightarrow> 'v Cache" where
  "SetMaxEntries n c = c\<lparr>maxEntries := n\<rparr>"

datatype 'v read_result = Hit 'v | Miss | Expired

definition get_read :: "time \<Rightarrow> string \<Rightarrow> 'v Cache \<Rightarrow> 'v read_result" where
  "get_read now key c =
     (case fmlookup (items c) key of
        None \<Rightarrow> Miss
      | Some item \<Rightarrow> if Expiration item < now then Expired else Hit (Value item))"

definition get_recheck :: "time \<Rightarrow> string \<Rightarrow> 'v Cache \<Rightarrow> 'v option \<times> 'v Cache" where
  "get_recheck now key c =
     (case fmlookup (items c) key of
        None \<Rightarrow> (None, c)
      | Some item \<Rightarrow>
          if Expiration item < now then (None, c\<lparr>items := fmdrop key (items c)\<rparr>)
          else (Some (Value item), c))"

definition Get :: "time \<Rightarrow> time \<Rightarrow> string \<Rightarrow> 'v Cache \<Rightarrow> 'v option \<times> 'v Cache" where
  "Get t1 t2 key c =
     (case get_read t1 key c of
        Hit v \<Rightarrow> (Some v, c)
      | Miss \<Rightarrow> (None, c)
      | Expired \<Rightarrow> get_recheck t2 key c)"

definition Delete :: "string \<Rightarrow> 'v Cache \<Rightarrow> 'v Cache" where
  "Delete key c = c\<lparr>items := fmdrop key (items c)\<rparr>"

definition CheckTTL :: "time \<Rightarrow> 'v Cache \<Rightarrow> 'v Cache" where
  "CheckTTL now c = popExpiredLocked now c"

definition Size :: "'v Cache \<Rightarrow> nat" where
  "Size c = maplen (items c)"

text \<open>
  \<open>GetAll\<close> first collects the keys (\<open>keys\<close>, in the unspecified order of a Go map) and then
  looks each one up and hands it to the callback, which may itself change the cache.  The item
  given to the callback carries the value only.  \<open>clock i\<close> are the two instants read by the
  \<open>i\<close>-th lookup.
\<close>

fun getAll_loop :: "(nat \<Rightarrow> time \<times> time) \<Rightarrow> (string \<Rightarrow> 'v CacheItem \<Rightarrow> 'v Cache \<Rightarrow> 'v Cache) \<Rightarrow>
    nat \<Rightarrow> string list \<Rightarrow> 'v Cache \<Rightarrow> 'v Cache" where
  "getAll_loop clock callback i [] c = c"
| "getAll_loop clock callback i (k # ks) c =
     (case Get (fst (clock i)) (snd (clock i)) k c of
        (Some v, c') \<Rightarrow>
          getAll_loop clock callback (Suc i) ks
            (callback k \<lparr>Value = v, Expiration = 0, seq = 0\<rparr> c')
      | (None, c') \<Rightarrow> getAll_loop clock callback (Suc i) ks c')"

definition GetAll :: "(nat \<Rightarrow> time \<times> time) \<Rightarrow> (string \<Rightarrow> 'v CacheItem \<Rightarrow> 'v Cache \<Rightarrow> 'v Cache) \<Rightarrow>
    string list \<Rightarrow> 'v Cache \<Rightarrow> 'v Cache" where
  "GetAll clock callback keys c = getAll_loop clock callback 0 keys c"

lemmas cache_defs [go_simps] =
  Set_def set_store_def SetMaxEntries_def get_read_def get_recheck_def Get_def Delete_def
  CheckTTL_def Size_def warnLimitLocked_def empty_cache_def

subsection \<open>The invariant\<close>

text \<open>The heap is ordered and every item has an entry in it that describes it.\<close>

definition entry_of :: "string \<Rightarrow> 'v CacheItem \<Rightarrow> expireItem" where
  "entry_of k item = \<lparr>ekey = k, expiry = Expiration item, eseq = seq item\<rparr>"

definition cache_inv :: "'v Cache \<Rightarrow> bool" where
  "cache_inv c \<longleftrightarrow> heap_inv expiry (expiryHeap c) \<and>
     (\<forall>k item. fmlookup (items c) k = Some item \<longrightarrow> entry_of k item \<in> set (expiryHeap c))"

lemma cache_inv_heap: "cache_inv c \<Longrightarrow> heap_inv expiry (expiryHeap c)"
  by (simp add: cache_inv_def)

lemma cache_invD: "cache_inv c \<Longrightarrow> fmlookup (items c) k = Some item \<Longrightarrow> entry_of k item \<in> set (expiryHeap c)"
  by (simp add: cache_inv_def)

lemma cache_inv_empty [inv_intros]: "cache_inv empty_cache"
  by (simp add: cache_inv_def empty_cache_def)

lemma cache_inv_drop [inv_intros]: "cache_inv c \<Longrightarrow> cache_inv (c\<lparr>items := fmdrop k (items c)\<rparr>)"
  by (auto simp: cache_inv_def split: if_splits)

lemma cache_inv_irrelevant [simp]:
  "cache_inv (c\<lparr>lastLog := t\<rparr>) = cache_inv c" "cache_inv (c\<lparr>maxEntries := n\<rparr>) = cache_inv c"
  by (simp_all add: cache_inv_def)

lemma cache_inv_warn [inv_intros]: "cache_inv c \<Longrightarrow> cache_inv (warnLimitLocked now c)"
  by (simp add: warnLimitLocked_def)

lemma cache_inv_set_store [inv_intros]: "cache_inv c \<Longrightarrow> cache_inv (set_store now k v ttl c)"
proof -
  assume inv: "cache_inv c"
  let ?e = "\<lparr>ekey = k, expiry = now + ttl, eseq = nextSeq c + 1\<rparr>"
  have "set (heap_push expiry ?e (expiryHeap c)) = insert ?e (set (expiryHeap c))"
    using gh.entries_push [OF cache_inv_heap [OF inv], of ?e] by (metis set_mset_add_mset_insert set_mset_mset)
  with inv show ?thesis
    by (auto simp: cache_inv_def set_store_def Let_def heap_push_correct entry_of_def)
qed

lemma drop_if_current_lookup:
  "fmlookup (drop_if_current it m) k =
     (case fmlookup m k of
        None \<Rightarrow> None
      | Some item \<Rightarrow> if entry_of k item = it then None else Some item)"
proof (cases "fmlookup m (ekey it)")
  case None
  then show ?thesis by (auto simp: drop_if_current_def entry_of_def split: option.split)
next
  case (Some a)
  then show ?thesis
    by (cases it) (auto simp: drop_if_current_def entry_of_def split: option.split)
qed

text \<open>One round of the eviction loop keeps the invariant.\<close>

lemma cache_inv_pop:
  assumes inv: "cache_inv c" and ne: "expiryHeap c \<noteq> []"
    and pop: "heap_pop expiry (expiryHeap c) = (it, h)"
  shows "cache_inv (c\<lparr>expiryHeap := h, items := drop_if_current it (items c)\<rparr>)"
    and "it = expiryHeap c ! 0"
proof -
  note wf = cache_inv_heap [OF inv]
  have ne': "mset (expiryHeap c) \<noteq> {#}" using ne by simp
  show it: "it = expiryHeap c ! 0" using gh.pop_front [OF wf ne'] pop by simp
  have mem: "x \<in> set (expiryHeap c) \<longleftrightarrow> x = it \<or> x \<in> set h" for x
    using gh.in_pop_iff [OF wf ne', of x] pop it by simp
  have "heap_inv expiry h" using gh.wf_pop [OF wf ne'] pop by simp
  moreover have "entry_of k item \<in> set h"
    if "fmlookup (drop_if_current it (items c)) k = Some item" for k item
    using that cache_invD [OF inv, of k item] mem
    by (auto simp: drop_if_current_lookup split: option.splits if_splits)
  ultimately show "cache_inv (c\<lparr>expiryHeap := h, items := drop_if_current it (items c)\<rparr>)"
    by (simp add: cache_inv_def)
qed

subsection \<open>What eviction does\<close>

abbreviation due :: "time \<Rightarrow> 'v CacheItem \<Rightarrow> bool" where
  "due now item \<equiv> Expiration item \<le> now"

lemma delete_due_drop_if_current:
  "expiry it \<le> now \<Longrightarrow> delete_if (due now) (drop_if_current it m) = delete_if (due now) m"
  by (rule fmap_ext) (auto simp: drop_if_current_lookup entry_of_def split: option.splits)

lemma delete_due_none:
  assumes "cache_inv c" and "\<forall>e \<in> set (expiryHeap c). now < expiry e"
  shows "delete_if (due now) (items c) = items c"
proof (rule fmap_ext)
  fix k
  have "\<not> due now item" if "fmlookup (items c) k = Some item" for item
    using assms(2) cache_invD [OF assms(1) that] by (auto simp: entry_of_def)
  then show "fmlookup (delete_if (due now) (items c)) k = fmlookup (items c) k"
    by (auto split: option.split)
qed

text \<open>
  The loop removes exactly the due items, leaves no due entry in the heap and changes nothing
  else.
\<close>

lemma popExpiredLocked_spec:
  "cache_inv c \<Longrightarrow>
     cache_inv (popExpiredLocked now c) \<and>
     items (popExpiredLocked now c) = delete_if (due now) (items c) \<and>
     (\<forall>e \<in> set (expiryHeap (popExpiredLocked now c)). now < expiry e) \<and>
     maxEntries (popExpiredLocked now c) = maxEntries c"
proof (induction now c rule: popExpiredLocked.induct)
  case (1 now c)
  show ?case
  proof (cases "expiryHeap c \<noteq> [] \<and> \<not> now < expiry (expiryHeap c ! 0)")
    case True
    obtain it h where pop: "heap_pop expiry (expiryHeap c) = (it, h)" by fastforce
    let ?c1 = "c\<lparr>expiryHeap := h, items := drop_if_current it (items c)\<rparr>"
    note step = cache_inv_pop [OF 1(2) conjunct1 [OF True] pop]
    have "popExpiredLocked now c = popExpiredLocked now ?c1"
      using True pop by (subst popExpiredLocked.simps) simp
    moreover note 1(1) [OF True pop [symmetric] refl step(1)]
    moreover have "expiry it \<le> now" using True step(2) by simp
    ultimately show ?thesis by (simp add: delete_due_drop_if_current)
  next
    case False
    have "\<forall>e \<in> set (expiryHeap c). now < expiry e"
      using False gh.none_due [OF cache_inv_heap [OF 1(2)]] by fastforce
    moreover have "popExpiredLocked now c = c" using False by (subst popExpiredLocked.simps) auto
    ultimately show ?thesis using 1(2) delete_due_none [OF 1(2)] by auto
  qed
qed

lemma popExpiredLocked_inv [inv_intros]: "cache_inv c \<Longrightarrow> cache_inv (popExpiredLocked now c)"
  and popExpiredLocked_items:
    "cache_inv c \<Longrightarrow> items (popExpiredLocked now c) = delete_if (due now) (items c)"
  and popExpiredLocked_max: "cache_inv c \<Longrightarrow> maxEntries (popExpiredLocked now c) = maxEntries c"
  using popExpiredLocked_spec by blast+

lemmas pop_facts = popExpiredLocked_inv popExpiredLocked_items popExpiredLocked_max

subsection \<open>Preservation of the invariant\<close>

lemma Set_inv [inv_intros]: "cache_inv c \<Longrightarrow> cache_inv (Set t1 t2 t3 k v ttl c)"
  by (simp add: Set_def Let_def inv_intros)

lemma get_recheck_inv [inv_intros]: "cache_inv c \<Longrightarrow> cache_inv (snd (get_recheck now k c))"
  by (simp add: get_recheck_def inv_intros split: option.split)

lemma Get_inv [inv_intros]: "cache_inv c \<Longrightarrow> cache_inv (snd (Get t1 t2 k c))"
  by (simp add: Get_def inv_intros split: read_result.split)

lemma Delete_inv [inv_intros]: "cache_inv c \<Longrightarrow> cache_inv (Delete k c)"
  by (simp add: Delete_def inv_intros)

lemma CheckTTL_inv [inv_intros]: "cache_inv c \<Longrightarrow> cache_inv (CheckTTL now c)"
  by (simp add: CheckTTL_def inv_intros)

lemma SetMaxEntries_inv [inv_intros]: "cache_inv c \<Longrightarrow> cache_inv (SetMaxEntries n c)"
  by (simp add: SetMaxEntries_def)

lemma getAll_loop_inv:
  assumes "\<And>k item c. cache_inv c \<Longrightarrow> cache_inv (callback k item c)"
  shows "cache_inv c \<Longrightarrow> cache_inv (getAll_loop clock callback i ks c)"
proof (induction ks arbitrary: i c)
  case (Cons k ks)
  have "cache_inv (snd (Get (fst (clock i)) (snd (clock i)) k c))"
    using Cons.prems by (rule Get_inv)
  then show ?case using Cons.IH assms by (auto split: prod.split option.split)
qed simp

text \<open>The states a cache can reach: any sequence of its operations from the empty cache.\<close>

inductive cache_reachable :: "'v Cache \<Rightarrow> bool" where
  New: "cache_reachable empty_cache"
| SetR: "cache_reachable c \<Longrightarrow> cache_reachable (Set t1 t2 t3 k v ttl c)"
| SetMaxEntriesR: "cache_reachable c \<Longrightarrow> cache_reachable (SetMaxEntries n c)"
| GetR: "cache_reachable c \<Longrightarrow> cache_reachable (snd (Get t1 t2 k c))"
| RecheckR: "cache_reachable c \<Longrightarrow> cache_reachable (snd (get_recheck t k c))"
| DeleteR: "cache_reachable c \<Longrightarrow> cache_reachable (Delete k c)"
| ReapR: "cache_reachable c \<Longrightarrow> cache_reachable (popExpiredLocked now c)"

lemma reachable_cache_inv: "cache_reachable c \<Longrightarrow> cache_inv c"
  by (induction rule: cache_reachable.induct) (simp_all add: inv_intros)

subsection \<open>Lookups\<close>

text \<open>What a lookup at instant \<open>t\<close> sees.\<close>

definition live :: "time \<Rightarrow> 'v Cache \<Rightarrow> string \<Rightarrow> 'v option" where
  "live t c k =
     (case fmlookup (items c) k of
        None \<Rightarrow> None
      | Some item \<Rightarrow> if t \<le> Expiration item then Some (Value item) else None)"

lemma Get_live: "t1 \<le> t2 \<Longrightarrow> fst (Get t1 t2 k c) = live t1 c k"
  by (auto simp: Get_def get_read_def get_recheck_def live_def split: option.split)

lemma live_drop: "live t (c\<lparr>items := fmdrop k (items c)\<rparr>) k' = (if k' = k then None else live t c k')"
  by (simp add: live_def)

lemma live_Delete: "live t (Delete k c) k' = (if k' = k then None else live t c k')"
  by (simp add: Delete_def live_drop)

lemma live_pop: "cache_inv c \<Longrightarrow> now < t \<Longrightarrow> live t (popExpiredLocked now c) k = live t c k"
  by (auto simp: live_def popExpiredLocked_items split: option.split)

lemma live_set_store:
  "live t (set_store now k v ttl c) k' =
     (if k' = k then (if t \<le> now + ttl then Some v else None) else live t c k')"
  by (simp add: live_def set_store_def Let_def)

lemma live_warn: "live t (warnLimitLocked now c) k = live t c k"
  by (simp add: live_def warnLimitLocked_def)

text \<open>\<open>Set\<close> stores the value unless the cache is full of items that are not due.\<close>

definition has_room :: "time \<Rightarrow> string \<Rightarrow> 'v Cache \<Rightarrow> bool" where
  "has_room now k c \<longleftrightarrow> maxEntries c \<le> 0 \<or> fmlookup (items c) k \<noteq> None \<or>
     int (maplen (delete_if (due now) (items c))) < maxEntries c"

lemma Set_cases:
  assumes "cache_inv c"
  obtains (plain) "Set t1 t2 t3 k v ttl c = set_store t3 k v ttl c" "has_room t1 k c"
  | (evict) "Set t1 t2 t3 k v ttl c = set_store t3 k v ttl (popExpiredLocked t1 c)" "has_room t1 k c"
  | (full) "Set t1 t2 t3 k v ttl c = warnLimitLocked t2 (popExpiredLocked t1 c)" "\<not> has_room t1 k c"
proof -
  let ?n = "int (maplen (items c))" and ?n' = "int (maplen (delete_if (due t1) (items c)))"
  have le: "?n' \<le> ?n" using maplen_delete_if_le by simp
  let ?tight = "0 < maxEntries c \<and> fmlookup (items c) k = None \<and> maxEntries c \<le> ?n"
  consider "\<not> ?tight" | "?tight" "maxEntries c \<le> ?n'" | "?tight" "\<not> maxEntries c \<le> ?n'"
    by blast
  then show ?thesis
  proof cases
    case 1
    then have "has_room t1 k c" using le by (auto simp: has_room_def)
    with 1 show ?thesis by (intro plain) (auto simp: Set_def)
  next
    case 2
    then have "\<not> has_room t1 k c" by (auto simp: has_room_def)
    with 2 show ?thesis by (intro full) (simp_all add: Set_def Let_def pop_facts(2,3) [OF assms])
  next
    case 3
    then have "has_room t1 k c" by (auto simp: has_room_def)
    with 3 show ?thesis by (intro evict) (simp_all add: Set_def Let_def pop_facts(2,3) [OF assms])
  qed
qed

lemma live_Set_other:
  assumes "cache_inv c" "t1 < t" "k' \<noteq> k"
  shows "live t (Set t1 t2 t3 k v ttl c) k' = live t c k'"
  by (rule Set_cases [OF assms(1), of t1 t2 t3 k v ttl])
     (use assms in \<open>simp_all add: live_set_store live_warn live_pop\<close>)

lemma live_Set:
  assumes "cache_inv c" "has_room t1 k c"
  shows "live t (Set t1 t2 t3 k v ttl c) k = (if t \<le> t3 + ttl then Some v else None)"
  by (rule Set_cases [OF assms(1), of t1 t2 t3 k v ttl])
     (use assms in \<open>simp_all add: live_set_store\<close>)

lemma live_recheck: "now \<le> t \<Longrightarrow> live t (snd (get_recheck now k c)) k' = live t c k'"
  by (auto simp: get_recheck_def live_def split: option.split)

lemma live_Get: "t2 \<le> t \<Longrightarrow> live t (snd (Get t1 t2 k c)) k' = live t c k'"
  by (auto simp: Get_def live_recheck split: read_result.split)

text \<open>A store is a call of \<open>Set\<close> with its three clock readings and its own time to live; the other operations of the cache are lookups, their second
  section alone, and changes of the limit.\<close>

record set_call =
  evictAt :: time
  warnAt :: time
  storeAt :: time
  ttlOf :: duration

definition set_by :: "set_call \<Rightarrow> string \<Rightarrow> 'v \<Rightarrow> 'v Cache \<Rightarrow> 'v Cache" where
  "set_by i k v c = Set (evictAt i) (warnAt i) (storeAt i) k v (ttlOf i) c"

datatype read_op = DoGet time time string | DoRecheck time string | DoLimit int

fun read_by :: "read_op \<Rightarrow> 'v Cache \<Rightarrow> 'v Cache" where
  "read_by (DoGet t1 t2 k) c = snd (Get t1 t2 k c)"
| "read_by (DoRecheck t k) c = snd (get_recheck t k c)"
| "read_by (DoLimit n) c = SetMaxEntries n c"

fun read_before :: "read_op \<Rightarrow> time \<Rightarrow> bool" where
  "read_before (DoGet t1 t2 k) t = (t2 \<le> t)"
| "read_before (DoRecheck now k) t = (now \<le> t)"
| "read_before (DoLimit n) t = True"

interpretation ttlc: ttl_store live set_by Delete popExpiredLocked read_by evictAt read_before "\<lambda>i _. storeAt i + ttlOf i"
    "\<lambda>i. has_room (evictAt i)" cache_inv
proof unfold_locales
  fix c :: "'v Cache" and x
  assume "cache_inv c"
  then show "cache_inv (read_by x c)" by (cases x) (simp_all add: inv_intros)
next
  fix c :: "'v Cache" and x t k
  assume "read_before x t"
  then show "live t (read_by x c) k = live t c k" by (cases x) (simp_all add: live_Get live_recheck, simp add: live_def SetMaxEntries_def)
qed (simp_all add: set_by_def inv_intros live_Set live_Set_other live_Delete live_pop)

subsection \<open>The reaper goroutine: Start and Stop\<close>

text \<open>
  \<^verbatim>\<open>Start\<close> makes a channel and launches \<^verbatim>\<open>reap\<close> on it; \<^verbatim>\<open>Stop\<close> forgets the channel under the lock,
  closes it after the unlock and waits for the wait group.  A channel is a number;
  \<open>running\<close> lists the channels the live \<^verbatim>\<open>reap\<close> goroutines watch (the wait-group counter is
  its length), \<open>closing\<close> the channels a \<^verbatim>\<open>Stop\<close> has taken but not yet closed and \<open>closed\<close> the
  closed ones.  Between the steps of one call the steps of any other may run.
\<close>

record reaper =
  doneCh :: "nat option"
  stopped :: bool
  nextCh :: nat
  running :: "nat list"
  closing :: "nat list"
  closed :: "nat list"

definition new_reaper :: reaper where
  "new_reaper = \<lparr>doneCh = None, stopped = False, nextCh = 0, running = [], closing = [], closed = []\<rparr>"

definition Start :: "reaper \<Rightarrow> reaper" where
  "Start r =
     (if doneCh r \<noteq> None then r
      else r\<lparr>doneCh := Some (nextCh r), stopped := False, nextCh := Suc (nextCh r),
             running := nextCh r # running r\<rparr>)"

text \<open>The critical section of \<^verbatim>\<open>Stop\<close>; then \<^verbatim>\<open>close(done)\<close>, on the oldest channel taken.\<close>

definition Stop_locked :: "reaper \<Rightarrow> reaper" where
  "Stop_locked r =
     (if stopped r then r
      else r\<lparr>stopped := True, doneCh := None,
             closing := closing r @ (case doneCh r of None \<Rightarrow> [] | Some ch \<Rightarrow> [ch])\<rparr>)"

definition Stop_close :: "nat \<Rightarrow> reaper \<Rightarrow> reaper" where
  "Stop_close ch r = r\<lparr>closing := remove1 ch (closing r), closed := ch # closed r\<rparr>"

text \<open>\<^verbatim>\<open>case <-done: return\<close> of \<^verbatim>\<open>reap\<close>, with its deferred \<^verbatim>\<open>wg.Done()\<close>.\<close>

definition reap_exit :: "nat \<Rightarrow> reaper \<Rightarrow> reaper" where
  "reap_exit ch r = r\<lparr>running := remove1 ch (running r)\<rparr>"

inductive reaper_step :: "reaper \<Rightarrow> reaper \<Rightarrow> bool" where
  start: "reaper_step r (Start r)"
| stop: "reaper_step r (Stop_locked r)"
| close: "ch \<in> set (closing r) \<Longrightarrow> reaper_step r (Stop_close ch r)"
| exit: "ch \<in> set (running r) \<Longrightarrow> ch \<in> set (closed r) \<Longrightarrow> reaper_step r (reap_exit ch r)"

inductive reaper_reachable :: "reaper \<Rightarrow> bool" where
  init: "reaper_reachable new_reaper"
| step: "reaper_reachable r \<Longrightarrow> reaper_step r r' \<Longrightarrow> reaper_reachable r'"

definition reaper_inv :: "reaper \<Rightarrow> bool" where
  "reaper_inv r \<longleftrightarrow> distinct (running r) \<and> distinct (closing r @ closed r) \<and>
     (\<forall>ch \<in> set (running r) \<union> set (closing r) \<union> set (closed r) \<union> set_option (doneCh r). ch < nextCh r) \<and>
     (\<forall>ch \<in> set (running r). ch \<in> set (closing r) \<union> set (closed r) \<or> doneCh r = Some ch) \<and>
     (\<forall>ch. doneCh r = Some ch \<longrightarrow> ch \<in> set (running r) - set (closing r) - set (closed r))"

lemma Start_inv: "reaper_inv r \<Longrightarrow> reaper_inv (Start r)"
  unfolding reaper_inv_def Start_def by (auto simp: less_Suc_eq)

lemma Stop_locked_inv: "reaper_inv r \<Longrightarrow> reaper_inv (Stop_locked r)"
  unfolding reaper_inv_def Stop_locked_def by (cases "doneCh r") auto

lemma Stop_close_inv: "reaper_inv r \<Longrightarrow> ch \<in> set (closing r) \<Longrightarrow> reaper_inv (Stop_close ch r)"
  unfolding reaper_inv_def Stop_close_def by auto

lemma reap_exit_inv:
  "reaper_inv r \<Longrightarrow> ch \<in> set (closed r) \<Longrightarrow> reaper_inv (reap_exit ch r)"
  unfolding reaper_inv_def reap_exit_def by auto

lemma reaper_step_inv: "reaper_step r r' \<Longrightarrow> reaper_inv r \<Longrightarrow> reaper_inv r'"
  by (cases rule: reaper_step.cases)
     (auto intro: Start_inv Stop_locked_inv Stop_close_inv reap_exit_inv)

lemma reachable_reaper_inv: "reaper_reachable r \<Longrightarrow> reaper_inv r"
proof (induction rule: reaper_reachable.induct)
  case init
  show ?case by (simp add: reaper_inv_def new_reaper_def)
next
  case (step r r')
  then show ?case by (blast intro: reaper_step_inv)
qed

text \<open>All goroutines whose channel is closed can leave, which brings the wait group to zero.\<close>

lemma drain_running:
  assumes "set (running r) \<subseteq> set (closed r)"
  shows "\<exists>r'. reaper_step\<^sup>*\<^sup>* r r' \<and> running r' = []"
  using assms
proof (induction "running r" arbitrary: r)
  case Nil
  then show ?case by (metis rtranclp.rtrancl_refl)
next
  case (Cons ch chs)
  then have "reaper_step r (reap_exit ch r)" by (intro reaper_step.exit) (auto simp flip: Cons.hyps(2))
  moreover have "running (reap_exit ch r) = chs"
    by (simp add: reap_exit_def flip: Cons.hyps(2))
  moreover have "set (running (reap_exit ch r)) \<subseteq> set (closed (reap_exit ch r))"
    using Cons.prems calculation(2) by (simp add: reap_exit_def flip: Cons.hyps(2))
  ultimately show ?case
    using Cons.hyps(1) [of "reap_exit ch r"] by (meson converse_rtranclp_into_rtranclp)
qed

subsection \<open>Properties\<close>

text \<open>
  C14: In every state a cache can reach by its operations (including the reaper's), one run of
  \<^verbatim>\<open>popExpiredLocked\<close> at instant \<open>now\<close> removes exactly the items whose expiration is not after
  \<open>now\<close>, keeps every other item unchanged, and leaves no due entry in the heap, although
  overwriting and deleting items leaves stale entries there.
\<close>

theorem popExpired_exact:
  assumes "cache_reachable c"
  shows "items (popExpiredLocked now c) = delete_if (\<lambda>item. Expiration item \<le> now) (items c) \<and>
    (\<forall>e \<in> set (expiryHeap (popExpiredLocked now c)). now < expiry e)"
  using popExpiredLocked_spec [OF reachable_cache_inv [OF assms]] by blast

theorem popExpired_exact_witness:
  "items (popExpiredLocked 7 (Set 0 0 0 ''a'' (1::int) 5 empty_cache)) =
     delete_if (\<lambda>item. Expiration item \<le> 7) (items (Set 0 0 0 ''a'' (1::int) 5 empty_cache))"
  by (rule conjunct1 [OF popExpired_exact]) (intro cache_reachable.intros)

text \<open>
  A cache with a positive entry limit that is within the limit stays within it after \<^verbatim>\<open>Set\<close>,
  whatever is stored: a new key is refused when every item is still alive.
\<close>

theorem Set_capacity:
  assumes "cache_reachable c" "0 < maxEntries c" "int (Size c) \<le> maxEntries c"
  shows "int (Size (Set t1 t2 t3 k v ttl c)) \<le> maxEntries (Set t1 t2 t3 k v ttl c)"
proof -
  note inv = reachable_cache_inv [OF assms(1)]
  have pop: "maplen (items (popExpiredLocked t1 c)) \<le> maplen (items c)"
    by (simp add: popExpiredLocked_items [OF inv] maplen_delete_if_le)
  consider "fmlookup (items c) k = None" "maxEntries c \<le> int (Size c)"
    | "fmlookup (items c) k \<noteq> None" | "int (Size c) < maxEntries c" by linarith
  then show ?thesis
    using assms(2,3) pop
    by cases (auto simp: Set_def Let_def Size_def set_store_def warnLimitLocked_def maplen_fmupd
        popExpiredLocked_max [OF inv])
qed

theorem Set_capacity_witness:
  "int (Size (Set 0 0 0 ''b'' (2::int) 5 (SetMaxEntries 1 (Set 0 0 0 ''a'' 1 5 empty_cache)))) \<le>
   maxEntries (Set 0 0 0 ''b'' (2::int) 5 (SetMaxEntries 1 (Set 0 0 0 ''a'' 1 5 empty_cache)))"
  by (rule Set_capacity, intro cache_reachable.intros)
     (simp_all add: cache_defs Let_def maplen_fmupd)

text \<open>
  \<^verbatim>\<open>Get\<close> on every branch.  It returns the stored value iff the key is present and not expired
  at the first clock reading; when it is expired the key is deleted under the write lock, and in
  every other case the cache is unchanged.
\<close>

theorem Get_correct:
  assumes "t1 \<le> t2"
  shows "Get t1 t2 k c =
    (case fmlookup (items c) k of
       None \<Rightarrow> (None, c)
     | Some item \<Rightarrow>
         if t1 \<le> Expiration item then (Some (Value item), c) else (None, Delete k c))"
  using assms by (auto simp: Get_def get_read_def get_recheck_def Delete_def split: option.split)

theorem Get_correct_witness:
  "(0::int) \<le> 1 \<and> Get 0 1 ''a'' (Set 0 0 0 ''a'' (7::int) 5 empty_cache) =
     (Some 7, Set 0 0 0 ''a'' (7::int) 5 empty_cache)"
  using Get_correct [of 0 1 "''a''" "Set 0 0 0 ''a'' (7::int) 5 empty_cache"]
  by (simp add: cache_defs Let_def)

text \<open>One operation of a caller, or of the reaper, on the cache.\<close>

fun cache_op :: "(set_call, string, 'v, read_op) ttl_op \<Rightarrow> 'v Cache \<Rightarrow> 'v Cache" where
  "cache_op (Insert i k v) c = Set (evictAt i) (warnAt i) (storeAt i) k v (ttlOf i) c"
| "cache_op (Remove k) c = Delete k c"
| "cache_op (Sweep now) c = popExpiredLocked now c"
| "cache_op (Touch x) c = read_by x c"

lemma cache_op_apply: "cache_op = ttlc.apply_op"
proof (intro ext)
  fix x :: "(set_call, string, 'v, read_op) ttl_op" and c
  show "cache_op x c = ttlc.apply_op x c" by (cases x) (simp_all add: set_by_def)
qed

text \<open>
  C1: A value stored when there is room is returned by \<^verbatim>\<open>Get\<close> at every instant \<open>t\<close> up to its expiration, whatever sequence of operations ran in between:
  stores of other keys with any times to live and any clock readings, deletes of other keys, lookups of any keys, changes of the limit, and
  evictions.  The evictions, by the reaper or at the head of a store, must have read the clock before \<open>t\<close>, and the lookups not after it.
\<close>

theorem Set_then_Get:
  assumes "cache_reachable c" "has_room t1 k c" "t \<le> t3 + ttl" "t \<le> t'"
    and "\<forall>x \<in> set ops. op_time_ok evictAt read_before t x \<and> \<not> op_touches k x"
  shows "fst (Get t t' k (fold cache_op ops (Set t1 t2 t3 k v ttl c))) = Some v"
  using ttlc.visible_until [OF reachable_cache_inv [OF assms(1)], of "\<lparr>evictAt = t1, warnAt = t2, storeAt = t3, ttlOf = ttl\<rparr>" k t ops v] assms(2-5)
  by (simp add: Get_live cache_op_apply set_by_def)

theorem Set_then_Get_witness:
  "fst (Get 4 4 ''a'' (fold cache_op
      [Insert \<lparr>evictAt = 1, warnAt = 1, storeAt = 1, ttlOf = 1\<rparr> ''b'' 2, Insert \<lparr>evictAt = 1, warnAt = 1, storeAt = 2, ttlOf = 9\<rparr> ''c'' 3,
       Sweep 3, Touch (DoGet 3 3 ''b''), Remove ''c'', Touch (DoLimit 1)]
      (Set 0 0 0 ''a'' (7::int) 5 empty_cache))) = Some 7"
  by (rule Set_then_Get, intro cache_reachable.intros) (simp_all add: has_room_def empty_cache_def)

text \<open>
  C27: For every interleaving of the critical sections of \<^verbatim>\<open>Start\<close> and \<^verbatim>\<open>Stop\<close> with the closing of
  channels and the exits of the goroutines: no channel is closed twice (which would panic), at
  most one \<^verbatim>\<open>reap\<close> goroutine has not been told to stop, and once the cache is stopped and no close
  is pending, the goroutines can all leave, so that the \<^verbatim>\<open>wg.Wait\<close> of \<^verbatim>\<open>Stop\<close> returns.
\<close>

theorem reaper_lifecycle:
  assumes "reaper_reachable r"
  shows "set (closing r) \<inter> set (closed r) = {} \<and> distinct (closing r) \<and>
    card (set (running r) - set (closing r) - set (closed r)) \<le> 1 \<and>
    (doneCh r = None \<and> closing r = [] \<longrightarrow> (\<exists>r'. reaper_step\<^sup>*\<^sup>* r r' \<and> running r' = []))"
proof -
  note inv = reachable_reaper_inv [OF assms]
  have "set (running r) - set (closing r) - set (closed r) \<subseteq> set_option (doneCh r)"
    using inv by (auto simp: reaper_inv_def)
  then have "card (set (running r) - set (closing r) - set (closed r)) \<le> card (set_option (doneCh r))"
    by (rule card_mono [rotated]) (cases "doneCh r"; simp)
  also have "\<dots> \<le> 1" by (cases "doneCh r") simp_all
  finally have one: "card (set (running r) - set (closing r) - set (closed r)) \<le> 1" .
  have "\<exists>r'. reaper_step\<^sup>*\<^sup>* r r' \<and> running r' = []" if "doneCh r = None" "closing r = []"
    using inv that by (intro drain_running) (auto simp: reaper_inv_def)
  with one inv show ?thesis by (auto simp: reaper_inv_def)
qed

theorem reaper_lifecycle_witness:
  "card (set (running (Start new_reaper)) - set (closing (Start new_reaper)) -
     set (closed (Start new_reaper))) \<le> 1"
  using reaper_lifecycle [OF reaper_reachable.step [OF reaper_reachable.init reaper_step.start]]
  by blast

subsection \<open>The reaper's loop\<close>

text \<open>What the \<^verbatim>\<open>select\<close> of \<^verbatim>\<open>reap\<close> takes: a tick at an instant, or the closed channel.  The second result says whether the loop has returned.\<close>

datatype reap_event = TickAt time | DoneClosed

fun reap :: "reap_event list \<Rightarrow> 'v Cache \<Rightarrow> 'v Cache \<times> bool" where
  "reap [] c = (c, False)"
| "reap (DoneClosed # es) c = (c, True)"
| "reap (TickAt now # es) c = reap es (popExpiredLocked now c)"

text \<open>However many ticks it handles, the reaper returns once the channel is closed, and it removes exactly what was due at its last tick or an earlier one.\<close>

lemma reap_items:
  assumes "cache_inv c"
  shows "snd (reap (map TickAt ts @ DoneClosed # es) c) \<and>
     items (fst (reap (map TickAt ts @ es') c)) = items (fst (reap es' (fold popExpiredLocked ts c))) \<and>
     items (fold popExpiredLocked ts c) = delete_if (\<lambda>item. \<exists>t \<in> set ts. Expiration item \<le> t) (items c) \<and>
     cache_inv (fold popExpiredLocked ts c)"
  using assms
proof (induction ts arbitrary: c)
  case Nil
  then show ?case by (auto intro!: fmap_ext split: option.split)
next
  case (Cons t ts)
  from Cons.IH [OF popExpiredLocked_inv [OF Cons.prems]] show ?case
    by (auto simp: popExpiredLocked_items [OF Cons.prems] intro!: fmap_ext split: option.split if_splits)
qed

end
