(* ===== verification/Fail2Ban.thy ===== *)
theory Fail2Ban
  imports TtlStore
begin

section \<open>The fail2ban middleware\<close>

text \<open>
  \<^verbatim>\<open>web/gin/middleware/fail2ban\<close>: the addresses under watch (\<open>Suspected\<close>), the banned addresses
  (\<open>Suspended\<close>) and the handler that joins them.  The definitions take the instants the code
  reads from the clock, in its order; \<^verbatim>\<open>time.Since(x)\<close> is a reading minus \<open>x\<close>.  The rest of the
  handler chain, run by \<^verbatim>\<open>c.Next()\<close>, is represented by the status it leaves in the response.
\<close>

subsection \<open>State\<close>

record SuspectedItem =
  Count :: int
  WatchTime :: time

record Suspected =
  sp_items :: "(string, SuspectedItem) gomap"
  sp_lastSweep :: time
  sp_watchPeriod :: duration

record Suspended =
  sd_items :: "(string, time) gomap"
  banPeriod :: duration
  sd_lastSweep :: time

record ConfigFail2Ban =
  Disabled :: bool
  cfg_LogBannedPath :: bool
  WatchPeriod :: duration
  WatchCount :: int
  BanPeriod :: duration

record Fail2Ban =
  suspected :: Suspected
  suspended :: Suspended
  watchPeriod :: duration
  watchCnt :: int
  LogBannedPath :: bool

definition suspectedEvictThreshold :: nat where
  "suspectedEvictThreshold = 1024"

definition evictSweepInterval :: duration where
  "evictSweepInterval = 30 * 1000000000"

subsection \<open>Suspected addresses\<close>

definition TooLate :: "time \<Rightarrow> SuspectedItem \<Rightarrow> bool" where
  "TooLate now si \<longleftrightarrow> WatchTime si < now"

definition NewSuspected :: "duration \<Rightarrow> Suspected" where
  "NewSuspected wp = \<lparr>sp_items = fmempty, sp_lastSweep = 0, sp_watchPeriod = wp\<rparr>"

text \<open>The sweep at the head of \<^verbatim>\<open>Incr\<close>; \<open>t\<close> is the reading inside \<^verbatim>\<open>time.Since\<close>.\<close>

definition sp_sweep :: "time \<Rightarrow> time \<Rightarrow> Suspected \<Rightarrow> Suspected" where
  "sp_sweep now t s =
     (if suspectedEvictThreshold < maplen (sp_items s) \<and> evictSweepInterval < t - sp_lastSweep s
      then s\<lparr>sp_items := delete_if (\<lambda>item. WatchTime item < now) (sp_items s), sp_lastSweep := now\<rparr>
      else s)"

definition Incr :: "time \<Rightarrow> time \<Rightarrow> string \<Rightarrow> Suspected \<Rightarrow> int \<times> Suspected" where
  "Incr now t ip s0 =
     (let s = sp_sweep now t s0
      in case fmlookup (sp_items s) ip of
           None \<Rightarrow>
             (1, s\<lparr>sp_items := fmupd ip \<lparr>Count = 1, WatchTime = now + sp_watchPeriod s\<rparr> (sp_items s)\<rparr>)
         | Some item \<Rightarrow>
             if WatchTime item < now then (0, s\<lparr>sp_items := fmdrop ip (sp_items s)\<rparr>)
             else (Count item + 1,
                   s\<lparr>sp_items := fmupd ip (item\<lparr>Count := Count item + 1\<rparr>) (sp_items s)\<rparr>))"

definition Del :: "string \<Rightarrow> Suspected \<Rightarrow> Suspected" where
  "Del ip s = s\<lparr>sp_items := fmdrop ip (sp_items s)\<rparr>"

subsection \<open>Suspended addresses\<close>

definition NewSuspended :: "duration \<Rightarrow> Suspended" where
  "NewSuspended period = \<lparr>sd_items = fmempty, banPeriod = period, sd_lastSweep = 0\<rparr>"

definition Add :: "time \<Rightarrow> string \<Rightarrow> Suspended \<Rightarrow> Suspended" where
  "Add now ip s = s\<lparr>sd_items := fmupd ip (now + banPeriod s) (sd_items s)\<rparr>"

definition sd_sweep_all :: "time \<Rightarrow> Suspended \<Rightarrow> Suspended" where
  "sd_sweep_all now s =
     s\<lparr>sd_items := delete_if (\<lambda>t. t < now) (sd_items s), sd_lastSweep := now\<rparr>"

definition sd_sweep :: "time \<Rightarrow> time \<Rightarrow> Suspended \<Rightarrow> Suspended" where
  "sd_sweep now t s =
     (if suspectedEvictThreshold < maplen (sd_items s) \<and> evictSweepInterval < t - sd_lastSweep s
      then sd_sweep_all now s else s)"

definition unban :: "string \<Rightarrow> Suspended \<Rightarrow> Suspended" where
  "unban ip s = s\<lparr>sd_items := fmdrop ip (sd_items s)\<rparr>"

definition Is :: "time \<Rightarrow> time \<Rightarrow> string \<Rightarrow> Suspended \<Rightarrow> bool \<times> Suspended" where
  "Is now t ip s0 =
     (let s = sd_sweep now t s0
      in case fmlookup (sd_items s) ip of
           None \<Rightarrow> (False, s)
         | Some until \<Rightarrow> if until < now then (False, unban ip s) else (True, s))"

subsection \<open>The handler\<close>

definition newFail2Ban :: "ConfigFail2Ban \<Rightarrow> Fail2Ban" where
  "newFail2Ban config =
     \<lparr>suspected = NewSuspected (WatchPeriod config),
      suspended = NewSuspended (BanPeriod config),
      watchPeriod = WatchPeriod config,
      watchCnt = WatchCount config - 1,
      LogBannedPath = cfg_LogBannedPath config\<rparr>"

definition processStatusNotFound :: "time \<Rightarrow> time \<Rightarrow> time \<Rightarrow> string \<Rightarrow> Fail2Ban \<Rightarrow> Fail2Ban" where
  "processStatusNotFound t1 t2 t3 ip fb =
     (let (count, sp) = Incr t1 t2 ip (suspected fb)
      in if watchCnt fb < count
         then fb\<lparr>suspected := Del ip sp, suspended := Add t3 ip (suspended fb)\<rparr>
         else fb\<lparr>suspected := sp\<rparr>)"

datatype f2b_outcome = Banned | Forwarded int

definition StatusNotFound :: int where
  "StatusNotFound = 404"

text \<open>
  One request from \<open>ip\<close>: \<open>ts\<close> are the clock readings of \<^verbatim>\<open>Is\<close> and, after the chain has run, of
  \<^verbatim>\<open>processStatusNotFound\<close>; \<open>status\<close> is what the chain answers if it is run at all.
\<close>

record f2b_clock =
  is_now :: time
  is_since :: time
  incr_now :: time
  incr_since :: time
  add_now :: time

definition GetFail2Ban :: "f2b_clock \<Rightarrow> string \<Rightarrow> int \<Rightarrow> Fail2Ban \<Rightarrow> f2b_outcome \<times> Fail2Ban" where
  "GetFail2Ban ts ip status fb =
     (let (banned, sd) = Is (is_now ts) (is_since ts) ip (suspended fb);
          fb1 = fb\<lparr>suspended := sd\<rparr>
      in if banned then (Banned, fb1)
         else (Forwarded status,
               if status = StatusNotFound
               then processStatusNotFound (incr_now ts) (incr_since ts) (add_now ts) ip fb1
               else fb1))"

lemmas f2b_defs [go_simps] =
  TooLate_def NewSuspected_def sp_sweep_def Incr_def Del_def NewSuspended_def Add_def
  sd_sweep_all_def sd_sweep_def unban_def Is_def newFail2Ban_def processStatusNotFound_def
  GetFail2Ban_def StatusNotFound_def

subsection \<open>Suspended addresses as an expiring store\<close>

definition banned_until :: "time \<Rightarrow> Suspended \<Rightarrow> string \<Rightarrow> unit option" where
  "banned_until t s ip =
     (case fmlookup (sd_items s) ip of
        None \<Rightarrow> None
      | Some until \<Rightarrow> if t \<le> until then Some () else None)"

lemma banned_sweep_all: "now \<le> t \<Longrightarrow> banned_until t (sd_sweep_all now s) ip = banned_until t s ip"
  by (auto simp: banned_until_def sd_sweep_all_def split: option.split)

lemma banned_sweep: "now \<le> t \<Longrightarrow> banned_until t (sd_sweep now t' s) ip = banned_until t s ip"
  by (simp add: sd_sweep_def banned_sweep_all)

lemma Is_banned: "fst (Is now t ip s) \<longleftrightarrow> banned_until now s ip = Some ()"
  using banned_sweep [of now now t s ip]
  by (auto simp: Is_def Let_def banned_until_def split: option.splits if_splits)

lemma banned_Is: "now \<le> t \<Longrightarrow> banned_until t (snd (Is now t' ip s)) ip' = banned_until t s ip'"
  using banned_sweep [of now t t' s ip']
  by (auto simp: Is_def Let_def unban_def banned_until_def split: option.splits if_splits)

interpretation bans: ttl_store banned_until "\<lambda>now ip (_::unit). Add now ip" unban sd_sweep_all "\<lambda>(now, t, ip) s. snd (Is now t ip s)"
    "\<lambda>now. now" "\<lambda>(now, _, _) t. now \<le> t" "\<lambda>now s. now + banPeriod s" "\<lambda>_ _ _. True" "\<lambda>_. True"
proof unfold_locales
  fix s k t and x :: "time \<times> time \<times> string"
  assume "(case x of (now, _, _) \<Rightarrow> \<lambda>t. now \<le> t) t"
  then show "banned_until t ((case x of (now, t', ip) \<Rightarrow> \<lambda>s. snd (Is now t' ip s)) s) k = banned_until t s k"
    by (cases x) (simp add: banned_Is)
qed (auto simp: banned_until_def Add_def unban_def banned_sweep_all [unfolded banned_until_def] split: option.split)

lemma banPeriod_Is [simp]: "banPeriod (snd (Is now t ip s)) = banPeriod s"
  by (simp add: Is_def Let_def sd_sweep_def sd_sweep_all_def unban_def split: option.split)

subsection \<open>Counting within the watch window\<close>

lemma sp_sweep_keeps:
  "fmlookup (sp_items s) ip = Some item \<Longrightarrow> now \<le> WatchTime item \<Longrightarrow>
   fmlookup (sp_items (sp_sweep now t s)) ip = Some item"
  by (simp add: sp_sweep_def)

lemma sp_sweep_none: "fmlookup (sp_items s) ip = None \<Longrightarrow> fmlookup (sp_items (sp_sweep now t s)) ip = None"
  by (simp add: sp_sweep_def)

lemma sp_watchPeriod_sweep [simp]: "sp_watchPeriod (sp_sweep now t s) = sp_watchPeriod s"
  by (simp add: sp_sweep_def)

lemma Incr_fresh:
  assumes "fmlookup (sp_items s) ip = None"
  shows "fst (Incr now t ip s) = 1"
    "fmlookup (sp_items (snd (Incr now t ip s))) ip =
       Some \<lparr>Count = 1, WatchTime = now + sp_watchPeriod s\<rparr>"
  using sp_sweep_none [OF assms, of now t] by (simp_all add: Incr_def Let_def)

lemma Incr_watched:
  assumes "fmlookup (sp_items s) ip = Some item" "now \<le> WatchTime item"
  shows "fst (Incr now t ip s) = Count item + 1"
    "fmlookup (sp_items (snd (Incr now t ip s))) ip = Some (item\<lparr>Count := Count item + 1\<rparr>)"
  using sp_sweep_keeps [OF assms, of t] assms(2) by (simp_all add: Incr_def Let_def)

lemma Incr_stale:
  assumes "fmlookup (sp_items (sp_sweep now t s)) ip = Some item" "WatchTime item < now"
  shows "fst (Incr now t ip s) = 0" "fmlookup (sp_items (snd (Incr now t ip s))) ip = None"
  using assms by (simp_all add: Incr_def Let_def)

text \<open>A run of not-found answers to one address at the given instants.\<close>

fun hits :: "string \<Rightarrow> time list \<Rightarrow> Fail2Ban \<Rightarrow> Fail2Ban" where
  "hits ip [] fb = fb"
| "hits ip (t # ts) fb = hits ip ts (processStatusNotFound t t t ip fb)"

lemma process_below:
  assumes "fst (Incr t t ip (suspected fb)) \<le> watchCnt fb"
  shows "processStatusNotFound t t t ip fb = fb\<lparr>suspected := snd (Incr t t ip (suspected fb))\<rparr>"
  using assms by (cases "Incr t t ip (suspected fb)") (simp add: processStatusNotFound_def)

lemma hits_first:
  assumes "fmlookup (sp_items (suspected fb)) ip = None" "1 \<le> watchCnt fb"
  shows "suspended (hits ip [t0] fb) = suspended fb" "watchCnt (hits ip [t0] fb) = watchCnt fb"
    "fmlookup (sp_items (suspected (hits ip [t0] fb))) ip =
       Some \<lparr>Count = 1, WatchTime = t0 + sp_watchPeriod (suspected fb)\<rparr>"
  using Incr_fresh [OF assms(1), of t0 t0] assms(2) by (simp_all add: process_below)

subsection \<open>Runs of requests\<close>

type_synonym f2b_request = "f2b_clock \<times> string \<times> int"

fun serve :: "f2b_request list \<Rightarrow> Fail2Ban \<Rightarrow> (string \<times> f2b_outcome) list \<times> Fail2Ban" where
  "serve [] fb = ([], fb)"
| "serve ((ts, ip, status) # rs) fb =
     (let (x, fb1) = GetFail2Ban ts ip status fb; (xs, fb2) = serve rs fb1
      in ((ip, x) # xs, fb2))"

lemma banned_process:
  "ip' \<noteq> ip \<Longrightarrow> banned_until t (suspended (processStatusNotFound t1 t2 t3 ip' fb)) ip =
     banned_until t (suspended fb) ip"
  by (simp add: processStatusNotFound_def banned_until_def Add_def split: prod.split)

lemma banned_mono: "banned_until t s ip = Some () \<Longrightarrow> now \<le> t \<Longrightarrow> banned_until now s ip = Some ()"
  by (auto simp: banned_until_def split: option.splits if_splits)

lemma handler_banned:
  assumes "banned_until (is_now ts) (suspended fb) ip = Some ()"
  shows "fst (GetFail2Ban ts ip status fb) = Banned"
    "suspended (snd (GetFail2Ban ts ip status fb)) =
       snd (Is (is_now ts) (is_since ts) ip (suspended fb))"
    "suspected (snd (GetFail2Ban ts ip status fb)) = suspected fb"
  using assms Is_banned [of "is_now ts" "is_since ts" ip "suspended fb"]
  by (auto simp: GetFail2Ban_def Let_def split: prod.split)

lemma handler_not_banned:
  assumes "banned_until (is_now ts) (suspended fb) ip = None"
  shows "fst (GetFail2Ban ts ip status fb) = Forwarded status"
  using assms Is_banned [of "is_now ts" "is_since ts" ip "suspended fb"]
  by (auto simp: GetFail2Ban_def Let_def split: prod.split)

lemma banned_handler:
  assumes "banned_until t (suspended fb) ip = Some ()" "is_now ts \<le> t"
  shows "banned_until t (suspended (snd (GetFail2Ban ts ip' status fb))) ip = Some ()"
proof (cases "ip' = ip")
  case True
  have "banned_until (is_now ts) (suspended fb) ip = Some ()" using assms by (rule banned_mono)
  with True assms show ?thesis by (simp add: handler_banned banned_Is)
next
  case False
  with assms banned_Is [OF assms(2), of "is_since ts" ip' "suspended fb" ip] show ?thesis
    by (auto simp: GetFail2Ban_def Let_def banned_process split: prod.split)
qed

lemma serve_banned:
  "banned_until t (suspended fb) ip = Some () \<Longrightarrow> \<forall>(ts, _, _) \<in> set rs. is_now ts \<le> t \<Longrightarrow>
   \<forall>(ip', x) \<in> set (fst (serve rs fb)). ip' = ip \<longrightarrow> x = Banned"
proof (induction rs arbitrary: fb)
  case (Cons r rs)
  obtain ts ip' status where r: "r = (ts, ip', status)" by (cases r) auto
  have le: "is_now ts \<le> t" using Cons.prems r by auto
  let ?res = "GetFail2Ban ts ip' status fb"
  have "\<forall>(ip', x) \<in> set (fst (serve rs (snd ?res))). ip' = ip \<longrightarrow> x = Banned"
    using Cons.prems banned_handler [OF Cons.prems(1) le] by (intro Cons.IH) auto
  moreover have "fst ?res = Banned" if "ip' = ip"
    using that handler_banned(1) banned_mono [OF Cons.prems(1) le] by simp
  ultimately show ?case unfolding r by (auto split: prod.splits)
qed simp

lemma not_found_only_bans:
  assumes "fmlookup (sd_items (suspended fb)) ip = None" "ip' = ip \<Longrightarrow> status \<noteq> StatusNotFound"
  shows "fmlookup (sd_items (suspended (snd (GetFail2Ban ts ip' status fb)))) ip = None"
proof -
  have sweep: "fmlookup (sd_items (snd (Is now t i (suspended fb)))) ip = None" for now t i
    using assms(1)
    by (simp add: Is_def Let_def sd_sweep_def sd_sweep_all_def unban_def split: option.split)
  show ?thesis
    using assms(2) sweep [of "is_now ts" "is_since ts" ip']
    by (cases "ip' = ip")
       (auto simp: GetFail2Ban_def Let_def processStatusNotFound_def Add_def split: prod.splits)
qed

subsection \<open>Properties\<close>

text \<open>The instants at which the not-found answers of an address are counted.\<close>

definition hits_of :: "string \<Rightarrow> f2b_request list \<Rightarrow> time list" where
  "hits_of ip rs = map (\<lambda>(ts, _, _). incr_now ts) (filter (\<lambda>(_, ip', status). ip' = ip \<and> status = StatusNotFound) rs)"

text \<open>What the lists know of an address with \<open>n\<close> not-found answers, the first at \<open>t0\<close>.\<close>

definition watched :: "string \<Rightarrow> nat \<Rightarrow> time \<Rightarrow> Fail2Ban \<Rightarrow> bool" where
  "watched ip n t0 fb \<longleftrightarrow> fmlookup (sd_items (suspended fb)) ip = None \<and>
     fmlookup (sp_items (suspected fb)) ip =
       (if n = 0 then None else Some \<lparr>Count = int n, WatchTime = t0 + sp_watchPeriod (suspected fb)\<rparr>)"

lemma Is_none: "fmlookup (sd_items s) ip = None \<Longrightarrow> fmlookup (sd_items (snd (Is now t i s))) ip = None"
  by (simp add: Is_def Let_def sd_sweep_def sd_sweep_all_def unban_def split: option.split)

lemma Is_own: "fmlookup (sd_items s) ip = None \<Longrightarrow> fst (Is now t ip s) = False"
  by (simp add: Is_def Let_def sd_sweep_def sd_sweep_all_def split: option.split)

lemma Incr_other:
  assumes "ip' \<noteq> ip" and "\<And>item. fmlookup (sp_items s) ip = Some item \<Longrightarrow> now \<le> WatchTime item"
  shows "fmlookup (sp_items (snd (Incr now t ip' s))) ip = fmlookup (sp_items s) ip"
proof -
  have "fmlookup (sp_items (sp_sweep now t s)) ip = fmlookup (sp_items s) ip"
    using assms(2) sp_sweep_none sp_sweep_keeps by (cases "fmlookup (sp_items s) ip") auto
  then show ?thesis using assms(1) by (auto simp: Incr_def Let_def split: option.split)
qed

lemma sp_watchPeriod_Incr [simp]: "sp_watchPeriod (snd (Incr now t ip s)) = sp_watchPeriod s"
  by (auto simp: Incr_def Let_def split: option.split)

lemma handler_periods [simp]:
  "sp_watchPeriod (suspected (snd (GetFail2Ban ts ip status fb))) = sp_watchPeriod (suspected fb)"
  "banPeriod (suspended (snd (GetFail2Ban ts ip status fb))) = banPeriod (suspended fb)"
  "watchCnt (snd (GetFail2Ban ts ip status fb)) = watchCnt fb"
  using sp_watchPeriod_Incr [of "incr_now ts" "incr_since ts" ip "suspected fb"] banPeriod_Is [of "is_now ts" "is_since ts" ip "suspended fb"]
  by (auto simp: GetFail2Ban_def processStatusNotFound_def Let_def Del_def Add_def split: prod.split simp del: sp_watchPeriod_Incr banPeriod_Is)

text \<open>A request of another address, or one of the address that is not answered not-found, leaves it as it is.\<close>

lemma watched_other:
  assumes "watched ip n t0 fb" and "ip' \<noteq> ip \<or> status \<noteq> StatusNotFound"
    and "status = StatusNotFound \<Longrightarrow> 0 < n \<Longrightarrow> incr_now ts \<le> t0 + sp_watchPeriod (suspected fb)"
  shows "watched ip n t0 (snd (GetFail2Ban ts ip' status fb))"
proof -
  have "fmlookup (sp_items (snd (Incr (incr_now ts) (incr_since ts) ip' (suspected fb)))) ip = fmlookup (sp_items (suspected fb)) ip"
    if "ip' \<noteq> ip" "status = StatusNotFound"
    using assms(1,3) that by (intro Incr_other) (auto simp: watched_def split: if_splits)
  then show ?thesis
    using assms(1,2) Is_none [of "suspended fb" ip "is_now ts" "is_since ts" ip'] handler_periods(1) [of ts ip' status fb]
    by (auto simp: watched_def GetFail2Ban_def processStatusNotFound_def Let_def Del_def Add_def split: prod.splits)
qed

lemma watched_hit:
  assumes "watched ip n t0 fb" and "n = 0 \<Longrightarrow> incr_now ts = t0" and "0 < n \<Longrightarrow> incr_now ts \<le> t0 + sp_watchPeriod (suspected fb)"
  shows "fst (GetFail2Ban ts ip StatusNotFound fb) = Forwarded StatusNotFound"
    and "int (Suc n) \<le> watchCnt fb \<Longrightarrow> watched ip (Suc n) t0 (snd (GetFail2Ban ts ip StatusNotFound fb))"
    and "watchCnt fb < int (Suc n) \<Longrightarrow>
      fmlookup (sd_items (suspended (snd (GetFail2Ban ts ip StatusNotFound fb)))) ip = Some (add_now ts + banPeriod (suspended fb))"
proof -
  obtain sd where not_banned: "Is (is_now ts) (is_since ts) ip (suspended fb) = (False, sd)"
    using Is_own [of "suspended fb" ip "is_now ts" "is_since ts"] assms(1)
    by (cases "Is (is_now ts) (is_since ts) ip (suspended fb)") (simp add: watched_def)
  have none: "fmlookup (sd_items sd) ip = None" "banPeriod sd = banPeriod (suspended fb)"
    using Is_none [of "suspended fb" ip "is_now ts" "is_since ts" ip] banPeriod_Is [of "is_now ts" "is_since ts" ip "suspended fb"] assms(1) not_banned
    by (simp_all add: watched_def)
  have count: "fst (Incr (incr_now ts) (incr_since ts) ip (suspected fb)) = int (Suc n)"
    "fmlookup (sp_items (snd (Incr (incr_now ts) (incr_since ts) ip (suspected fb)))) ip =
       Some \<lparr>Count = int (Suc n), WatchTime = t0 + sp_watchPeriod (suspected fb)\<rparr>"
  proof (atomize (full), cases "n = 0")
    case True
    then show "fst (Incr (incr_now ts) (incr_since ts) ip (suspected fb)) = int (Suc n) \<and>
      fmlookup (sp_items (snd (Incr (incr_now ts) (incr_since ts) ip (suspected fb)))) ip =
        Some \<lparr>Count = int (Suc n), WatchTime = t0 + sp_watchPeriod (suspected fb)\<rparr>"
      using assms(1,2) Incr_fresh [of "suspected fb" ip "incr_now ts" "incr_since ts"] by (simp add: watched_def)
  next
    case False
    let ?item = "\<lparr>Count = int n, WatchTime = t0 + sp_watchPeriod (suspected fb)\<rparr>"
    have "fmlookup (sp_items (suspected fb)) ip = Some ?item" using assms(1) False by (simp add: watched_def)
    from Incr_watched [OF this, of "incr_now ts" "incr_since ts"] assms(3) False
    show "fst (Incr (incr_now ts) (incr_since ts) ip (suspected fb)) = int (Suc n) \<and>
      fmlookup (sp_items (snd (Incr (incr_now ts) (incr_since ts) ip (suspected fb)))) ip =
        Some \<lparr>Count = int (Suc n), WatchTime = t0 + sp_watchPeriod (suspected fb)\<rparr>" by simp
  qed
  show "fst (GetFail2Ban ts ip StatusNotFound fb) = Forwarded StatusNotFound" by (simp add: GetFail2Ban_def not_banned)
  show "watched ip (Suc n) t0 (snd (GetFail2Ban ts ip StatusNotFound fb))" if "int (Suc n) \<le> watchCnt fb"
    using that count none by (simp add: watched_def GetFail2Ban_def not_banned processStatusNotFound_def case_prod_beta)
  show "fmlookup (sd_items (suspended (snd (GetFail2Ban ts ip StatusNotFound fb)))) ip = Some (add_now ts + banPeriod (suspended fb))"
    if "watchCnt fb < int (Suc n)"
    using that count none by (simp add: GetFail2Ban_def not_banned processStatusNotFound_def case_prod_beta Add_def)
qed

lemma serve_Cons:
  "fst (serve ((ts, ip, status) # rs) fb) = (ip, fst (GetFail2Ban ts ip status fb)) # fst (serve rs (snd (GetFail2Ban ts ip status fb)))"
  "snd (serve ((ts, ip, status) # rs) fb) = snd (serve rs (snd (GetFail2Ban ts ip status fb)))"
  by (simp_all add: case_prod_beta Let_def)

lemma serve_append: "snd (serve (rs @ rs') fb) = snd (serve rs' (snd (serve rs fb)))"
  by (induction rs arbitrary: fb) (auto simp: serve_Cons simp del: serve.simps(2))

lemma serve_periods [simp]:
  "sp_watchPeriod (suspected (snd (serve rs fb))) = sp_watchPeriod (suspected fb) \<and>
   banPeriod (suspended (snd (serve rs fb))) = banPeriod (suspended fb) \<and> watchCnt (snd (serve rs fb)) = watchCnt fb"
  by (induction rs arbitrary: fb) (auto simp: serve_Cons simp del: serve.simps(2))

text \<open>Below the limit every answer is counted, whatever the other addresses do, and no request of the address is rejected.\<close>

lemma serve_watched:
  assumes "watched ip n t0 fb" and "n = 0 \<Longrightarrow> hits_of ip rs = [] \<or> hd (hits_of ip rs) = t0"
    and "\<forall>(ts, _, status) \<in> set rs. status = StatusNotFound \<longrightarrow> incr_now ts \<le> t0 + sp_watchPeriod (suspected fb)"
    and "int (n + length (hits_of ip rs)) \<le> watchCnt fb"
  shows "watched ip (n + length (hits_of ip rs)) t0 (snd (serve rs fb)) \<and> (ip, Banned) \<notin> set (fst (serve rs fb))"
  using assms
proof (induction rs arbitrary: n fb)
  case (Cons r rs)
  obtain ts ip' status where r: "r = (ts, ip', status)" by (cases r) auto
  let ?fb = "snd (GetFail2Ban ts ip' status fb)"
  have later: "\<forall>(ts, _, status) \<in> set rs. status = StatusNotFound \<longrightarrow> incr_now ts \<le> t0 + sp_watchPeriod (suspected ?fb)"
    and cnt: "watchCnt ?fb = watchCnt fb" using Cons.prems(3) by auto
  show ?case
  proof (cases "ip' = ip \<and> status = StatusNotFound")
    case True
    have hits: "hits_of ip (r # rs) = incr_now ts # hits_of ip rs" using True r by (simp add: hits_of_def)
    have now: "n = 0 \<Longrightarrow> incr_now ts = t0" "0 < n \<Longrightarrow> incr_now ts \<le> t0 + sp_watchPeriod (suspected fb)"
      using Cons.prems(2,3) hits True r by auto
    have "watched ip (Suc n) t0 ?fb" "fst (GetFail2Ban ts ip' status fb) \<noteq> Banned"
      using watched_hit [OF Cons.prems(1) now] Cons.prems(4) hits True by simp_all
    then show ?thesis using Cons.IH [of "Suc n" ?fb] later cnt Cons.prems(4) hits r by (simp add: serve_Cons del: serve.simps(2))
  next
    case False
    have hits: "hits_of ip (r # rs) = hits_of ip rs" using False r by (auto simp: hits_of_def)
    have w: "watched ip n t0 ?fb" using watched_other [OF Cons.prems(1), of ip' status ts] False Cons.prems(3) r by auto
    have "fst (GetFail2Ban ts ip' status fb) \<noteq> Banned" if "ip' = ip"
      using that Cons.prems(1) by (simp add: handler_not_banned banned_until_def watched_def)
    then show ?thesis using Cons.IH [OF w] later cnt Cons.prems(2,4) hits r by (auto simp: serve_Cons simp del: serve.simps(2))
  qed
qed (simp add: hits_of_def)

text \<open>
  C28: The ban threshold.  In every state \<open>fb\<close> the handler can get into, let an address be neither banned nor under watch, and let any requests of
  any addresses follow, with any answers, the first not-found answer to the address counted at \<open>t0\<close> and every not-found answer, to whomever, counted
  within the watch period from \<open>t0\<close>, sweeps of the lists included.  As long as the address has fewer than \<^verbatim>\<open>WatchCount\<close> not-found answers, none of
  its requests is rejected and it is not in the list of banned addresses; at exactly the \<^verbatim>\<open>WatchCount\<close>-th it enters it, for the ban period from that answer.
\<close>

theorem ban_threshold:
  assumes "fb = snd (serve before (newFail2Ban config))"
    and "fmlookup (sd_items (suspended fb)) ip = None" and "fmlookup (sp_items (suspected fb)) ip = None"
    and "hits_of ip rs = t0 # ts" and "\<forall>(c, _, status) \<in> set rs. status = StatusNotFound \<longrightarrow> incr_now c \<le> t0 + WatchPeriod config"
  shows "(int (length (t0 # ts)) < WatchCount config \<longrightarrow>
           fmlookup (sd_items (suspended (snd (serve rs fb)))) ip = None \<and> (ip, Banned) \<notin> set (fst (serve rs fb))) \<and>
         (\<forall>rs' c. int (length (t0 # ts)) = WatchCount config \<and> rs = rs' @ [(c, ip, StatusNotFound)] \<longrightarrow>
           fmlookup (sd_items (suspended (snd (serve rs fb)))) ip = Some (add_now c + BanPeriod config))"
proof (intro conjI impI allI)
  have w: "watched ip 0 t0 fb" using assms(2,3) by (simp add: watched_def)
  have cfg: "sp_watchPeriod (suspected fb) = WatchPeriod config" "banPeriod (suspended fb) = BanPeriod config" "watchCnt fb = WatchCount config - 1"
    unfolding assms(1) by (simp_all add: newFail2Ban_def NewSuspected_def NewSuspended_def)
  {
    assume "int (length (t0 # ts)) < WatchCount config"
    then have "watched ip (length (t0 # ts)) t0 (snd (serve rs fb)) \<and> (ip, Banned) \<notin> set (fst (serve rs fb))"
      using serve_watched [OF w, of rs] assms(4,5) cfg by simp
    then show "fmlookup (sd_items (suspended (snd (serve rs fb)))) ip = None" "(ip, Banned) \<notin> set (fst (serve rs fb))"
      by (simp_all add: watched_def)
  next
    fix rs' c
    assume l: "int (length (t0 # ts)) = WatchCount config \<and> rs = rs' @ [(c, ip, StatusNotFound)]"
    then have hits: "t0 # ts = hits_of ip rs' @ [incr_now c]" using assms(4) by (simp add: hits_of_def)
    let ?n = "length (hits_of ip rs')" and ?fb = "snd (serve rs' fb)"
    have n: "int (Suc ?n) = WatchCount config" using l hits by (metis length_append_singleton)
    have "watched ip ?n t0 ?fb"
      using serve_watched [OF w, of rs'] hits n assms(5) l cfg by (cases "hits_of ip rs'") auto
    moreover have "?n = 0 \<Longrightarrow> incr_now c = t0" "incr_now c \<le> t0 + WatchPeriod config" using hits l assms(5) by auto
    ultimately have "fmlookup (sd_items (suspended (snd (GetFail2Ban c ip StatusNotFound ?fb)))) ip = Some (add_now c + BanPeriod config)"
      using watched_hit(3) [of ip ?n t0 ?fb c] cfg n by simp
    then show "fmlookup (sd_items (suspended (snd (serve rs fb)))) ip = Some (add_now c + BanPeriod config)"
      using l by (simp add: serve_append serve_Cons del: serve.simps(2))
  }
qed

text \<open>Two addresses in turn, the limit at two answers.\<close>

definition clock_at :: "time \<Rightarrow> f2b_clock" where
  "clock_at t = \<lparr>is_now = t, is_since = t, incr_now = t, incr_since = t, add_now = t\<rparr>"

theorem ban_threshold_witness:
  "fmlookup (sd_items (suspended (snd (serve [(clock_at 1, ''a'', 404), (clock_at 2, ''b'', 404), (clock_at 3, ''a'', 404)]
      (newFail2Ban \<lparr>Disabled = False, cfg_LogBannedPath = False, WatchPeriod = 60, WatchCount = 2, BanPeriod = 900\<rparr>))))) ''a'' = Some 903"
proof -
  let ?cfg = "\<lparr>Disabled = False, cfg_LogBannedPath = False, WatchPeriod = 60, WatchCount = 2, BanPeriod = 900\<rparr>"
  let ?rs = "[(clock_at 1, ''a'', 404), (clock_at 2, ''b'', 404), (clock_at 3, ''a'', 404)] :: f2b_request list"
  have fb: "newFail2Ban ?cfg = snd (serve [] (newFail2Ban ?cfg))" by simp
  have h: "hits_of ''a'' ?rs = 1 # [3]" by (simp add: hits_of_def clock_at_def StatusNotFound_def)
  have n: "fmlookup (sd_items (suspended (newFail2Ban ?cfg))) ''a'' = None" "fmlookup (sp_items (suspected (newFail2Ban ?cfg))) ''a'' = None"
    by (simp_all add: newFail2Ban_def NewSuspended_def NewSuspected_def)
  have w: "\<forall>(c, _, status) \<in> set ?rs. status = StatusNotFound \<longrightarrow> incr_now c \<le> 1 + WatchPeriod ?cfg" by (simp add: clock_at_def)
  from ban_threshold [OF fb n h w, THEN conjunct2, rule_format, of "[(clock_at 1, ''a'', 404), (clock_at 2, ''b'', 404)]" "clock_at 3"]
  show ?thesis by (simp add: StatusNotFound_def clock_at_def del: serve.simps)
qed

text \<open>
  C3: A ban holds for its whole period.  Once an address is banned at instant \<open>t0\<close>, every request
  from it up to \<open>t0\<close> plus the ban period is answered by the ban and never reaches the rest of
  the chain, in any run of requests from any addresses.
\<close>

theorem ban_holds:
  assumes "t \<le> t0 + banPeriod (suspended fb)"
    and "\<forall>(ts, _, _) \<in> set rs. is_now ts \<le> t"
    and "(ip, x) \<in> set (fst (serve rs (fb\<lparr>suspended := Add t0 ip (suspended fb)\<rparr>)))"
  shows "x = Banned"
proof -
  have "banned_until t (suspended (fb\<lparr>suspended := Add t0 ip (suspended fb)\<rparr>)) ip = Some ()"
    using assms(1) by (simp add: banned_until_def Add_def)
  from serve_banned [OF this assms(2)] assms(3) show ?thesis by auto
qed

theorem ban_holds_witness:
  "fst (serve [(\<lparr>is_now = 5, is_since = 5, incr_now = 5, incr_since = 5, add_now = 5\<rparr>, ''10.0.0.1'', 200)]
     ((newFail2Ban \<lparr>Disabled = False, cfg_LogBannedPath = False, WatchPeriod = 60, WatchCount = 3,
         BanPeriod = 900\<rparr>)\<lparr>suspended := Add 0 ''10.0.0.1'' (NewSuspended 900)\<rparr>)) =
   [(''10.0.0.1'', Banned)]"
proof -
  let ?fb = "newFail2Ban \<lparr>Disabled = False, cfg_LogBannedPath = False, WatchPeriod = 60,
    WatchCount = 3, BanPeriod = 900\<rparr>"
  let ?ts = "\<lparr>is_now = 5, is_since = 5, incr_now = 5, incr_since = 5, add_now = 5 :: int\<rparr>"
  have "\<exists>x. fst (serve [(?ts, ''10.0.0.1'', 200)]
      (?fb\<lparr>suspended := Add 0 ''10.0.0.1'' (NewSuspended 900)\<rparr>)) = [(''10.0.0.1'', x)]"
    by (auto split: prod.split)
  then obtain x where x: "fst (serve [(?ts, ''10.0.0.1'', 200)]
      (?fb\<lparr>suspended := Add 0 ''10.0.0.1'' (NewSuspended 900)\<rparr>)) = [(''10.0.0.1'', x)]" ..
  have "x = Banned"
    by (rule ban_holds [of 5 0 ?fb "[(?ts, ''10.0.0.1'', 200)]" "''10.0.0.1''"]) (use x in \<open>simp_all add: newFail2Ban_def NewSuspended_def\<close>)
  with x show ?thesis by simp
qed

text \<open>
  Nobody else is banned: if no request of an address is answered with not-found, then none of
  its requests is rejected, whatever the other addresses do.
\<close>

theorem no_ban_without_not_found:
  assumes "fmlookup (sd_items (suspended fb)) ip = None"
    and "\<forall>(ts, ip', status) \<in> set rs. ip' = ip \<longrightarrow> status \<noteq> StatusNotFound"
    and "(ip, x) \<in> set (fst (serve rs fb))"
  shows "x \<noteq> Banned"
  using assms
proof (induction rs arbitrary: fb)
  case (Cons r rs)
  obtain ts ip' status where r: "r = (ts, ip', status)" by (cases r) auto
  let ?res = "GetFail2Ban ts ip' status fb"
  have "ip' = ip \<Longrightarrow> status \<noteq> StatusNotFound" using Cons.prems(2) r by auto
  note rest = not_found_only_bans [OF Cons.prems(1) this, where ts = ts]
  have "fst ?res \<noteq> Banned" if "ip' = ip"
    using that Cons.prems(1) by (simp add: handler_not_banned banned_until_def)
  moreover have "(ip, x) \<in> set (fst (serve rs (snd ?res))) \<Longrightarrow> x \<noteq> Banned"
    using Cons.IH [OF rest] Cons.prems(2) by simp
  ultimately show ?case using Cons.prems(3) unfolding r by (auto split: prod.splits)
qed simp

theorem no_ban_without_not_found_witness:
  "fst (serve [(\<lparr>is_now = 0, is_since = 0, incr_now = 0, incr_since = 0, add_now = 0\<rparr>, ''a'', 200)]
     (newFail2Ban \<lparr>Disabled = False, cfg_LogBannedPath = False, WatchPeriod = 60, WatchCount = 1,
        BanPeriod = 900\<rparr>)) \<noteq> [(''a'', Banned)]"
proof
  let ?fb = "newFail2Ban \<lparr>Disabled = False, cfg_LogBannedPath = False, WatchPeriod = 60,
    WatchCount = 1, BanPeriod = 900\<rparr>"
  let ?rs = "[(\<lparr>is_now = 0, is_since = 0, incr_now = 0, incr_since = 0, add_now = 0 :: int\<rparr>, ''a'', 200)]"
  assume "fst (serve ?rs ?fb) = [(''a'', Banned)]"
  then have "(''a'', Banned) \<in> set (fst (serve ?rs ?fb))" by (metis list.set_intros(1))
  from no_ban_without_not_found [OF _ _ this] show False
    by (simp add: newFail2Ban_def NewSuspended_def StatusNotFound_def)
qed

text \<open>
  A not-found answer to an address whose watch period is over is not counted: \<^verbatim>\<open>Incr\<close> forgets
  the address and returns 0 instead of opening a new watch period, so that such an answer bans
  nobody when \<^verbatim>\<open>WatchCount\<close> is at least 1.
\<close>

theorem stale_hit_not_counted:
  assumes "fmlookup (sp_items (suspected (newFail2Ban config))) ip = None"
    and "1 < WatchCount config" "t0 + WatchPeriod config < t"
  shows "suspended (hits ip [t0, t] (newFail2Ban config)) = suspended (newFail2Ban config) \<and>
    fmlookup (sp_items (suspected (hits ip [t0, t] (newFail2Ban config)))) ip = None"
proof -
  let ?fb = "newFail2Ban config"
  have cnt: "1 \<le> watchCnt ?fb" "sp_watchPeriod (suspected ?fb) = WatchPeriod config"
    using assms(2) by (simp_all add: newFail2Ban_def NewSuspected_def)
  note h1 = hits_first [OF assms(1) cnt(1), of t0]
  let ?s = "suspected (hits ip [t0] ?fb)"
  have "maplen (sp_items ?s) \<le> 1"
    using Incr_fresh(1) [OF assms(1), of t0 t0] cnt(1)
    by (simp add: process_below)
       (simp add: Incr_def Let_def newFail2Ban_def NewSuspected_def sp_sweep_def maplen_fmupd)
  then have "sp_sweep t t ?s = ?s" by (simp add: sp_sweep_def suspectedEvictThreshold_def)
  then have "fst (Incr t t ip ?s) = 0 \<and> fmlookup (sp_items (snd (Incr t t ip ?s))) ip = None"
    using Incr_stale [of t t ?s ip] h1(3) assms(3) cnt(2) by simp
  moreover have "hits ip [t0, t] ?fb = processStatusNotFound t t t ip (hits ip [t0] ?fb)" by simp
  ultimately show ?thesis using h1(1,2) cnt(1) by (simp del: hits.simps add: process_below)
qed

theorem stale_hit_not_counted_witness:
  "suspended (hits ''a'' [0, 61] (newFail2Ban
      \<lparr>Disabled = False, cfg_LogBannedPath = False, WatchPeriod = 60, WatchCount = 2, BanPeriod = 900\<rparr>)) =
   NewSuspended 900"
  using stale_hit_not_counted [of "\<lparr>Disabled = False, cfg_LogBannedPath = False, WatchPeriod = 60,
      WatchCount = 2, BanPeriod = 900\<rparr>" "''a''" 0 61]
  by (simp add: newFail2Ban_def NewSuspected_def del: hits.simps)

end
