(* ===== verification/AppController.thy ===== *)
theory AppController
  imports Prelude
begin

section \<open>The application controller\<close>

text \<open>
  \<^verbatim>\<open>app/v3/appcv3.go\<close>.  The controller calls code of the application: its services, its hooks and
  its configuration manager.  That code is a parameter, a function on a world \<^typ>\<open>'w\<close> that
  returns an error or none (\<open>string option\<close>).  An interface the application may or may not
  implement (\<^verbatim>\<open>v3.app.(interface\{...\})\<close>) is an optional field.  A panic of the controller is the
  outcome \<open>Panicked\<close>; \<open>OnAppRecover\<close> turns it into \<open>Recovered\<close>.
\<close>

subsection \<open>Data\<close>

type_synonym 'w action = "'w \<Rightarrow> string option \<times> 'w"

record 'w Service =
  GetName :: string
  svc_Start :: "'w action"
  svc_Stop :: "'w action"

text \<open>\<open>app_Stop\<close> may list nil services.\<close>

record 'w Application =
  app_Start :: "'w \<Rightarrow> 'w Service list \<times> 'w"
  app_Stop :: "'w \<Rightarrow> 'w Service option list \<times> 'w"
  OnAppBeforeInitServices :: "('w \<Rightarrow> 'w) option"
  OnAppAfterInitServices :: "('w \<Rightarrow> 'w) option"
  GetProcessingFunc :: "('w \<Rightarrow> (('w \<Rightarrow> 'w) option \<times> duration) \<times> 'w) option"
  OnAppRecover :: "(string \<Rightarrow> 'w \<Rightarrow> 'w) option"

datatype 'w outcome = Finished 'w | Panicked string 'w

datatype 'w run_result = Returned 'w | Recovered 'w | Crashed string 'w | Running

text \<open>
  The fields of \<^verbatim>\<open>AppControllerV3\<close> that \<^verbatim>\<open>Run\<close> writes.  \<open>quit\<close> is the signal channel: absent
  before \<^verbatim>\<open>Run\<close> makes it, afterwards the number of signals in its one-place buffer.
\<close>

record 'w AppControllerV3 =
  app :: "'w Application"
  cm :: "'w action option"
  quit :: "nat option"
  processingFunc :: "('w \<Rightarrow> 'w) option"
  processingDuration :: duration
  logger :: "nat option"

definition NewAppControllerV3 :: "'w Application \<Rightarrow> 'w AppControllerV3" where
  "NewAppControllerV3 a =
     \<lparr>app = a, cm = None, quit = None, processingFunc = None, processingDuration = 0, logger = None\<rparr>"

definition SetConfigManager :: "'w action \<Rightarrow> 'w AppControllerV3 \<Rightarrow> 'w AppControllerV3" where
  "SetConfigManager configManager v3 = v3\<lparr>cm := Some configManager\<rparr>"

text \<open>A log handler is a number; the second result is the handler of the default logger, a global.\<close>

definition SetLogHandler :: "nat \<Rightarrow> 'w AppControllerV3 \<Rightarrow> 'w AppControllerV3 \<times> nat" where
  "SetLogHandler handler v3 = (v3\<lparr>logger := Some handler\<rparr>, handler)"

definition GetLogHandler :: "'w AppControllerV3 \<Rightarrow> nat option" where
  "GetLogHandler v3 = logger v3"

text \<open>\<open>config_field\<close> is the manager that \<^verbatim>\<open>NewBasicConfig\<close> makes of the field \<^verbatim>\<open>Config\<close> of the application; without that field reflection panics.\<close>

definition checkConfigManager :: "('w Application \<Rightarrow> 'w action option) \<Rightarrow> 'w AppControllerV3 \<Rightarrow> 'w AppControllerV3 option" where
  "checkConfigManager config_field v3 =
     (case cm v3 of
        Some m \<Rightarrow> Some v3
      | None \<Rightarrow> map_option (\<lambda>m. v3\<lparr>cm := Some m\<rparr>) (config_field (app v3)))"

subsection \<open>Operations\<close>

text \<open>\<^verbatim>\<open>Stop\<close>: a send that does not block; it is dropped on a full or absent channel.\<close>

definition Stop :: "'w AppControllerV3 \<Rightarrow> 'w AppControllerV3" where
  "Stop v3 = (case quit v3 of
     None \<Rightarrow> v3
   | Some n \<Rightarrow> if n < 1 then v3\<lparr>quit := Some (Suc n)\<rparr> else v3)"

text \<open>The loop over \<^verbatim>\<open>started\<close> that runs from its last element to its first.\<close>

fun stop_started :: "'w Service list \<Rightarrow> 'w \<Rightarrow> 'w" where
  "stop_started [] w = w"
| "stop_started (s # ss) w = stop_started ss (snd (svc_Stop s w))"

fun init_loop :: "'w Service list \<Rightarrow> 'w Service list \<Rightarrow> 'w \<Rightarrow> 'w outcome" where
  "init_loop started [] w = Finished w"
| "init_loop started (v # vs) w =
     (case svc_Start v w of
        (Some err, w1) \<Rightarrow> Panicked err (stop_started (rev started) w1)
      | (None, w1) \<Rightarrow> init_loop (started @ [v]) vs w1)"

definition initServices :: "'w AppControllerV3 \<Rightarrow> 'w \<Rightarrow> 'w outcome" where
  "initServices v3 w = (let (services, w1) = app_Start (app v3) w in init_loop [] services w1)"

fun deinit_loop :: "'w Service option list \<Rightarrow> 'w \<Rightarrow> 'w" where
  "deinit_loop [] w = w"
| "deinit_loop (None # ss) w = deinit_loop ss w"
| "deinit_loop (Some s # ss) w = deinit_loop ss (snd (svc_Stop s w))"

definition deInitServices :: "'w AppControllerV3 \<Rightarrow> 'w \<Rightarrow> 'w" where
  "deInitServices v3 w = (let (services, w1) = app_Stop (app v3) w in deinit_loop services w1)"

text \<open>
  What the two channels of \<^verbatim>\<open>doProcess\<close> deliver, in the order in which its \<^verbatim>\<open>select\<close> takes them.
  The result is absent while no quit signal has come.
\<close>

datatype event = Tick | Quit

fun tick_loop :: "('w \<Rightarrow> 'w) \<Rightarrow> event list \<Rightarrow> 'w \<Rightarrow> 'w option" where
  "tick_loop f [] w = None"
| "tick_loop f (Tick # es) w = tick_loop f es (f w)"
| "tick_loop f (Quit # es) w = Some w"

definition doProcess :: "'w AppControllerV3 \<Rightarrow> event list \<Rightarrow> 'w \<Rightarrow> 'w option" where
  "doProcess v3 es w =
     (case processingFunc v3 of
        Some f \<Rightarrow>
          if 0 < processingDuration v3 then tick_loop f es w
          else (if Quit \<in> set es then Some w else None)
      | None \<Rightarrow> if Quit \<in> set es then Some w else None)"

definition call_hook :: "('w \<Rightarrow> 'w) option \<Rightarrow> 'w \<Rightarrow> 'w" where
  "call_hook h w = (case h of None \<Rightarrow> w | Some f \<Rightarrow> f w)"

text \<open>The panic of \<^verbatim>\<open>Run\<close> and its deferred recover function.\<close>

definition raise :: "'w AppControllerV3 \<Rightarrow> string \<Rightarrow> 'w \<Rightarrow> 'w run_result" where
  "raise v3 err w =
     (case OnAppRecover (app v3) of None \<Rightarrow> Crashed err w | Some f \<Rightarrow> Recovered (f err w))"

definition load_config :: "'w AppControllerV3 \<Rightarrow> 'w action" where
  "load_config v3 w = (case cm v3 of None \<Rightarrow> (None, w) | Some load \<Rightarrow> load w)"

definition set_processing :: "'w AppControllerV3 \<Rightarrow> 'w \<Rightarrow> 'w AppControllerV3 \<times> 'w" where
  "set_processing v3 w =
     (case GetProcessingFunc (app v3) of
        None \<Rightarrow> (v3, w)
      | Some g \<Rightarrow>
          let ((f, d), w1) = g w in (v3\<lparr>processingFunc := f, processingDuration := d\<rparr>, w1))"

definition Run :: "'w AppControllerV3 \<Rightarrow> event list \<Rightarrow> 'w \<Rightarrow> 'w run_result" where
  "Run v3 es w0 =
     (case load_config v3 w0 of
        (Some err, w) \<Rightarrow> raise v3 err w
      | (None, w) \<Rightarrow>
          (case initServices v3 (call_hook (OnAppBeforeInitServices (app v3)) w) of
             Panicked err w1 \<Rightarrow> raise v3 err w1
           | Finished w1 \<Rightarrow>
               let (v3', w2) = set_processing v3 (call_hook (OnAppAfterInitServices (app v3)) w1)
               in (case doProcess (v3'\<lparr>quit := Some 0\<rparr>) es w2 of
                     None \<Rightarrow> Running
                   | Some w3 \<Rightarrow> Returned (deInitServices v3' w3))))"

lemmas app_defs [go_simps] =
  NewAppControllerV3_def SetConfigManager_def Stop_def initServices_def deInitServices_def
  doProcess_def call_hook_def raise_def load_config_def set_processing_def Run_def

subsection \<open>Services that write what happens to them\<close>

text \<open>
  To speak about the order of calls, the world is a trace and a service is described by its
  name and by the errors its two methods return.
\<close>

datatype call =
    Started string
  | StartFailed string
  | Stopped string
  | Note string

record svc_spec =
  sname :: string
  startErr :: "string option"
  stopErr :: "string option"

definition traced :: "svc_spec \<Rightarrow> call list Service" where
  "traced d =
     \<lparr>GetName = sname d,
      svc_Start = (\<lambda>w. (startErr d, w @ [if startErr d = None then Started (sname d) else StartFailed (sname d)])),
      svc_Stop = (\<lambda>w. (stopErr d, w @ [Stopped (sname d)]))\<rparr>"

lemma stop_started_traced: "stop_started (map traced ds) w = w @ map (Stopped \<circ> sname) ds"
  by (induction ds arbitrary: w) (simp_all add: traced_def)

lemma deinit_traced:
  "deinit_loop ss w = w @ concat (map (\<lambda>s. case s of None \<Rightarrow> [] | Some d \<Rightarrow> [Stopped (sname d)]) ds)"
  if "ss = map (map_option traced) ds" for ss
  using that
proof (induction ds arbitrary: ss w)
  case (Cons d ds)
  then show ?case by (cases d) (auto simp: traced_def)
qed simp

text \<open>The services up to the first that fails, that service, and the rest.\<close>

fun first_failure :: "svc_spec list \<Rightarrow> (svc_spec list \<times> string \<times> svc_spec) option" where
  "first_failure [] = None"
| "first_failure (d # ds) =
     (case startErr d of
        Some err \<Rightarrow> Some ([], err, d)
      | None \<Rightarrow> map_option (\<lambda>(ok, e). (d # ok, e)) (first_failure ds))"

lemma init_loop_traced:
  "init_loop (map traced started) (map traced ds) w =
     (case first_failure ds of
        None \<Rightarrow> Finished (w @ map (Started \<circ> sname) ds)
      | Some (ok, err, d) \<Rightarrow>
          Panicked err (w @ map (Started \<circ> sname) ok @ [StartFailed (sname d)] @
            map (Stopped \<circ> sname) (rev ok) @ map (Stopped \<circ> sname) (rev started)))"
proof (induction ds arbitrary: started w)
  case (Cons d ds)
  show ?case
  proof (cases "startErr d")
    case None
    have "map traced started @ [traced d] = map traced (started @ [d])" by simp
    with None show ?thesis
      using Cons.IH [of "started @ [d]" "w @ [Started (sname d)]"]
      by (simp add: traced_def [of d] split: option.split)
  next
    case (Some err)
    then show ?thesis
      using stop_started_traced [of "rev started" "w @ [StartFailed (sname d)]"]
      by (simp add: traced_def [of d] rev_map)
  qed
qed simp

text \<open>An application whose hooks leave notes and whose timer function ticks.\<close>

definition traced_app :: "svc_spec list \<Rightarrow> svc_spec option list \<Rightarrow> duration \<Rightarrow> call list Application" where
  "traced_app ds stops d =
     \<lparr>app_Start = (\<lambda>w. (map traced ds, w)),
      app_Stop = (\<lambda>w. (map (map_option traced) stops, w)),
      OnAppBeforeInitServices = Some (\<lambda>w. w @ [Note ''before'']),
      OnAppAfterInitServices = Some (\<lambda>w. w @ [Note ''after'']),
      GetProcessingFunc = Some (\<lambda>w. ((Some (\<lambda>w. w @ [Note ''tick'']), d), w)),
      OnAppRecover = None\<rparr>"

definition stop_calls :: "svc_spec option list \<Rightarrow> call list" where
  "stop_calls stops = concat (map (\<lambda>s. case s of None \<Rightarrow> [] | Some d \<Rightarrow> [Stopped (sname d)]) stops)"

lemma tick_loop_ticks:
  "tick_loop f (replicate n Tick @ Quit # es) w = Some ((f ^^ n) w)"
  by (induction n arbitrary: w) (simp_all add: funpow_swap1)

lemma note_ticks: "((\<lambda>w. w @ [Note ''tick'']) ^^ n) w = w @ replicate n (Note ''tick'')"
  by (induction n) (simp_all add: replicate_append_same)

lemma first_failure_none: "first_failure ds = None \<longleftrightarrow> (\<forall>d \<in> set ds. startErr d = None)"
  by (induction ds) (auto split: option.split)

subsection \<open>Properties\<close>

text \<open>
  C6: Starting is all or nothing.  Services start in the application's order; if none fails,
  exactly they are started.  If one fails, the services started before it are stopped in
  reverse order, no later service is started, and the controller panics with the error of the
  failed start (errors of the stops are ignored).
\<close>

theorem init_all_or_nothing:
  "initServices (NewAppControllerV3 (traced_app ds stops dur)) w =
     (case first_failure ds of
        None \<Rightarrow> Finished (w @ map (Started \<circ> sname) ds)
      | Some (ok, err, d) \<Rightarrow>
          Panicked err (w @ map (Started \<circ> sname) ok @ [StartFailed (sname d)] @
            map (Stopped \<circ> sname) (rev ok)))"
  using init_loop_traced [of "[]" ds w]
  by (auto simp: initServices_def NewAppControllerV3_def traced_app_def split: option.split)

text \<open>
  C26: A run that is told to quit after \<open>n\<close> ticks calls, in this order: the configuration manager,
  the hook before the services, the start of every service, the hook after them, the timer
  function \<open>n\<close> times, and the stop of every service the application lists for stopping.
\<close>

theorem Run_order:
  assumes "\<forall>d \<in> set ds. startErr d = None" "0 < dur"
  shows "Run (SetConfigManager (\<lambda>w. (None, w @ [Note ''load'']))
        (NewAppControllerV3 (traced_app ds stops dur))) (replicate n Tick @ Quit # es) [] =
    Returned ([Note ''load'', Note ''before''] @ map (Started \<circ> sname) ds @ [Note ''after''] @
      replicate n (Note ''tick'') @ stop_calls stops)"
proof -
  have "first_failure ds = None" using assms(1) by (simp add: first_failure_none)
  then show ?thesis
    using assms(2) init_loop_traced [of "[]" ds "[Note ''load'', Note ''before'']"]
    by (simp add: app_defs traced_app_def tick_loop_ticks note_ticks stop_calls_def deinit_traced [OF refl])
qed

theorem Run_order_witness:
  "Run (SetConfigManager (\<lambda>w. (None, w @ [Note ''load'']))
     (NewAppControllerV3 (traced_app [\<lparr>sname = ''db'', startErr = None, stopErr = None\<rparr>]
        [None, Some \<lparr>sname = ''db'', startErr = None, stopErr = None\<rparr>] 5))) (replicate 2 Tick @ Quit # []) [] =
   Returned [Note ''load'', Note ''before'', Started ''db'', Note ''after'', Note ''tick'', Note ''tick'',
     Stopped ''db'']"
  by (subst Run_order) (simp_all add: stop_calls_def eval_nat_numeral)

text \<open>
  A configuration that cannot be loaded starts nothing: the controller panics with the
  loader's error before the application is asked for its services or any hook is called, and
  the panic reaches \<^verbatim>\<open>OnAppRecover\<close> if the application has it.
\<close>

theorem Run_config_error:
  assumes "load w = (Some err, w1)"
  shows "Run (SetConfigManager load v3) es w =
    (case OnAppRecover (app v3) of None \<Rightarrow> Crashed err w1 | Some f \<Rightarrow> Recovered (f err w1))"
  using assms by (simp add: app_defs)

theorem Run_config_error_witness:
  "Run (SetConfigManager (\<lambda>w. (Some ''no file'', w)) (NewAppControllerV3 (traced_app [] [] 0))) [] [] =
   Crashed ''no file'' []"
  by (subst Run_config_error [where err = "''no file''" and ?w1.0 = "[]"])
     (simp_all add: NewAppControllerV3_def traced_app_def)

subsection \<open>The context of a run\<close>

text \<open>
  What \<^verbatim>\<open>GetContext\<close> answers once \<^verbatim>\<open>Run\<close> is over or waiting: no context while there is none, otherwise whether it is cancelled.  \<^verbatim>\<open>Run\<close> makes the context when the
  configuration is loaded, and cancels it in its last step.
\<close>

definition GetContext :: "'w AppControllerV3 \<Rightarrow> event list \<Rightarrow> 'w \<Rightarrow> bool option" where
  "GetContext v3 es w0 =
     (case load_config v3 w0 of
        (Some err, w) \<Rightarrow> None
      | (None, w) \<Rightarrow> Some (case Run v3 es w0 of Returned w' \<Rightarrow> True | _ \<Rightarrow> False))"

text \<open>
  \<^verbatim>\<open>cancel\<close> is called in the last step of \<^verbatim>\<open>Run\<close> and not deferred: after the failed start of a service the context of the services that had
  started is never cancelled, although a program with \<^verbatim>\<open>OnAppRecover\<close> goes on.
\<close>

theorem failed_start_keeps_context:
  assumes "d \<in> set ds" and "startErr d \<noteq> None"
  shows "GetContext (NewAppControllerV3 (traced_app ds stops dur)) es w = Some False"
proof -
  have "first_failure ds \<noteq> None" using assms first_failure_none by metis
  then obtain ok err e where "first_failure ds = Some (ok, err, e)" by (cases "first_failure ds") auto
  then show ?thesis
    using init_loop_traced [of "[]" ds "call_hook (OnAppBeforeInitServices (traced_app ds stops dur)) w"]
    by (simp add: GetContext_def app_defs traced_app_def)
qed

lemma returned_context_cancelled: "Run v3 es w = Returned w' \<Longrightarrow> GetContext v3 es w = Some True"
  by (cases "load_config v3 w"; cases "fst (load_config v3 w)")
     (auto simp: GetContext_def Run_def raise_def split: option.splits)

text \<open>An application with a \<^verbatim>\<open>Config\<close> field is loaded only where \<^verbatim>\<open>checkConfigManager\<close> has run before, which \<^verbatim>\<open>Run\<close> does not call.\<close>

lemma checked_manager_loads:
  assumes "config_field (app v3) = Some m" and "cm v3 = None"
  shows "\<exists>v3'. checkConfigManager config_field v3 = Some v3' \<and> load_config v3' = m \<and> load_config v3 w = (None, w)"
  using assms by (auto simp: checkConfigManager_def load_config_def fun_eq_iff)

end
