(* ===== verification/SqlServices.thy ===== *)
theory SqlServices
  imports Prelude
begin

section \<open>The SQL Server and Oracle services\<close>

text \<open>
  \<^verbatim>\<open>db/mssql/msSql.go\<close> and \<^verbatim>\<open>db/oracle/oracleSql.go\<close>.  A \<^verbatim>\<open>*sql.DB\<close> is a number, \<open>opened\<close> is the ghost set
  of the handles opened and not closed.  What the driver answers (to \<^verbatim>\<open>sql.Open\<close>, to each ping, to
  \<^verbatim>\<open>Close\<close>) is an argument.  The locale \<open>db_service\<close> is the contract the two services and the
  PostgreSQL one share: at most one handle, released by \<^verbatim>\<open>Stop\<close>.
\<close>

subsection \<open>The contract of a database service\<close>

datatype 'o db_call = CStart 'o | CStop 'o

fun db_calls :: "('o \<Rightarrow> 's \<Rightarrow> 's) \<Rightarrow> ('o \<Rightarrow> 's \<Rightarrow> 's) \<Rightarrow> 'o db_call list \<Rightarrow> 's \<Rightarrow> 's" where
  "db_calls start stop [] s = s"
| "db_calls start stop (CStart d # cs) s = db_calls start stop cs (start d s)"
| "db_calls start stop (CStop d # cs) s = db_calls start stop cs (stop d s)"

lemma db_calls_append: "db_calls start stop (cs @ ds) s = db_calls start stop ds (db_calls start stop cs s)"
  by (induction start stop cs s rule: db_calls.induct) simp_all

text \<open>The sequences in which \<^verbatim>\<open>Start\<close> is only called when the service may be started.\<close>

fun disciplined :: "('o \<Rightarrow> 's \<Rightarrow> 's) \<Rightarrow> ('o \<Rightarrow> 's \<Rightarrow> 's) \<Rightarrow> ('s \<Rightarrow> bool) \<Rightarrow> 'o db_call list \<Rightarrow> 's \<Rightarrow> bool" where
  "disciplined start stop ok [] s = True"
| "disciplined start stop ok (CStart d # cs) s \<longleftrightarrow> ok s \<and> disciplined start stop ok cs (start d s)"
| "disciplined start stop ok (CStop d # cs) s \<longleftrightarrow> disciplined start stop ok cs (stop d s)"

lemma disciplined_always: "disciplined start stop (\<lambda>_. True) cs s"
  by (induction cs arbitrary: s) (auto split: db_call.split, metis db_call.exhaust disciplined.simps(2,3))

locale db_service =
  fixes start :: "'o \<Rightarrow> 's \<Rightarrow> 's" and stop :: "'o \<Rightarrow> 's \<Rightarrow> 's"
    and handle :: "'s \<Rightarrow> nat option" and opened_set :: "'s \<Rightarrow> nat set"
    and may_start :: "'s \<Rightarrow> bool"
  assumes stop_handle: "handle (stop d s) = None"
    and stop_opened: "opened_set (stop d s) = opened_set s - set_option (handle s)"
    and start_opened: "may_start s \<Longrightarrow> opened_set s \<subseteq> set_option (handle s) \<Longrightarrow>
          opened_set (start d s) \<subseteq> set_option (handle (start d s))"
begin

lemma only_current_open:
  "opened_set s \<subseteq> set_option (handle s) \<Longrightarrow> disciplined start stop may_start cs s \<Longrightarrow>
   opened_set (db_calls start stop cs s) \<subseteq> set_option (handle (db_calls start stop cs s))"
proof (induction cs arbitrary: s)
  case (Cons c cs)
  show ?case
  proof (cases c)
    case (CStart d)
    then show ?thesis using Cons start_opened by simp
  next
    case (CStop d)
    have "opened_set (stop d s) \<subseteq> set_option (handle (stop d s))"
      using Cons.prems(1) stop_opened by auto
    then show ?thesis using Cons CStop by simp
  qed
qed simp

lemma nothing_left_open:
  "opened_set s \<subseteq> set_option (handle s) \<Longrightarrow> disciplined start stop may_start cs s \<Longrightarrow>
   opened_set (db_calls start stop (cs @ [CStop d]) s) = {} \<and>
   handle (db_calls start stop (cs @ [CStop d]) s) = None"
  using only_current_open [of s cs] stop_opened stop_handle by (simp add: db_calls_append)

end

subsection \<open>SQL Server\<close>

record ConfigMSDB =
  ms_DSN :: string
  MaxOpenConns :: int
  MaxIdleConns :: int
  ConnMaxLifetime :: int
  ConnMaxIdleTime :: int

datatype sql_error = MsError int | OtherError string

definition isTransient :: "sql_error \<Rightarrow> bool" where
  "isTransient e = (case e of
      MsError n \<Rightarrow> n \<in> set [64, 233, 4060, 4221, 10053, 10054, 10928, 10929, 40020, 40143, 40166, 40197,
        40501, 40540, 40613, 42108, 42109, 49918, 49919, 49920, 1205, 1222]
    | OtherError _ \<Rightarrow> False)"

text \<open>The retry loop, from a given attempt on; the second component is the time slept.\<close>

function ping_from :: "(nat \<Rightarrow> sql_error option) \<Rightarrow> nat \<Rightarrow> sql_error option \<times> duration" where
  "ping_from ping attempt =
     (case ping attempt of
        None \<Rightarrow> (None, 0)
      | Some e \<Rightarrow>
          if 3 \<le> attempt \<or> \<not> isTransient e then (Some e, 0)
          else let (r, t) = ping_from ping (Suc attempt) in (r, 1000000000 + t))"
  by pat_completeness auto

termination by (relation "measure (\<lambda>(_, n). 4 - n)") auto

declare ping_from.simps [simp del]

definition pingWithRetry :: "(nat \<Rightarrow> sql_error option) \<Rightarrow> sql_error option \<times> duration" where
  "pingWithRetry ping = ping_from ping 0"

record driver =
  sqlOpen :: "sql_error option"
  pings :: "nat \<Rightarrow> sql_error option"
  closeErr :: "sql_error option"

record MsSQL =
  ms_config :: ConfigMSDB
  db :: "nat option"
  db_limits :: "(string \<times> int) list"
  opened :: "nat set"
  fresh :: nat

definition NewMsSQL :: "ConfigMSDB \<Rightarrow> MsSQL" where
  "NewMsSQL cfg = \<lparr>ms_config = cfg, db = None, db_limits = [], opened = {}, fresh = 0\<rparr>"

text \<open>The limits set on the handle: only the positive ones, durations in nanoseconds.\<close>

definition limits :: "int \<Rightarrow> int \<Rightarrow> int \<Rightarrow> int \<Rightarrow> (string \<times> int) list" where
  "limits mo mi lt it =
     (if mo > 0 then [(''MaxOpenConns'', mo)] else []) @ (if mi > 0 then [(''MaxIdleConns'', mi)] else []) @
     (if lt > 0 then [(''ConnMaxLifetime'', lt * 1000000000)] else []) @
     (if it > 0 then [(''ConnMaxIdleTime'', it * 1000000000)] else [])"

definition ms_Start :: "driver \<Rightarrow> MsSQL \<Rightarrow> sql_error option \<times> MsSQL" where
  "ms_Start d ms =
     (case db ms of
        Some _ \<Rightarrow> (Some (OtherError ''mssql is already started''), ms)
      | None \<Rightarrow>
          (case sqlOpen d of
             Some e \<Rightarrow> (Some e, ms\<lparr>db := None\<rparr>)
           | None \<Rightarrow>
               let h = fresh ms; cfg = ms_config ms;
                   ms1 = ms\<lparr>db := Some h, opened := insert h (opened ms), fresh := Suc h,
                     db_limits := limits (MaxOpenConns cfg) (MaxIdleConns cfg) (ConnMaxLifetime cfg) (ConnMaxIdleTime cfg)\<rparr>
               in case fst (pingWithRetry (pings d)) of
                    Some e \<Rightarrow> (Some e, ms1\<lparr>opened := opened ms1 - {h}, db := None\<rparr>)
                  | None \<Rightarrow> (None, ms1)))"

definition ms_Stop :: "driver \<Rightarrow> MsSQL \<Rightarrow> sql_error option \<times> MsSQL" where
  "ms_Stop d ms =
     (case db ms of
        None \<Rightarrow> (None, ms)
      | Some h \<Rightarrow> (closeErr d, ms\<lparr>db := None, opened := opened ms - {h}\<rparr>))"

definition ms_GetDB :: "MsSQL \<Rightarrow> nat option" where
  "ms_GetDB ms = db ms"

interpretation ms: db_service "\<lambda>d s. snd (ms_Start d s)" "\<lambda>d s. snd (ms_Stop d s)" db opened "\<lambda>_. True"
  by unfold_locales
     (auto simp: ms_Start_def ms_Stop_def Let_def split: option.splits)

subsection \<open>Oracle\<close>

record ConfigOracleDB =
  Server :: string
  Port :: int
  Service :: string
  User :: string
  Password :: string
  TraceFile :: string
  Dsn :: string
  UrlParams :: "(string, string) gomap"
  InitWithoutPing :: bool
  ora_MaxOpenConns :: int
  ora_MaxIdleConns :: int
  ora_ConnMaxLifetime :: int
  ora_ConnMaxIdleTime :: int

record OracleSQL =
  ora_config :: ConfigOracleDB
  connection :: "nat option"
  ora_limits :: "(string \<times> int) list"
  ora_url :: string
  ora_opened :: "nat set"
  ora_fresh :: nat

definition NewOracleDB :: "ConfigOracleDB \<Rightarrow> OracleSQL" where
  "NewOracleDB cfg = \<lparr>ora_config = cfg, connection = None, ora_limits = [], ora_url = [], ora_opened = {}, ora_fresh = 0\<rparr>"

definition urlOptions :: "ConfigOracleDB \<Rightarrow> (string, string) gomap" where
  "urlOptions cfg =
     (if TraceFile cfg \<noteq> [] then fmupd ''trace file'' (TraceFile cfg) fmempty else fmempty) ++\<^sub>f UrlParams cfg"

text \<open>\<open>buildUrl\<close> is \<^verbatim>\<open>goOra.BuildUrl\<close>.\<close>

type_synonym url_builder = "string \<Rightarrow> int \<Rightarrow> string \<Rightarrow> string \<Rightarrow> string \<Rightarrow> (string, string) gomap \<Rightarrow> string"

definition databaseURL :: "url_builder \<Rightarrow> ConfigOracleDB \<Rightarrow> string" where
  "databaseURL buildUrl cfg =
     (if Dsn cfg = [] then buildUrl (Server cfg) (Port cfg) (Service cfg) (User cfg) (Password cfg) (urlOptions cfg)
      else Dsn cfg)"

definition ora_doStart :: "url_builder \<Rightarrow> driver \<Rightarrow> OracleSQL \<Rightarrow> sql_error option \<times> OracleSQL" where
  "ora_doStart buildUrl d s =
     (let cfg = ora_config s; s0 = s\<lparr>ora_url := databaseURL buildUrl cfg\<rparr> in
      case sqlOpen d of
        Some e \<Rightarrow> (Some e, s0\<lparr>connection := None\<rparr>)
      | None \<Rightarrow>
          let h = ora_fresh s;
              s1 = s0\<lparr>connection := Some h, ora_opened := insert h (ora_opened s), ora_fresh := Suc h,
                ora_limits := limits (ora_MaxOpenConns cfg) (ora_MaxIdleConns cfg) (ora_ConnMaxLifetime cfg) (ora_ConnMaxIdleTime cfg)\<rparr>
          in (if \<not> InitWithoutPing cfg then pings d 0 else None, s1))"

definition ora_doStop :: "driver \<Rightarrow> OracleSQL \<Rightarrow> sql_error option \<times> OracleSQL" where
  "ora_doStop d s =
     (case connection s of
        None \<Rightarrow> (None, s)
      | Some h \<Rightarrow> (closeErr d, s\<lparr>connection := None, ora_opened := ora_opened s - {h}\<rparr>))"

text \<open>\<^verbatim>\<open>Start\<close> and \<^verbatim>\<open>Stop\<close> are the two under the mutex.\<close>

definition ora_Start :: "url_builder \<Rightarrow> driver \<Rightarrow> OracleSQL \<Rightarrow> sql_error option \<times> OracleSQL" where
  "ora_Start buildUrl d s = ora_doStart buildUrl d s"

definition ora_Stop :: "driver \<Rightarrow> OracleSQL \<Rightarrow> sql_error option \<times> OracleSQL" where
  "ora_Stop d s = ora_doStop d s"

lemmas ora_locked [simp] = ora_Start_def ora_Stop_def

definition ora_GetDB :: "OracleSQL \<Rightarrow> nat option" where
  "ora_GetDB s = connection s"

definition ora_DoRestart :: "url_builder \<Rightarrow> driver \<Rightarrow> OracleSQL \<Rightarrow> OracleSQL" where
  "ora_DoRestart buildUrl d s = snd (ora_doStart buildUrl d (snd (ora_doStop d s)))"

definition ora_DoPing :: "driver \<Rightarrow> OracleSQL \<Rightarrow> sql_error option" where
  "ora_DoPing d s =
     (case connection s of None \<Rightarrow> Some (OtherError ''connection is nil'') | Some _ \<Rightarrow> pings d 0)"

definition checkConnection :: "url_builder \<Rightarrow> driver \<Rightarrow> OracleSQL \<Rightarrow> nat option \<times> OracleSQL" where
  "checkConnection buildUrl d s =
     (let s1 = (case ora_DoPing d s of Some _ \<Rightarrow> ora_DoRestart buildUrl d s | None \<Rightarrow> s) in (ora_GetDB s1, s1))"

lemma ora_db_service:
  "db_service (\<lambda>d s. snd (ora_doStart bu d s)) (\<lambda>d s. snd (ora_doStop d s)) connection ora_opened
     (\<lambda>s. connection s = None)"
  by unfold_locales
     (auto simp: ora_doStart_def ora_doStop_def Let_def split: option.splits)

interpretation ora: db_service "\<lambda>d s. snd (ora_doStart bu d s)" "\<lambda>d s. snd (ora_doStop d s)" connection ora_opened
     "\<lambda>s. connection s = None" for bu
  by (rule ora_db_service)

subsection \<open>The retry loop\<close>

lemma ping_from_spec:
  "n \<le> 3 \<Longrightarrow>
   (fst (ping_from ping n) = None \<longleftrightarrow>
      (\<exists>k. n \<le> k \<and> k \<le> 3 \<and> ping k = None \<and> (\<forall>j. n \<le> j \<and> j < k \<longrightarrow> (\<exists>e. ping j = Some e \<and> isTransient e)))) \<and>
   snd (ping_from ping n) \<le> int (3 - n) * 1000000000"
proof (induction ping n rule: ping_from.induct)
  case (1 ping n)
  show ?case
  proof (cases "ping n")
    case None
    then show ?thesis using 1(2) by (subst (1 2) ping_from.simps) (auto intro!: exI [of _ n])
  next
    case (Some e)
    show ?thesis
    proof (cases "3 \<le> n \<or> \<not> isTransient e")
      case True
      have "fst (ping_from ping n) = Some e" "snd (ping_from ping n) = 0"
        using True Some by (subst ping_from.simps, simp)+
      moreover have "\<not> (n \<le> k \<and> k \<le> 3 \<and> ping k = None \<and> (\<forall>j. n \<le> j \<and> j < k \<longrightarrow> (\<exists>e. ping j = Some e \<and> isTransient e)))" for k
        using True Some by (cases "k = n") (auto dest!: spec [of _ n])
      ultimately show ?thesis by simp
    next
      case False
      then have n: "Suc n \<le> 3" by simp
      have step: "ping_from ping n = (fst (ping_from ping (Suc n)), 1000000000 + snd (ping_from ping (Suc n)))"
        using False Some by (subst ping_from.simps) (simp add: case_prod_beta Let_def)
      note ih = 1(1) [OF Some False n]
      have shift: "(n \<le> k \<and> k \<le> 3 \<and> ping k = None \<and> (\<forall>j. n \<le> j \<and> j < k \<longrightarrow> (\<exists>e. ping j = Some e \<and> isTransient e)))
          \<longleftrightarrow> (Suc n \<le> k \<and> k \<le> 3 \<and> ping k = None \<and> (\<forall>j. Suc n \<le> j \<and> j < k \<longrightarrow> (\<exists>e. ping j = Some e \<and> isTransient e)))" for k
        using False Some by (metis Suc_leD le_neq_implies_less less_eq_Suc_le option.distinct(1))
      have "int (3 - n) = 1 + int (3 - Suc n)" using n by simp
      then show ?thesis unfolding step shift using ih by (simp add: algebra_simps)
    qed
  qed
qed

subsection \<open>Properties\<close>

text \<open>
  Whatever sequence of \<^verbatim>\<open>Start\<close> and \<^verbatim>\<open>Stop\<close> calls runs on a new SQL Server service, and whatever the driver
  answers to each, no handle but the current one is ever left open, and after a \<^verbatim>\<open>Stop\<close> none is.
\<close>
theorem mssql_no_leak:
  "opened (db_calls (\<lambda>d s. snd (ms_Start d s)) (\<lambda>d s. snd (ms_Stop d s)) cs (NewMsSQL cfg))
     \<subseteq> set_option (db (db_calls (\<lambda>d s. snd (ms_Start d s)) (\<lambda>d s. snd (ms_Stop d s)) cs (NewMsSQL cfg))) \<and>
   opened (db_calls (\<lambda>d s. snd (ms_Start d s)) (\<lambda>d s. snd (ms_Stop d s)) (cs @ [CStop d]) (NewMsSQL cfg)) = {}"
proof -
  have new: "opened (NewMsSQL cfg) \<subseteq> set_option (db (NewMsSQL cfg))" by (simp add: NewMsSQL_def)
  show ?thesis
    using ms.only_current_open [OF new disciplined_always] ms.nothing_left_open [OF new disciplined_always]
    by blast
qed

text \<open>
  \<^verbatim>\<open>pingWithRetry\<close> succeeds exactly when one of the first four pings succeeds and every ping before it failed
  with a transient error; it sleeps three seconds at most.
\<close>
theorem pingWithRetry_spec:
  "(fst (pingWithRetry ping) = None \<longleftrightarrow>
      (\<exists>k \<le> 3. ping k = None \<and> (\<forall>j < k. \<exists>e. ping j = Some e \<and> isTransient e))) \<and>
   snd (pingWithRetry ping) \<le> 3000000000"
  using ping_from_spec [of 0 ping] by (simp add: pingWithRetry_def)

theorem pingWithRetry_spec_witness:
  "fst (pingWithRetry (\<lambda>n. if n < 2 then Some (MsError 1205) else None)) = None"
proof -
  let ?p = "\<lambda>n :: nat. if n < 2 then Some (MsError 1205) else None"
  have "\<exists>k \<le> 3. ?p k = None \<and> (\<forall>j < k. \<exists>e. ?p j = Some e \<and> isTransient e)"
    by (intro exI [of _ 2]) (simp add: isTransient_def)
  then show ?thesis using pingWithRetry_spec [of ?p] by blast
qed

end
