(* ===== verification/Postgres.thy ===== *)
theory Postgres
  imports SqlServices
begin

section \<open>The PostgreSQL service\<close>

text \<open>
  \<^verbatim>\<open>db/postgres/postgreSql.go\<close>.  Pools, pooled connections and contexts are numbers drawn from \<open>fresh\<close>;
  \<open>opened\<close> and \<open>execs\<close> are ghost fields, the pools opened and not closed and the SQL texts the service
  itself executed.  What \<^verbatim>\<open>pgxpool\<close> answers during one start is the argument \<open>pg_env\<close>.  \<^verbatim>\<open>DoRestart\<close> releases
  the mutex while it sleeps, so it is two sections, \<open>DoRestart_begin\<close> and \<open>DoRestart_end\<close>, between which other
  calls may run: \<open>pg_call\<close>.
\<close>

subsection \<open>Data\<close>

record ConfigPostgreSQL =
  DSN :: string
  MinConns :: int
  MaxConns :: int
  HealthCheckPeriod :: duration
  MaxConnIdleTime :: duration
  MaxConnLifetime :: duration
  MaxConnLifetimeJitter :: duration
  WithInitPing :: bool
  ShowInitParams :: bool

record pool_cfg =
  pMinConns :: int
  pMaxConns :: int
  pHealthCheckPeriod :: duration
  pMaxConnIdleTime :: duration
  pMaxConnLifetime :: duration
  pMaxConnLifetimeJitter :: duration

record pg_env =
  parseConfig :: "string \<Rightarrow> string + pool_cfg"
  newWithConfig :: "pool_cfg \<Rightarrow> string option"
  acquire :: "string option"
  exec :: "string \<Rightarrow> string option"
  pingErr :: "string option"

definition restartBaseDelay :: duration where
  "restartBaseDelay = 5 * 1000000000"

definition restartMaxDelay :: duration where
  "restartMaxDelay = 5 * 60 * 1000000000"

record PostgreSQL =
  config :: ConfigPostgreSQL
  cancel :: "nat option"
  dbpool :: "nat option"
  dbpool_cfg :: "pool_cfg option"
  stdlibDB :: "nat option"
  restarting :: bool
  lastRestartAttempt :: time
  restartBackoff :: duration
  conn :: "nat option"
  notificationCh :: "string list"
  notifyName :: string
  errorCh :: "string list"
  opened :: "nat set"
  execs :: "string list"
  fresh :: nat

definition NewPostgreSQL :: "ConfigPostgreSQL \<Rightarrow> string \<Rightarrow> PostgreSQL" where
  "NewPostgreSQL cfg notify =
     \<lparr>config = cfg, cancel = None, dbpool = None, dbpool_cfg = None, stdlibDB = None, restarting = False,
      lastRestartAttempt = 0, restartBackoff = 0, conn = None, notificationCh = [], notifyName = notify,
      errorCh = [], opened = {}, execs = [], fresh = 0\<rparr>"

text \<open>The regular expression \<^verbatim>\<open>^[a-zA-Z_][a-zA-Z0-9_]*$\<close>.\<close>

definition ident_start :: "char \<Rightarrow> bool" where
  "ident_start c \<longleftrightarrow> (let n = of_char c :: nat in 97 \<le> n \<and> n \<le> 122 \<or> 65 \<le> n \<and> n \<le> 90 \<or> n = 95)"

definition ident_char :: "char \<Rightarrow> bool" where
  "ident_char c \<longleftrightarrow> ident_start c \<or> (let n = of_char c :: nat in 48 \<le> n \<and> n \<le> 57)"

definition notifyNamePattern :: "string \<Rightarrow> bool" where
  "notifyNamePattern s = (case s of [] \<Rightarrow> False | c # cs \<Rightarrow> ident_start c \<and> list_all ident_char cs)"

subsection \<open>Start and Stop\<close>

definition pool_config :: "ConfigPostgreSQL \<Rightarrow> pool_cfg \<Rightarrow> pool_cfg" where
  "pool_config c p =
     p\<lparr>pMinConns := (if MinConns c > -1 then MinConns c else pMinConns p),
       pMaxConns := (if MaxConns c > -1 then MaxConns c else pMaxConns p),
       pHealthCheckPeriod := (if HealthCheckPeriod c > 0 then HealthCheckPeriod c else pHealthCheckPeriod p),
       pMaxConnIdleTime := (if MaxConnIdleTime c > 0 then MaxConnIdleTime c else pMaxConnIdleTime p),
       pMaxConnLifetime := (if MaxConnLifetime c > 0 then MaxConnLifetime c else pMaxConnLifetime p),
       pMaxConnLifetimeJitter := (if MaxConnLifetimeJitter c > 0 then MaxConnLifetimeJitter c else pMaxConnLifetimeJitter p)\<rparr>"

definition start_listen :: "pg_env \<Rightarrow> PostgreSQL \<Rightarrow> string option \<times> PostgreSQL" where
  "start_listen e s =
     (if \<not> notifyNamePattern (notifyName s) then (Some (''invalid notify channel name: '' @ notifyName s), s)
      else case acquire e of
        Some err \<Rightarrow> (Some err, s\<lparr>conn := None\<rparr>)
      | None \<Rightarrow>
          let cmd = ''LISTEN '' @ notifyName s;
              s1 = s\<lparr>conn := Some (fresh s), fresh := Suc (fresh s), execs := execs s @ [cmd]\<rparr>
          in case exec e cmd of
               None \<Rightarrow> (pingErr e, s1)
             | Some err \<Rightarrow> (Some err, s1\<lparr>conn := None\<rparr>))"

definition doStart :: "pg_env \<Rightarrow> PostgreSQL \<Rightarrow> string option \<times> PostgreSQL" where
  "doStart e s0 =
     (let s = s0\<lparr>cancel := Some (fresh s0), fresh := Suc (fresh s0)\<rparr> in
      case parseConfig e (DSN (config s)) of
        Inl err \<Rightarrow> (Some err, s)
      | Inr p0 \<Rightarrow>
          let p = pool_config (config s) p0 in
          (case newWithConfig e p of
             Some err \<Rightarrow> (Some err, s\<lparr>dbpool := None\<rparr>)
           | None \<Rightarrow>
               let h = fresh s;
                   s1 = s\<lparr>dbpool := Some h, dbpool_cfg := Some p, stdlibDB := Some h,
                          opened := insert h (opened s), fresh := Suc h\<rparr>
               in if notifyName s1 \<noteq> [] then start_listen e s1
                  else if WithInitPing (config s1) then (pingErr e, s1)
                  else (None, s1)))"

definition Start :: "pg_env \<Rightarrow> PostgreSQL \<Rightarrow> string option \<times> PostgreSQL" where
  "Start e s = (if restarting s then (Some ''restart is in progress'', s) else doStart e s)"

definition doStop :: "PostgreSQL \<Rightarrow> PostgreSQL" where
  "doStop s =
     (let s1 = (if notifyName s \<noteq> [] then s\<lparr>conn := None\<rparr> else s);
          s2 = s1\<lparr>cancel := None\<rparr>;
          s3 = s2\<lparr>opened := opened s2 - set_option (dbpool s2), dbpool := None\<rparr>
      in s3\<lparr>stdlibDB := None\<rparr>)"

definition Stop :: "PostgreSQL \<Rightarrow> PostgreSQL" where
  "Stop s = doStop s"

definition GetDB :: "PostgreSQL \<Rightarrow> nat option \<times> PostgreSQL" where
  "GetDB s =
     (case dbpool s of
        None \<Rightarrow> (None, s)
      | Some h \<Rightarrow> (case stdlibDB s of
          None \<Rightarrow> (Some h, s\<lparr>stdlibDB := Some h\<rparr>)
        | Some d \<Rightarrow> (Some d, s)))"

subsection \<open>Restart\<close>

text \<open>\<open>j\<close> is the value of \<^verbatim>\<open>rand.Int63n(2*jitter+1)\<close>.\<close>

definition jitterDuration :: "int \<Rightarrow> duration \<Rightarrow> duration" where
  "jitterDuration j d = (let jitter = d div 5 in if jitter = 0 then d else d - jitter + j)"

definition next_backoff :: "duration \<Rightarrow> duration" where
  "next_backoff b = (if b = 0 then restartBaseDelay else if 2 * b > restartMaxDelay then restartMaxDelay else 2 * b)"

definition DoRestart_begin :: "time \<Rightarrow> int \<Rightarrow> PostgreSQL \<Rightarrow> (string + duration) \<times> PostgreSQL" where
  "DoRestart_begin now j s =
     (if restarting s then (Inl ''restart is in progress'', s)
      else let b = next_backoff (restartBackoff s);
               s1 = s\<lparr>restarting := True, restartBackoff := b, lastRestartAttempt := now\<rparr>
           in (Inr (jitterDuration j b), doStop s1))"

definition DoRestart_end :: "pg_env \<Rightarrow> PostgreSQL \<Rightarrow> string option \<times> PostgreSQL" where
  "DoRestart_end e s =
     (let (err, s1) = doStart e s in
      (err, (if err = None then s1\<lparr>restartBackoff := 0\<rparr> else s1)\<lparr>restarting := False\<rparr>))"

text \<open>
  \<^verbatim>\<open>DoPing\<close> reads the pool under the mutex and pings it without; it restarts when there was a pool and the ping failed, in whatever
  state the service is then.  \<open>pool\<close> is what \<open>GetPgxDB\<close> gave before, \<^const>\<open>None\<close> in the result is no restart.
\<close>

definition GetPgxDB :: "PostgreSQL \<Rightarrow> nat option" where
  "GetPgxDB s = dbpool s"

definition DoPing :: "nat option \<Rightarrow> (nat \<Rightarrow> string option) \<Rightarrow> time \<Rightarrow> int \<Rightarrow> PostgreSQL \<Rightarrow> (string + duration) option \<times> PostgreSQL" where
  "DoPing pool ping now j s =
     (case pool of
        None \<Rightarrow> (None, s)
      | Some h \<Rightarrow> (case ping h of
          None \<Rightarrow> (None, s)
        | Some _ \<Rightarrow> (let (r, s1) = DoRestart_begin now j s in (Some r, s1))))"

subsection \<open>Queries\<close>

text \<open>
  \<^verbatim>\<open>Query\<close>, \<^verbatim>\<open>QueryRow\<close> and \<^verbatim>\<open>Exec\<close> read the pool under the mutex and call it without; \<open>on_pool\<close> is what the pool answers to the call.
  \<^const>\<open>None\<close> is the panic of a call on a nil pool.
\<close>

definition Query :: "(nat \<Rightarrow> string \<Rightarrow> 'a list \<Rightarrow> string + 'rows) \<Rightarrow> string \<Rightarrow> 'a list \<Rightarrow> PostgreSQL \<Rightarrow> (string + 'rows) option" where
  "Query on_pool sql as s = (case dbpool s of None \<Rightarrow> None | Some h \<Rightarrow> Some (on_pool h sql as))"

definition QueryRow :: "(nat \<Rightarrow> string \<Rightarrow> 'a list \<Rightarrow> 'row) \<Rightarrow> string \<Rightarrow> 'a list \<Rightarrow> PostgreSQL \<Rightarrow> 'row option" where
  "QueryRow on_pool sql as s = (case dbpool s of None \<Rightarrow> None | Some h \<Rightarrow> Some (on_pool h sql as))"

definition Exec :: "(nat \<Rightarrow> string \<Rightarrow> 'a list \<Rightarrow> string + 'tag) \<Rightarrow> string \<Rightarrow> 'a list \<Rightarrow> PostgreSQL \<Rightarrow> (string + 'tag) option" where
  "Exec on_pool sql as s = (case dbpool s of None \<Rightarrow> None | Some h \<Rightarrow> Some (on_pool h sql as))"

text \<open>\<^verbatim>\<open>LogStats\<close>: the line logged, of the four numbers of the pool's statistics.\<close>

record pool_stat =
  stMaxConns :: int
  stAcquiredConns :: int
  stTotalConns :: int
  stIdleConns :: int

definition LogStats :: "(nat \<Rightarrow> pool_stat) \<Rightarrow> PostgreSQL \<Rightarrow> (string \<times> int) list option" where
  "LogStats stat s =
     (case dbpool s of
        None \<Rightarrow> None
      | Some h \<Rightarrow> Some [(''MaxConns'', stMaxConns (stat h)), (''AcquiredConns'', stAcquiredConns (stat h)),
          (''TotalConns'', stTotalConns (stat h)), (''IdleConns'', stIdleConns (stat h))])"

subsection \<open>The listener\<close>

datatype listen_end = StillWaiting | BlockedOnError | PingScheduled

fun listenForEvent :: "(string + string) list \<Rightarrow> PostgreSQL \<Rightarrow> listen_end \<times> PostgreSQL" where
  "listenForEvent [] s = (StillWaiting, s)"
| "listenForEvent (Inr n # es) s =
     listenForEvent es (if length (notificationCh s) < 64 then s\<lparr>notificationCh := notificationCh s @ [n]\<rparr> else s)"
| "listenForEvent (Inl err # es) s =
     (if length (errorCh s) < 1 then (PingScheduled, s\<lparr>errorCh := errorCh s @ [err]\<rparr>) else (BlockedOnError, s))"

subsection \<open>Runs\<close>

text \<open>Every call but \<^verbatim>\<open>Start\<close>; the pool a ping found may be an old one.\<close>

inductive pg_call :: "PostgreSQL \<Rightarrow> PostgreSQL \<Rightarrow> bool" where
  stop: "pg_call s (Stop s)"
| getDB: "pg_call s (snd (GetDB s))"
| restart: "pg_call s (snd (DoRestart_begin now j s))"
| restarted: "restarting s \<Longrightarrow> pg_call s (snd (DoRestart_end e s))"
| ping: "pg_call s (snd (DoPing pool p now j s))"
| listen: "pg_call s (snd (listenForEvent es s))"
| drain: "pg_call s (s\<lparr>notificationCh := ns, errorCh := es\<rparr>)"

inductive pg_reachable :: "PostgreSQL \<Rightarrow> bool" where
  new: "pg_reachable (NewPostgreSQL cfg notify)"
| start: "pg_reachable s \<Longrightarrow> pg_reachable (snd (Start e s))"
| step: "pg_reachable s \<Longrightarrow> pg_call s s' \<Longrightarrow> pg_reachable s'"

text \<open>The states of a service that is only started when it has no pool.\<close>

inductive pg_orderly :: "PostgreSQL \<Rightarrow> bool" where
  new: "pg_orderly (NewPostgreSQL cfg notify)"
| start: "pg_orderly s \<Longrightarrow> dbpool s = None \<Longrightarrow> pg_orderly (snd (Start e s))"
| step: "pg_orderly s \<Longrightarrow> pg_call s s' \<Longrightarrow> pg_orderly s'"

definition listen_cmd :: "string \<Rightarrow> bool" where
  "listen_cmd c \<longleftrightarrow> (\<exists>n. notifyNamePattern n \<and> c = ''LISTEN '' @ n)"

definition pg_inv :: "PostgreSQL \<Rightarrow> bool" where
  "pg_inv s \<longleftrightarrow> (\<forall>h. dbpool s = Some h \<longrightarrow> stdlibDB s = None \<or> stdlibDB s = Some h) \<and> (\<forall>c \<in> set (execs s). listen_cmd c)"

lemma start_listen_inv [inv_intros]: "pg_inv s \<Longrightarrow> pg_inv (snd (start_listen e s))"
  by (auto simp: start_listen_def pg_inv_def listen_cmd_def Let_def split: option.split)

lemma doStart_inv [inv_intros]: "pg_inv s \<Longrightarrow> pg_inv (snd (doStart e s))"
  unfolding doStart_def Let_def
  by (auto intro!: start_listen_inv split: sum.split option.split) (auto simp: pg_inv_def)

lemma doStop_inv [inv_intros]: "pg_inv s \<Longrightarrow> pg_inv (doStop s)"
  by (auto simp: doStop_def pg_inv_def Let_def)

lemma listen_inv [inv_intros]: "pg_inv s \<Longrightarrow> pg_inv (snd (listenForEvent es s))"
  by (induction es s rule: listenForEvent.induct) (auto simp: pg_inv_def)

lemma pg_inv_flags [simp]:
  "pg_inv (s\<lparr>restarting := r\<rparr>) = pg_inv s" "pg_inv (s\<lparr>restartBackoff := b\<rparr>) = pg_inv s"
  "pg_inv (s\<lparr>lastRestartAttempt := t\<rparr>) = pg_inv s" "pg_inv (s\<lparr>notificationCh := ns\<rparr>) = pg_inv s"
  "pg_inv (s\<lparr>errorCh := es\<rparr>) = pg_inv s"
  by (simp_all add: pg_inv_def)

lemma DoRestart_inv [inv_intros]:
  "pg_inv s \<Longrightarrow> pg_inv (snd (DoRestart_begin now j s))" "pg_inv s \<Longrightarrow> pg_inv (snd (DoRestart_end e s))"
  using doStart_inv [of s e]
  by (auto simp: DoRestart_begin_def DoRestart_end_def Let_def intro!: doStop_inv split: prod.split)

lemma DoPing_cases: "snd (DoPing pool p now j s) = s \<or> snd (DoPing pool p now j s) = snd (DoRestart_begin now j s)"
  by (auto simp: DoPing_def split: option.split prod.split)

lemma pg_call_inv: "pg_call s s' \<Longrightarrow> pg_inv s \<Longrightarrow> pg_inv s'"
proof (induction rule: pg_call.induct)
  case (ping s pool p now j)
  then show ?case using DoPing_cases [of pool p now j s] by (auto intro: inv_intros)
next
  case (getDB s)
  then show ?case by (auto simp: GetDB_def pg_inv_def split: option.split)
qed (auto simp: Stop_def intro: inv_intros)

lemma pg_reachable_inv: "pg_reachable s \<Longrightarrow> pg_inv s"
  by (induction rule: pg_reachable.induct)
     (auto simp: Start_def intro: inv_intros pg_call_inv, simp add: NewPostgreSQL_def pg_inv_def)

lemma pg_orderly_reachable: "pg_orderly s \<Longrightarrow> pg_reachable s"
  by (induction rule: pg_orderly.induct) (auto intro: pg_reachable.intros)

subsection \<open>One pool\<close>

text \<open>A restart that sleeps has closed the pool, and only it may open the next one.\<close>

definition pool_inv :: "PostgreSQL \<Rightarrow> bool" where
  "pool_inv s \<longleftrightarrow> opened s = set_option (dbpool s) \<and> (restarting s \<longrightarrow> dbpool s = None)"

lemma doStart_pool:
  "dbpool s = None \<Longrightarrow> opened s = {} \<Longrightarrow> opened (snd (doStart e s)) = set_option (dbpool (snd (doStart e s)))"
  by (simp add: doStart_def start_listen_def Let_def split: sum.split option.split)

lemma doStop_pool: "opened s = set_option (dbpool s) \<Longrightarrow> opened (doStop s) = {} \<and> dbpool (doStop s) = None"
  by (auto simp: doStop_def Let_def)

lemma doStart_keeps [simp]:
  "restartBackoff (snd (doStart e s)) = restartBackoff s" "restarting (snd (doStart e s)) = restarting s"
  by (simp_all add: doStart_def start_listen_def Let_def split: sum.split option.split)

lemma doStop_keeps [simp]: "restartBackoff (doStop s) = restartBackoff s" "restarting (doStop s) = restarting s"
  by (simp_all add: doStop_def Let_def)

lemma listen_pool: "dbpool (snd (listenForEvent es s)) = dbpool s \<and> opened (snd (listenForEvent es s)) = opened s \<and>
    restarting (snd (listenForEvent es s)) = restarting s"
  by (induction es s rule: listenForEvent.induct) auto

interpretation pg: db_service "\<lambda>e s. snd (doStart e s)" "\<lambda>_ s. doStop s" dbpool opened "\<lambda>s. dbpool s = None"
proof
  fix e s
  show "opened (snd (doStart e s)) \<subseteq> set_option (dbpool (snd (doStart e s)))"
    if "dbpool s = None" "opened s \<subseteq> set_option (dbpool s)"
    using that by (auto simp: doStart_def start_listen_def Let_def split: sum.splits option.splits if_splits)
qed (auto simp: doStop_def Let_def)

lemma restart_begin_pool: "pool_inv s \<Longrightarrow> pool_inv (snd (DoRestart_begin now j s))"
  by (auto simp: pool_inv_def DoRestart_begin_def Let_def doStop_pool)

lemma pg_call_pool: "pg_call s s' \<Longrightarrow> pool_inv s \<Longrightarrow> pool_inv s'"
proof (induction rule: pg_call.induct)
  case (ping s pool p now j)
  then show ?case using DoPing_cases [of pool p now j s] restart_begin_pool by auto
next
  case (restarted s e)
  then show ?case using doStart_pool [of s e] by (simp add: pool_inv_def DoRestart_end_def case_prod_beta)
qed (simp_all add: restart_begin_pool, auto simp: pool_inv_def Stop_def doStop_pool GetDB_def listen_pool split: option.split)

lemma pg_orderly_pool: "pg_orderly s \<Longrightarrow> pool_inv s"
proof (induction rule: pg_orderly.induct)
  case (start s e)
  then show ?case using doStart_pool [of s e] by (auto simp: pool_inv_def Start_def)
qed (simp_all add: pg_call_pool, simp add: pool_inv_def NewPostgreSQL_def)

subsection \<open>The goroutines in the background\<close>

text \<open>
  The goroutines of a service that its caller does not wait for: listeners, pings and the sleep of a restart.  A ping that has begun has not read the pool yet
  (\<open>PingNew\<close>) or has found one (\<open>PingFound\<close>); a restart that sleeps shows as \<open>restarting\<close>.  \<open>late\<close> is ghost: at the last \<^verbatim>\<open>Stop\<close> a restart was asleep or a ping
  had already found the pool.
\<close>

datatype ping = PingNew | PingFound nat

record pg_live =
  pg_core :: PostgreSQL
  live_pings :: "ping list"
  late :: bool

text \<open>
  A listener receives, and when its wait fails begins a ping; a ping begins (a listener that waited for room in the error channel, or a call of the application); a ping
  reads the pool; a ping has its answer, and may begin a restart; the sleep of a restart ends; the application restarts a service that has a pool; it reads the channels.
\<close>

datatype pg_event =
    PgListen "(string + string) list" | PgBegin | PgRead nat | PgAnswer nat "string option" time int | PgWake pg_env | PgRestart time int
  | PgDrain "string list" "string list"

definition drop_ping :: "nat \<Rightarrow> pg_live \<Rightarrow> pg_live" where
  "drop_ping i l = l\<lparr>live_pings := take i (live_pings l) @ drop (Suc i) (live_pings l)\<rparr>"

fun pg_bg :: "pg_event \<Rightarrow> pg_live \<Rightarrow> pg_live" where
  "pg_bg (PgListen es) l =
     (case listenForEvent es (pg_core l) of
        (r, s) \<Rightarrow> l\<lparr>pg_core := s, live_pings := live_pings l @ (if r = PingScheduled then [PingNew] else [])\<rparr>)"
| "pg_bg PgBegin l = l\<lparr>live_pings := live_pings l @ [PingNew]\<rparr>"
| "pg_bg (PgRead i) l =
     (if i < length (live_pings l) \<and> live_pings l ! i = PingNew
      then case GetPgxDB (pg_core l) of None \<Rightarrow> drop_ping i l | Some h \<Rightarrow> l\<lparr>live_pings := (live_pings l)[i := PingFound h]\<rparr>
      else l)"
| "pg_bg (PgAnswer i r now j) l =
     (if i < length (live_pings l)
      then case live_pings l ! i of
             PingFound h \<Rightarrow> (drop_ping i l)\<lparr>pg_core := snd (DoPing (Some h) (\<lambda>_. r) now j (pg_core l))\<rparr>
           | PingNew \<Rightarrow> l
      else l)"
| "pg_bg (PgWake e) l = (if restarting (pg_core l) then l\<lparr>pg_core := snd (DoRestart_end e (pg_core l))\<rparr> else l)"
| "pg_bg (PgRestart now j) l = (if dbpool (pg_core l) \<noteq> None then l\<lparr>pg_core := snd (DoRestart_begin now j (pg_core l))\<rparr> else l)"
| "pg_bg (PgDrain ns es) l = l\<lparr>pg_core := (pg_core l)\<lparr>notificationCh := ns, errorCh := es\<rparr>\<rparr>"

definition new_live :: "ConfigPostgreSQL \<Rightarrow> string \<Rightarrow> pg_live" where
  "new_live cfg notify = \<lparr>pg_core = NewPostgreSQL cfg notify, live_pings = [], late = False\<rparr>"

definition live_Start :: "pg_env \<Rightarrow> pg_live \<Rightarrow> string option \<times> pg_live" where
  "live_Start e l = (let (r, s) = Start e (pg_core l) in (r, l\<lparr>pg_core := s\<rparr>))"

definition live_Stop :: "pg_live \<Rightarrow> pg_live" where
  "live_Stop l = l\<lparr>pg_core := Stop (pg_core l), late := restarting (pg_core l) \<or> list_ex (\<lambda>p. p \<noteq> PingNew) (live_pings l)\<rparr>"

text \<open>No pool, and nothing on its way that could open one.\<close>

definition still :: "pg_live \<Rightarrow> bool" where
  "still l \<longleftrightarrow> dbpool (pg_core l) = None \<and> \<not> restarting (pg_core l) \<and> (\<forall>p\<in>set (live_pings l). p = PingNew)"

lemma pg_bg_call: "pg_core (pg_bg e l) = pg_core l \<or> pg_call (pg_core l) (pg_core (pg_bg e l))"
proof (cases e)
  case (PgListen es)
  then show ?thesis using pg_call.listen [of "pg_core l" es] by (cases "listenForEvent es (pg_core l)") simp
qed (auto simp: drop_ping_def intro: pg_call.intros split: option.split ping.split)

lemma pg_bg_pool: "pool_inv (pg_core l) \<Longrightarrow> pool_inv (pg_core (pg_bg e l))"
  using pg_bg_call [of e l] pg_call_pool by metis

lemma pg_bg_late: "late (pg_bg e l) = late l"
  by (cases e) (auto simp: drop_ping_def split: option.split ping.split prod.split)

lemma pg_bg_still: "still l \<Longrightarrow> still (pg_bg e l)"
proof (cases e)
  case (PgListen es)
  assume "still l"
  then show ?thesis using PgListen listen_pool [of es "pg_core l"] by (cases "listenForEvent es (pg_core l)") (auto simp: still_def)
next
  case (PgAnswer i r now j)
  assume s: "still l"
  then have "live_pings l ! i = PingNew" if "i < length (live_pings l)" using nth_mem [OF that] by (simp add: still_def)
  then show ?thesis using s PgAnswer by simp
qed (auto simp: still_def drop_ping_def GetPgxDB_def dest: in_set_takeD in_set_dropD)

lemma new_live_still: "still (new_live cfg notify)" "pool_inv (pg_core (new_live cfg notify))" "\<not> late (new_live cfg notify)"
  by (simp_all add: still_def new_live_def NewPostgreSQL_def pool_inv_def)

lemma live_Start_keeps: "pool_inv (pg_core l) \<Longrightarrow> still l \<Longrightarrow> pool_inv (pg_core (snd (live_Start e l)))"
  using doStart_pool [of "pg_core l" e] by (simp add: live_Start_def Start_def still_def pool_inv_def case_prod_beta)

lemma live_Stop_keeps:
  assumes "pool_inv (pg_core l)"
  shows "pool_inv (pg_core (live_Stop l))" and "late (live_Stop l) \<or> still (live_Stop l)"
  using assms doStop_pool [of "pg_core l"]
  by (auto simp: live_Stop_def Stop_def still_def pool_inv_def list_ex_iff)

subsection \<open>Successive restarts\<close>

definition always_fails :: "pg_env \<Rightarrow> bool" where
  "always_fails e \<longleftrightarrow> (\<forall>dsn. \<exists>err. parseConfig e dsn = Inl err) \<or> (\<forall>p. newWithConfig e p \<noteq> None)"

fun restarts :: "(time \<times> int \<times> pg_env) list \<Rightarrow> PostgreSQL \<Rightarrow> PostgreSQL" where
  "restarts [] s = s"
| "restarts ((now, j, e) # xs) s = restarts xs (snd (DoRestart_end e (snd (DoRestart_begin now j s))))"

lemma always_fails_doStart: "always_fails e \<Longrightarrow> fst (doStart e s) \<noteq> None"
proof (cases "parseConfig e (DSN (config s))")
  case (Inr p)
  assume "always_fails e"
  then have "newWithConfig e (pool_config (config s) p) \<noteq> None"
    using Inr by (metis Inl_Inr_False always_fails_def)
  then show ?thesis using Inr by (auto simp: doStart_def Let_def)
qed (simp add: doStart_def)

lemma failed_restart:
  assumes "\<not> restarting s" and "always_fails e"
  shows "restartBackoff (restarts [(now, j, e)] s) = next_backoff (restartBackoff s)"
    and "\<not> restarting (restarts [(now, j, e)] s)"
proof -
  have "fst (doStart e s') \<noteq> None" for s' by (rule always_fails_doStart [OF assms(2)])
  then have "(fst (doStart e s') = None) = False" for s' by simp
  then show "restartBackoff (restarts [(now, j, e)] s) = next_backoff (restartBackoff s)"
    "\<not> restarting (restarts [(now, j, e)] s)"
    using assms(1) by (simp_all add: DoRestart_begin_def DoRestart_end_def Let_def case_prod_beta del: not_None_eq)
qed

lemma failed_restarts:
  assumes "\<not> restarting s" and "\<forall>(now, j, e) \<in> set xs. always_fails e"
  shows "restartBackoff (restarts xs s) = (next_backoff ^^ length xs) (restartBackoff s) \<and> \<not> restarting (restarts xs s)"
  using assms
proof (induction xs arbitrary: s)
  case (Cons x xs)
  obtain now j e where x: "x = (now, j, e)" by (metis surj_pair)
  then have f: "always_fails e" using Cons.prems(2) by auto
  note one = failed_restart [OF Cons.prems(1) f, of now j]
  show ?case
    using Cons.IH [of "restarts [x] s"] Cons.prems one x by (simp add: funpow_swap1)
qed simp

lemma backoff_closed:
  "next_backoff ((next_backoff ^^ k) 0) = min restartMaxDelay (restartBaseDelay * 2 ^ k)"
proof (induction k)
  case (Suc k)
  let ?b = "min restartMaxDelay (restartBaseDelay * 2 ^ k)"
  have "0 < ?b" by (simp add: restartMaxDelay_def restartBaseDelay_def)
  then have "next_backoff ?b = min restartMaxDelay (2 * ?b)" by (auto simp: next_backoff_def min_def)
  moreover have "min restartMaxDelay (2 * ?b) = min restartMaxDelay (restartBaseDelay * 2 ^ Suc k)"
    by (auto simp: min_def restartMaxDelay_def)
  ultimately show ?case using Suc by simp
qed (simp add: next_backoff_def restartMaxDelay_def restartBaseDelay_def)

lemma jitter_bounds:
  assumes "0 \<le> j" and "j \<le> 2 * (d div 5)"
  shows "4 * d \<le> 5 * jitterDuration j d" and "5 * jitterDuration j d \<le> 6 * d + 4"
  using assms unfolding jitterDuration_def Let_def by (simp_all split: if_splits) linarith+

subsection \<open>Properties\<close>

text \<open>
  After \<open>k\<close> restarts in a row that failed, the next \<^verbatim>\<open>DoRestart\<close> waits five seconds doubled \<open>k\<close> times and capped at
  five minutes, give or take one fifth, before it starts the pool again.
\<close>
theorem restart_backoff:
  assumes "\<not> restarting s" and "restartBackoff s = 0" and "\<forall>(now, j, e) \<in> set xs. always_fails e"
      and "b = min restartMaxDelay (restartBaseDelay * 2 ^ length xs)" and "0 \<le> j" and "j \<le> 2 * (b div 5)"
  shows "\<exists>delay s'. DoRestart_begin now j (restarts xs s) = (Inr delay, s') \<and> 4 * b \<le> 5 * delay \<and> 5 * delay \<le> 6 * b + 4"
proof -
  note f = failed_restarts [OF assms(1,3)]
  have "next_backoff (restartBackoff (restarts xs s)) = b"
    using f backoff_closed [of "length xs"] assms(2,4) by simp
  then show ?thesis using f jitter_bounds [OF assms(5,6)] by (simp add: DoRestart_begin_def Let_def)
qed

definition demo_pg :: PostgreSQL where
  "demo_pg = NewPostgreSQL \<lparr>DSN = ''postgres://db'', MinConns = -1, MaxConns = 8, HealthCheckPeriod = 0, MaxConnIdleTime = 0,
     MaxConnLifetime = 0, MaxConnLifetimeJitter = 0, WithInitPing = True, ShowInitParams = False\<rparr> ''events''"

definition demo_env :: "string option \<Rightarrow> pg_env" where
  "demo_env down =
     \<lparr>parseConfig = (\<lambda>_. Inr \<lparr>pMinConns = 0, pMaxConns = 4, pHealthCheckPeriod = 60, pMaxConnIdleTime = 60, pMaxConnLifetime = 60,
        pMaxConnLifetimeJitter = 0\<rparr>),
      newWithConfig = (\<lambda>_. down), acquire = None, exec = (\<lambda>_. None), pingErr = None\<rparr>"

theorem restart_backoff_witness:
  "\<exists>delay s'. DoRestart_begin 9 0 (restarts [(1, 0, demo_env (Some ''down'')), (2, 0, demo_env (Some ''down''))] demo_pg) = (Inr delay, s') \<and>
     80000000000 \<le> 5 * delay"
  using restart_backoff [of demo_pg "[(1, 0, demo_env (Some ''down'')), (2, 0, demo_env (Some ''down''))]" 20000000000 0 9]
  by (auto simp: demo_pg_def NewPostgreSQL_def always_fails_def demo_env_def restartMaxDelay_def restartBaseDelay_def)

text \<open>
  The service never executes a statement but \<^verbatim>\<open>LISTEN\<close> followed by a plain identifier, in any reachable state: the
  configured notification name, which is pasted into the statement, cannot inject SQL.
\<close>
theorem listen_identifier_only:
  assumes "pg_reachable s" and "cmd \<in> set (execs s)"
  shows "\<exists>n. cmd = ''LISTEN '' @ n \<and> n \<noteq> [] \<and> list_all ident_char n"
proof -
  have "listen_cmd cmd" using pg_reachable_inv [OF assms(1)] assms(2) by (simp add: pg_inv_def)
  then obtain n where n: "cmd = ''LISTEN '' @ n" "notifyNamePattern n" by (auto simp: listen_cmd_def)
  then show ?thesis
    by (intro exI [of _ n]) (cases n; auto simp: notifyNamePattern_def ident_char_def)
qed

lemma demo_started:
  "pg_reachable (snd (Start (demo_env None) demo_pg)) \<and> dbpool (snd (Start (demo_env None) demo_pg)) = Some 1 \<and>
   execs (snd (Start (demo_env None) demo_pg)) = [''LISTEN events'']"
proof
  show "pg_reachable (snd (Start (demo_env None) demo_pg))"
    unfolding demo_pg_def by (rule pg_reachable.start [OF pg_reachable.new])
  show "dbpool (snd (Start (demo_env None) demo_pg)) = Some 1 \<and> execs (snd (Start (demo_env None) demo_pg)) = [''LISTEN events'']"
    by (simp add: Start_def doStart_def start_listen_def demo_pg_def demo_env_def NewPostgreSQL_def notifyNamePattern_def
        ident_start_def ident_char_def Let_def)
qed

theorem listen_identifier_only_witness:
  "\<exists>n. ''LISTEN events'' = ''LISTEN '' @ n \<and> n \<noteq> [] \<and> list_all ident_char n"
  using listen_identifier_only [of "snd (Start (demo_env None) demo_pg)" "''LISTEN events''"] demo_started by simp

text \<open>
  C15: At most one pool is ever open, and it is the one \<^verbatim>\<open>GetDB\<close> hands out.  In every interleaving of stops, restarts with their sleep, pings that may
  have found an older pool, and the listener, as long as \<^verbatim>\<open>Start\<close> is only called without a pool: the pools open are exactly the current one,
  \<^verbatim>\<open>GetDB\<close> answers a handle on it and answers the same again, a restart that sleeps has closed it, and \<^verbatim>\<open>Stop\<close> leaves none open.
\<close>
theorem pg_one_pool:
  assumes "pg_orderly s"
  shows "opened s = set_option (fst (GetDB s)) \<and> fst (GetDB (snd (GetDB s))) = fst (GetDB s) \<and> fst (GetDB s) = GetPgxDB s \<and>
         (restarting s \<longrightarrow> opened s = {}) \<and> opened (Stop s) = {}"
proof -
  have "pool_inv s" "pg_inv s"
    using pg_orderly_pool [OF assms] pg_reachable_inv [OF pg_orderly_reachable [OF assms]] by blast+
  then show ?thesis
    by (auto simp: pool_inv_def pg_inv_def GetDB_def GetPgxDB_def Stop_def doStop_pool split: option.splits)
qed

theorem pg_one_pool_witness:
  "opened (snd (Start (demo_env None) demo_pg)) = {1} \<and> opened (Stop (snd (Start (demo_env None) demo_pg))) = {}"
proof -
  have "pg_orderly (snd (Start (demo_env None) demo_pg))"
    unfolding demo_pg_def by (rule pg_orderly.start [OF pg_orderly.new]) (simp add: NewPostgreSQL_def)
  from pg_one_pool [OF this] demo_started show ?thesis by (simp add: GetPgxDB_def)
qed

text \<open>Started twice without a \<^verbatim>\<open>Stop\<close>, the service keeps the first pool open for ever.\<close>

theorem started_twice_leaks:
  "opened (Stop (snd (Start (demo_env None) (snd (Start (demo_env None) demo_pg))))) = {1}"
  by code_simp

text \<open>A query on a service without a pool, stopped or in the sleep of a restart, panics.\<close>

theorem query_without_pool_panics:
  assumes "pg_orderly s" and "restarting s"
  shows "Query on_pool sql as s = None"
  using pg_orderly_pool [OF assms(1)] assms(2) by (simp add: pool_inv_def Query_def)

text \<open>
  A \<^verbatim>\<open>Stop\<close> that arrives while \<^verbatim>\<open>DoRestart\<close> sleeps returns at once and is undone: when the sleep ends, the restart opens
  a new pool if the server answers.
\<close>
theorem stop_during_restart_revives:
  assumes "parseConfig e (DSN (config s)) = Inr p" and "newWithConfig e (pool_config (config s) p) = None"
  shows "dbpool (Stop s) = None \<and> dbpool (snd (DoRestart_end e (Stop s))) \<noteq> None \<and>
         opened (snd (DoRestart_end e (Stop s))) \<noteq> {}"
  using assms
  by (auto simp: Stop_def doStop_def DoRestart_end_def doStart_def start_listen_def Let_def case_prod_beta split: option.split)

theorem stop_during_restart_revives_witness:
  "dbpool (snd (DoRestart_end (demo_env None) (Stop (snd (DoRestart_begin 9 0 (snd (Start (demo_env None) demo_pg))))))) \<noteq> None"
  using stop_during_restart_revives [of "demo_env None" "snd (DoRestart_begin 9 0 (snd (Start (demo_env None) demo_pg)))"
      "\<lparr>pMinConns = 0, pMaxConns = 4, pHealthCheckPeriod = 60, pMaxConnIdleTime = 60, pMaxConnLifetime = 60, pMaxConnLifetimeJitter = 0\<rparr>"]
  by (simp add: demo_env_def)

end
