(* ===== verification/GoBase64.thy ===== *)
theory GoBase64
  imports Prelude
begin

section \<open>Base64\<close>

text \<open>
  Go's \<^verbatim>\<open>base64.StdEncoding\<close>, with padding and not strict.  \<open>decodeBase64\<close> returns what \<^verbatim>\<open>DecodeString\<close> returns: the bytes
  decoded before the first malformed quantum (or the last padded one) beside whether there was an error; carriage
  returns and line feeds are skipped.  The locale \<open>codec\<close> is the contract of an encoder with a
  decoder that undoes it.
\<close>

subsection \<open>The contract of a codec\<close>

locale codec =
  fixes encode :: "'a \<Rightarrow> 'b" and decode :: "'b \<Rightarrow> 'a option" and valid :: "'a \<Rightarrow> bool"
  assumes round_trip: "valid x \<Longrightarrow> decode (encode x) = Some x"
begin

lemma encode_inj: "valid x \<Longrightarrow> valid y \<Longrightarrow> encode x = encode y \<Longrightarrow> x = y"
  by (metis option.inject round_trip)

lemma decode_surj: "valid x \<Longrightarrow> \<exists>y. decode y = Some x"
  using round_trip by blast

end

subsection \<open>Encoding\<close>

definition b64_char :: "nat \<Rightarrow> char" where
  "b64_char i =
     char_of (if i < 26 then 65 + i else if i < 52 then 71 + i else if i < 62 then i - 4 else if i = 62 then 43 else 47)"

definition b64_val :: "char \<Rightarrow> nat option" where
  "b64_val c =
     (let n = of_char c in
      if 65 \<le> n \<and> n \<le> 90 then Some (n - 65) else if 97 \<le> n \<and> n \<le> 122 then Some (n - 71)
      else if 48 \<le> n \<and> n \<le> 57 then Some (n + 4) else if n = 43 then Some 62 else if n = 47 then Some 63 else None)"

definition sextet :: "nat \<Rightarrow> nat \<Rightarrow> char" where
  "sextet v k = b64_char (v div 64 ^ k mod 64)"

fun encodeBase64 :: "byte list \<Rightarrow> string" where
  "encodeBase64 [] = []"
| "encodeBase64 [a] = (let v = unat a * 65536 in [sextet v 3, sextet v 2, CHR ''='', CHR ''=''])"
| "encodeBase64 [a, b] = (let v = unat a * 65536 + unat b * 256 in [sextet v 3, sextet v 2, sextet v 1, CHR ''=''])"
| "encodeBase64 (a # b # c # bs) =
     (let v = unat a * 65536 + unat b * 256 + unat c in
      [sextet v 3, sextet v 2, sextet v 1, sextet v 0] @ encodeBase64 bs)"

subsection \<open>Decoding\<close>

definition quantum :: "nat \<Rightarrow> nat \<Rightarrow> nat \<Rightarrow> nat \<Rightarrow> byte list" where
  "quantum w x y z =
     (let v = ((w * 64 + x) * 64 + y) * 64 + z in [of_nat (v div 65536), of_nat (v div 256), of_nat v])"

fun decode_quanta :: "string \<Rightarrow> byte list \<times> bool" where
  "decode_quanta [] = ([], False)"
| "decode_quanta (a # b # c # d # rest) =
     (case (b64_val a, b64_val b, b64_val c, b64_val d) of
        (Some w, Some x, Some y, Some z) \<Rightarrow> (let (bs, e) = decode_quanta rest in (quantum w x y z @ bs, e))
      | (Some w, Some x, Some y, None) \<Rightarrow>
          if d = CHR ''='' then (take 2 (quantum w x y 0), rest \<noteq> []) else ([], True)
      | (Some w, Some x, None, _) \<Rightarrow>
          if c = CHR ''='' \<and> d = CHR ''='' then (take 1 (quantum w x 0 0), rest \<noteq> []) else ([], True)
      | _ \<Rightarrow> ([], True))"
| "decode_quanta _ = ([], True)"

definition decodeBase64 :: "string \<Rightarrow> byte list \<times> bool" where
  "decodeBase64 s = decode_quanta (filter (\<lambda>c. of_char c \<noteq> (10 :: nat) \<and> of_char c \<noteq> (13 :: nat)) s)"

subsection \<open>Round trip\<close>

lemma of_char_b64:
  "i < 64 \<Longrightarrow> of_char (b64_char i) =
     (if i < 26 then 65 + i else if i < 52 then 71 + i else if i < 62 then i - 4 else if i = 62 then 43 else 47 :: nat)"
  by (simp add: b64_char_def)

lemma b64_val_char [simp]: "i < 64 \<Longrightarrow> b64_val (b64_char i) = Some i"
  by (auto simp: b64_val_def of_char_b64 Let_def split: if_splits)

lemma b64_val_pad [simp]: "b64_val CHR ''='' = None"
  by (simp add: b64_val_def)

lemma b64_val_sextet [simp]: "b64_val (sextet v k) = Some (v div 64 ^ k mod 64)"
  by (simp add: sextet_def)

lemma sextets_join:
  assumes "v < 16777216"
  shows "(((v div 262144 mod 64) * 64 + (v div 4096 mod 64)) * 64 + (v div 64 mod 64)) * 64 + v mod 64 = (v :: nat)"
proof -
  have "v div 262144 < 64" using assms by (simp add: less_mult_imp_div_less)
  then have 1: "v div 262144 mod 64 = v div 4096 div 64" by (simp add: div_mult2_eq [symmetric])
  have 2: "v div 4096 = v div 64 div 64" by (simp add: div_mult2_eq [symmetric])
  show ?thesis using 1 2 by (metis div_mult_mod_eq mult.commute)
qed

lemma bytes_split:
  assumes "x < 256" and "y < 256" and "z < (256 :: nat)"
  shows "(x * 65536 + y * 256 + z) div 65536 = x" and "(x * 65536 + y * 256 + z) div 256 = x * 256 + y"
proof -
  have "y * 256 + z < 65536" using assms by linarith
  then show "(x * 65536 + y * 256 + z) div 65536 = x" using div_mult_self3 [of 65536 x "y * 256 + z"] by (simp add: add.assoc)
  have "x * 65536 + y * 256 + z = (x * 256 + y) * 256 + z" by simp
  then show "(x * 65536 + y * 256 + z) div 256 = x * 256 + y" using assms(3) div_mult_self3 [of 256 "x * 256 + y" z] by simp
qed

lemma of_nat_low_byte: "of_nat (n * 256 + unat b) = (b :: byte)"
proof -
  have k: "unat (of_nat k :: byte) = k mod 256" for k by (simp add: unat_of_nat)
  have "unat (of_nat (n * 256 + unat b) :: byte) = (n * 256 + unat b) mod 256" by (rule k)
  also have "\<dots> = unat b" by simp
  finally show ?thesis by (simp only: word_unat_eq_iff)
qed

lemma quantum_bytes:
  assumes "v = unat (a :: byte) * 65536 + unat (b :: byte) * 256 + unat (c :: byte)"
  shows "quantum (v div 262144 mod 64) (v div 4096 mod 64) (v div 64 mod 64) (v mod 64) = [a, b, c]"
proof -
  have bd: "unat a < 256" "unat b < 256" "unat c < 256" by simp_all
  then have "v < 16777216" using assms by linarith
  then have j: "quantum (v div 262144 mod 64) (v div 4096 mod 64) (v div 64 mod 64) (v mod 64) =
      [of_nat (v div 65536), of_nat (v div 256), of_nat v]"
    unfolding quantum_def Let_def by (simp only: sextets_join)
  have "v div 65536 = unat a" "v div 256 = unat a * 256 + unat b" using bytes_split [OF bd] assms by simp_all
  moreover have "of_nat (unat a * 256 + unat b) = b" "of_nat v = c"
    using of_nat_low_byte [of "unat a"] of_nat_low_byte [of "unat a * 256 + unat b" c] assms by (simp_all add: algebra_simps)
  ultimately show ?thesis using j by simp
qed

lemma quantum_one:
  assumes "v = unat (a :: byte) * 65536"
  shows "take 1 (quantum (v div 262144 mod 64) (v div 4096 mod 64) 0 0) = [a]"
proof -
  have v: "v = unat a * 16 * 64 * 64" using assms by simp
  then have "v div 64 = unat a * 16 * 64" by simp
  then have "v div 64 mod 64 = 0" "v mod 64 = 0" using v by simp_all
  then show ?thesis using quantum_bytes [of v a 0 0] assms by simp
qed

lemma quantum_two:
  assumes "v = unat (a :: byte) * 65536 + unat (b :: byte) * 256"
  shows "take 2 (quantum (v div 262144 mod 64) (v div 4096 mod 64) (v div 64 mod 64) 0) = [a, b]"
proof -
  have "v = (unat a * 1024 + unat b * 4) * 64" using assms by simp
  then have "v mod 64 = 0" by simp
  then show ?thesis using quantum_bytes [of v a b 0] assms by simp
qed

lemma decode_encode: "decode_quanta (encodeBase64 bs) = (bs, False)"
proof (induction bs rule: encodeBase64.induct)
  case (2 a)
  show ?case using quantum_one [of "unat a * 65536" a] by (simp add: Let_def)
next
  case (3 a b)
  show ?case using quantum_two [of "unat a * 65536 + unat b * 256" a b] by (simp add: Let_def)
next
  case (4 a b c bs)
  show ?case using quantum_bytes [of "unat a * 65536 + unat b * 256 + unat c" a b c] 4 by (simp add: Let_def)
qed simp

lemma sextet_char: "43 \<le> (of_char (sextet v k) :: nat)"
  using of_char_b64 [of "v div 64 ^ k mod 64"] by (auto simp: sextet_def)

lemma encode_chars: "c \<in> set (encodeBase64 bs) \<Longrightarrow> 43 \<le> (of_char c :: nat)"
  by (induction bs rule: encodeBase64.induct) (auto simp: Let_def sextet_char)

lemma encode_printable:
  "c \<in> set (encodeBase64 bs) \<Longrightarrow> of_char c \<noteq> (10 :: nat) \<and> of_char c \<noteq> (13 :: nat)"
  using encode_chars [of c bs] by auto

lemma encode_no_space: "CHR '' '' \<notin> set (encodeBase64 bs)"
  using encode_chars [of "CHR '' ''" bs] by auto

lemma base64_round_trip [simp]: "decodeBase64 (encodeBase64 bs) = (bs, False)"
proof -
  have "filter (\<lambda>c. of_char c \<noteq> (10 :: nat) \<and> of_char c \<noteq> (13 :: nat)) (encodeBase64 bs) = encodeBase64 bs"
    using encode_printable by (auto simp: filter_id_conv)
  then show ?thesis by (simp only: decodeBase64_def decode_encode)
qed

definition decode_ok :: "string \<Rightarrow> byte list option" where
  "decode_ok s = (case decodeBase64 s of (bs, False) \<Rightarrow> Some bs | (_, True) \<Rightarrow> None)"

interpretation b64: codec encodeBase64 decode_ok "\<lambda>_. True"
  by unfold_locales (simp add: decode_ok_def)

end
