(* ===== verification/Uuid.thy ===== *)
theory Uuid
  imports GoBase64
begin

unbundle bit_operations_syntax

section \<open>UUIDs\<close>

text \<open>
  \<^verbatim>\<open>utils/uuid/uuid.go\<close>.  A UUID is its sixteen bytes; the time and the random bytes are arguments.
\<close>

type_synonym uuid = "byte list"

definition be64 :: "64 word \<Rightarrow> byte list" where
  "be64 v = map (\<lambda>k. ucast (drop_bit k v)) [56, 48, 40, 32, 24, 16, 8, 0]"

definition NewUUID7 :: "64 word \<Rightarrow> byte list \<Rightarrow> uuid" where
  "NewUUID7 timestamp randomBytes =
     (let u0 = take 6 (be64 timestamp) @ randomBytes;
          u1 = u0[6 := (u0 ! 6 AND 0x0f) OR push_bit 4 7]
      in u1[8 := (u1 ! 8 AND 0x3f) OR 0x80])"

definition Bytes :: "uuid \<Rightarrow> byte list" where
  "Bytes u = u"

definition Base64 :: "uuid \<Rightarrow> string" where
  "Base64 u = encodeBase64 u"

definition hex_lower :: "nat \<Rightarrow> char" where
  "hex_lower n = char_of (if n < 10 then 48 + n else 87 + n)"

definition hex_bytes :: "byte list \<Rightarrow> string" where
  "hex_bytes bs = concat (map (\<lambda>b. [hex_lower (unat b div 16), hex_lower (unat b mod 16)]) bs)"

definition String :: "uuid \<Rightarrow> string" where
  "String u =
     hex_bytes (take 4 u) @ ''-'' @ hex_bytes (take 2 (drop 4 u)) @ ''-'' @ hex_bytes (take 2 (drop 6 u)) @ ''-'' @
     hex_bytes (take 2 (drop 8 u)) @ ''-'' @ hex_bytes (drop 10 u)"

definition xorIt :: "byte list \<Rightarrow> byte list \<Rightarrow> byte list" where
  "xorIt inp key = map (\<lambda>i. inp ! i XOR key ! (i mod 16)) [0..<16]"

definition XorEncrypt :: "byte list \<Rightarrow> uuid \<Rightarrow> string" where
  "XorEncrypt key u = encodeBase64 (xorIt u key @ key)"

definition XorDecrypt :: "string \<Rightarrow> string + string" where
  "XorDecrypt data =
     (case decodeBase64 data of
        (_, True) \<Rightarrow> Inl ''illegal base64 data''
      | (raw, False) \<Rightarrow>
          if length raw \<noteq> 32 then Inl ''invalid xored uuid length''
          else Inr (String (xorIt (take 16 raw) (drop 16 raw))))"

subsection \<open>Facts\<close>

lemma length_xorIt [simp]: "length (xorIt a k) = 16"
  by (simp add: xorIt_def)

lemma xorIt_twice: "length u = 16 \<Longrightarrow> xorIt (xorIt u k) k = u"
  by (intro nth_equalityI) (auto simp: xorIt_def xor.assoc)

lemma length_hex_bytes: "length (hex_bytes bs) = 2 * length bs"
  by (induction bs) (simp_all add: hex_bytes_def)

lemma length_be64 [simp]: "length (be64 v) = 8"
  by (simp add: be64_def)

subsection \<open>Properties\<close>

text \<open>
  A UUID obfuscated with any key comes back: \<^verbatim>\<open>XorDecrypt\<close> of what \<^verbatim>\<open>XorEncrypt\<close> produced is the printed form of the UUID, 36
  characters long, and the obfuscated text of different UUIDs under one key differs.
\<close>
theorem xor_round_trip:
  assumes "length u = 16" and "length v = 16" and "length key = 16"
  shows "XorDecrypt (XorEncrypt key u) = Inr (String u) \<and> length (String u) = 36 \<and>
         (XorEncrypt key u = XorEncrypt key v \<longrightarrow> u = v)"
proof (intro conjI impI)
  show "XorDecrypt (XorEncrypt key u) = Inr (String u)"
    using assms by (simp add: XorDecrypt_def XorEncrypt_def xorIt_twice)
  show "length (String u) = 36" using assms(1) by (simp add: String_def length_hex_bytes)
  assume "XorEncrypt key u = XorEncrypt key v"
  then have "xorIt u key @ key = xorIt v key @ key"
    unfolding XorEncrypt_def using b64.encode_inj by blast
  then have "xorIt (xorIt u key) key = xorIt (xorIt v key) key" by simp
  then show "u = v" using xorIt_twice assms by simp
qed

theorem xor_round_trip_witness:
  "XorDecrypt (XorEncrypt (replicate 16 90) (replicate 15 1 @ [2])) = Inr (String (replicate 15 1 @ [2]))"
  using xor_round_trip [of "replicate 15 1 @ [2]" "replicate 16 0" "replicate 16 90"] by simp

text \<open>
  The UUID is stamped as version 7, variant 2, whatever the random bytes, but its first six bytes are the upper six bytes of
  the 64-bit millisecond count: two UUIDs made within the same 65536 milliseconds have the same time
  prefix, so that they are not ordered by their creation time.
\<close>
theorem uuid7_layout:
  assumes "length r = 10" and "length r' = 10" and "drop_bit 16 ts = drop_bit 16 ts'"
  shows "length (NewUUID7 ts r) = 16 \<and> drop_bit 4 (NewUUID7 ts r ! 6) = 7 \<and> drop_bit 6 (NewUUID7 ts r ! 8) = 2 \<and>
         take 6 (NewUUID7 ts r) = take 6 (NewUUID7 ts' r')"
proof -
  have six: "take 6 (be64 ts) = take 6 (be64 ts')"
  proof -
    have "drop_bit k ts = drop_bit k ts'" if "16 \<le> k" for k
    proof -
      have "drop_bit (k - 16) (drop_bit 16 ts) = drop_bit (k - 16) (drop_bit 16 ts')" using assms(3) by simp
      then show ?thesis using that by (simp add: drop_bit_drop_bit)
    qed
    then show ?thesis by (simp add: be64_def)
  qed
  have t: "take 6 (NewUUID7 t x) = take 6 (be64 t)" if "length x = 10" for t x
    using that by (simp add: NewUUID7_def Let_def)
  have v7: "drop_bit 4 ((b AND 0x0f) OR push_bit 4 7) = (7 :: byte)" for b
    by (simp add: drop_bit_or drop_bit_and)
  have v2: "drop_bit 6 ((b AND 0x3f) OR 0x80) = (2 :: byte)" for b
    by (simp add: drop_bit_or drop_bit_and)
  show ?thesis
    using assms six t v7 v2 by (simp add: NewUUID7_def Let_def)
qed

theorem uuid7_layout_witness:
  "drop_bit 4 (NewUUID7 1700000000000 (replicate 10 255) ! 6) = 7 \<and>
   take 6 (NewUUID7 1700000000000 (replicate 10 255)) = take 6 (NewUUID7 1700000000001 (replicate 10 0))"
  using uuid7_layout [of "replicate 10 255" "replicate 10 0" 1700000000000 1700000000001] by simp

end
