(* ===== verification/BBolt.thy ===== *)
theory BBolt
  imports SqlServices Uuid "HOL-Library.List_Lexorder"
begin

section \<open>The bbolt key-value service\<close>

text \<open>
  \<^verbatim>\<open>db/bbolt/etcdBBolt.go\<close>.  The engine \<^verbatim>\<open>go.etcd.io/bbolt\<close> is the argument \<open>bolt\<close>, a record of the calls the
  service makes; \<open>'tx\<close> is the content of a database file as a transaction sees it.  The closures handed to
  \<^verbatim>\<open>Update\<close>, \<^verbatim>\<open>Batch\<close> and \<^verbatim>\<open>View\<close> assign variables of the calling method: these are the record \<open>vars\<close>, threaded through
  the closure.  What the engine documents is \<open>bolt_laws\<close>.  A method returns \<^const>\<open>None\<close> when it is called through a
  nil handle, which is a panic.  Keys are ordered as byte strings, the order of \<^verbatim>\<open>HOL-Library.List_Lexorder\<close>.
\<close>

subsection \<open>The engine\<close>

type_synonym bytes = "byte list"

record KV =
  Key :: bytes
  Value :: bytes

record vars =
  v_id :: "64 word"
  v_val :: bytes
  v_res :: "KV list"

definition no_vars :: vars where
  "no_vars = \<lparr>v_id = 0, v_val = [], v_res = []\<rparr>"

type_synonym 'tx update_fn = "vars \<Rightarrow> 'tx \<Rightarrow> string option \<times> vars \<times> 'tx"
type_synonym 'tx view_fn = "vars \<Rightarrow> 'tx \<Rightarrow> string option \<times> vars"

text \<open>\<open>cItems\<close> is what \<^verbatim>\<open>First\<close> and then \<^verbatim>\<open>Next\<close> of a cursor yield until a nil key; a nil value is that of a nested bucket.\<close>

record 'tx bolt =
  dbUpdate :: "'tx update_fn \<Rightarrow> 'tx update_fn"
  dbBatch :: "'tx update_fn \<Rightarrow> 'tx update_fn"
  dbView :: "'tx view_fn \<Rightarrow> 'tx view_fn"
  txCreateBucketIfNotExists :: "bytes \<Rightarrow> 'tx \<Rightarrow> string option \<times> 'tx"
  txDeleteBucket :: "bytes \<Rightarrow> 'tx \<Rightarrow> string option \<times> 'tx"
  txBucket :: "bytes \<Rightarrow> 'tx \<Rightarrow> bool"
  bGet :: "bytes \<Rightarrow> bytes \<Rightarrow> 'tx \<Rightarrow> bytes option"
  bPut :: "bytes \<Rightarrow> bytes \<Rightarrow> bytes \<Rightarrow> 'tx \<Rightarrow> string option \<times> 'tx"
  bDelete :: "bytes \<Rightarrow> bytes \<Rightarrow> 'tx \<Rightarrow> string option \<times> 'tx"
  bSequence :: "bytes \<Rightarrow> 'tx \<Rightarrow> 64 word"
  bNextSequence :: "bytes \<Rightarrow> 'tx \<Rightarrow> (string + 64 word) \<times> 'tx"
  cItems :: "bytes \<Rightarrow> 'tx \<Rightarrow> (bytes \<times> bytes option) list"

subsection \<open>The service\<close>

record 'tx BBolt =
  FileName :: string
  bdb :: "nat option"
  store :: 'tx
  bopened :: "nat set"
  bfresh :: nat

text \<open>The answers to \<^verbatim>\<open>bolt.Open\<close>, an error or the content of the file, and to \<^verbatim>\<open>Close\<close>.\<close>

record 'tx bolt_env =
  boltOpen :: "string \<Rightarrow> string + 'tx"
  boltClose :: "string option"

definition NewBBolt :: "string \<Rightarrow> 'tx \<Rightarrow> 'tx BBolt" where
  "NewBBolt filename c = \<lparr>FileName = filename, bdb = None, store = c, bopened = {}, bfresh = 0\<rparr>"

definition Start :: "'tx bolt_env \<Rightarrow> 'tx BBolt \<Rightarrow> string option \<times> 'tx BBolt" where
  "Start e bb =
     (case bdb bb of
        Some _ \<Rightarrow> (Some ''bbolt is already started'', bb)
      | None \<Rightarrow> (case boltOpen e (FileName bb) of
          Inl err \<Rightarrow> (Some err, bb\<lparr>bdb := None\<rparr>)
        | Inr c \<Rightarrow> (None, bb\<lparr>bdb := Some (bfresh bb), store := c, bopened := insert (bfresh bb) (bopened bb),
                            bfresh := Suc (bfresh bb)\<rparr>)))"

definition Stop :: "'tx bolt_env \<Rightarrow> 'tx BBolt \<Rightarrow> string option \<times> 'tx BBolt" where
  "Stop e bb =
     (case bdb bb of
        Some h \<Rightarrow> (boltClose e, bb\<lparr>bopened := bopened bb - {h}, bdb := None\<rparr>)
      | None \<Rightarrow> (None, bb))"

definition copyBytes :: "bytes \<Rightarrow> bytes" where
  "copyBytes src = map (\<lambda>i. src ! i) [0..<length src]"

definition Itob :: "64 word \<Rightarrow> bytes" where
  "Itob v = be64 v"

definition not_found :: "string option" where
  "not_found = Some ''bucket not found''"

text \<open>A read-write call, and the closure over a bucket that most methods pass.\<close>

definition run_tx :: "('tx update_fn \<Rightarrow> 'tx update_fn) \<Rightarrow> 'tx update_fn \<Rightarrow> 'tx BBolt \<Rightarrow>
    ((string option \<times> vars) \<times> 'tx BBolt) option" where
  "run_tx call f bb =
     (case bdb bb of
        None \<Rightarrow> None
      | Some _ \<Rightarrow> let (err, vs, tx) = call f no_vars (store bb) in Some ((err, vs), bb\<lparr>store := tx\<rparr>))"

definition in_bucket :: "'tx bolt \<Rightarrow> bytes \<Rightarrow> ('tx \<Rightarrow> string option \<times> 'tx) \<Rightarrow> 'tx update_fn" where
  "in_bucket api bucket act vs tx =
     (if txBucket api bucket tx then (let (err, tx') = act tx in (err, vs, tx')) else (not_found, vs, tx))"

definition only_err :: "((string option \<times> vars) \<times> 'tx BBolt) option \<Rightarrow> (string option \<times> 'tx BBolt) option" where
  "only_err r = map_option (\<lambda>((err, _), bb). (err, bb)) r"

definition CreateBucket :: "'tx bolt \<Rightarrow> bytes \<Rightarrow> 'tx BBolt \<Rightarrow> (string option \<times> 'tx BBolt) option" where
  "CreateBucket api bucketName bb =
     only_err (run_tx (dbUpdate api)
       (\<lambda>vs tx. let (err, tx') = txCreateBucketIfNotExists api bucketName tx in (err, vs, tx')) bb)"

definition DeleteBucket :: "'tx bolt \<Rightarrow> bytes \<Rightarrow> 'tx BBolt \<Rightarrow> (string option \<times> 'tx BBolt) option" where
  "DeleteBucket api bucketName bb =
     only_err (run_tx (dbUpdate api)
       (\<lambda>vs tx. let (err, tx') = txDeleteBucket api bucketName tx in (err, vs, tx')) bb)"

definition DelByKey :: "'tx bolt \<Rightarrow> bytes \<Rightarrow> bytes \<Rightarrow> 'tx BBolt \<Rightarrow> (string option \<times> 'tx BBolt) option" where
  "DelByKey api bucket key bb = only_err (run_tx (dbUpdate api) (in_bucket api bucket (bDelete api bucket key)) bb)"

fun del_loop :: "'tx bolt \<Rightarrow> bytes \<Rightarrow> bytes list \<Rightarrow> 'tx \<Rightarrow> string option \<times> 'tx" where
  "del_loop api bucket [] tx = (None, tx)"
| "del_loop api bucket (k # ks) tx =
     (case bDelete api bucket k tx of
        (Some err, tx') \<Rightarrow> (Some err, tx')
      | (None, tx') \<Rightarrow> del_loop api bucket ks tx')"

definition BatchDelByKey :: "'tx bolt \<Rightarrow> bytes \<Rightarrow> bytes list \<Rightarrow> 'tx BBolt \<Rightarrow> (string option \<times> 'tx BBolt) option" where
  "BatchDelByKey api bucket keys bb =
     only_err (run_tx (dbBatch api) (in_bucket api bucket (del_loop api bucket keys)) bb)"

fun put_loop :: "'tx bolt \<Rightarrow> bytes \<Rightarrow> KV list \<Rightarrow> 'tx \<Rightarrow> string option \<times> 'tx" where
  "put_loop api bucket [] tx = (None, tx)"
| "put_loop api bucket (i # rest) tx =
     (case bPut api bucket (Key i) (Value i) tx of
        (Some err, tx') \<Rightarrow> (Some err, tx')
      | (None, tx') \<Rightarrow> put_loop api bucket rest tx')"

definition BatchPut :: "'tx bolt \<Rightarrow> bytes \<Rightarrow> KV list \<Rightarrow> 'tx BBolt \<Rightarrow> (string option \<times> 'tx BBolt) option" where
  "BatchPut api bucket items bb =
     only_err (run_tx (dbUpdate api) (in_bucket api bucket (put_loop api bucket items)) bb)"

definition Get :: "'tx bolt \<Rightarrow> bytes \<Rightarrow> bytes \<Rightarrow> 'tx BBolt \<Rightarrow> (bytes \<times> string option) option" where
  "Get api bucket key bb =
     (case bdb bb of
        None \<Rightarrow> None
      | Some _ \<Rightarrow>
          let (err, vs) = dbView api
                (\<lambda>vs tx. if txBucket api bucket tx
                   then (None, vs\<lparr>v_val := (case bGet api bucket key tx of None \<Rightarrow> [] | Some v \<Rightarrow> copyBytes v)\<rparr>)
                   else (not_found, vs)) no_vars (store bb)
          in Some (v_val vs, err))"

fun collect :: "(bytes \<times> bytes option) list \<Rightarrow> KV list \<Rightarrow> KV list" where
  "collect [] res = res"
| "collect ((k, v) # c) res =
     (case v of
        None \<Rightarrow> collect c res
      | Some w \<Rightarrow> if length w > 0 then collect c (res @ [\<lparr>Key = copyBytes k, Value = copyBytes w\<rparr>]) else collect c res)"

definition GetAll :: "'tx bolt \<Rightarrow> bytes \<Rightarrow> 'tx BBolt \<Rightarrow> (KV list \<times> string option) option" where
  "GetAll api bucket bb =
     (case bdb bb of
        None \<Rightarrow> None
      | Some _ \<Rightarrow>
          let (err, vs) = dbView api
                (\<lambda>vs tx. if txBucket api bucket tx then (None, vs\<lparr>v_res := collect (cItems api bucket tx) (v_res vs)\<rparr>)
                   else (not_found, vs)) no_vars (store bb)
          in Some (v_res vs, err))"

definition Put :: "'tx bolt \<Rightarrow> bytes \<Rightarrow> bytes \<Rightarrow> bytes \<Rightarrow> 'tx BBolt \<Rightarrow> (string option \<times> 'tx BBolt) option" where
  "Put api bucket key v bb = only_err (run_tx (dbUpdate api) (in_bucket api bucket (bPut api bucket key v)) bb)"

definition AddWithSeq :: "'tx bolt \<Rightarrow> bytes \<Rightarrow> bytes \<Rightarrow> 'tx BBolt \<Rightarrow> (string option \<times> 'tx BBolt) option" where
  "AddWithSeq api bucket v bb =
     only_err (run_tx (dbUpdate api)
       (in_bucket api bucket (\<lambda>tx. case bNextSequence api bucket tx of
          (Inl err, tx') \<Rightarrow> (Some err, tx')
        | (Inr n, tx') \<Rightarrow> bPut api bucket (Itob n) v tx')) bb)"

text \<open>A failing \<^verbatim>\<open>NextSequence\<close> leaves 0 in \<^verbatim>\<open>id\<close>.\<close>

definition AddWithSeqID :: "'tx bolt \<Rightarrow> bytes \<Rightarrow> bytes \<Rightarrow> 'tx BBolt \<Rightarrow> ((64 word \<times> string option) \<times> 'tx BBolt) option" where
  "AddWithSeqID api bucket v bb =
     map_option (\<lambda>((err, vs), bb'). ((v_id vs, err), bb'))
       (run_tx (dbUpdate api)
         (\<lambda>vs tx. if txBucket api bucket tx
            then (case bNextSequence api bucket tx of
                    (Inl err, tx') \<Rightarrow> (Some err, vs\<lparr>v_id := 0\<rparr>, tx')
                  | (Inr n, tx') \<Rightarrow> let (err, tx'') = bPut api bucket (Itob n) v tx' in (err, vs\<lparr>v_id := n\<rparr>, tx''))
            else (not_found, vs, tx)) bb)"

interpretation bb: db_service "\<lambda>e s. snd (Start e s)" "\<lambda>e s. snd (Stop e s)" bdb bopened "\<lambda>_. True"
  by unfold_locales (auto simp: Start_def Stop_def split: option.splits sum.splits)

lemma copyBytes_id [simp]: "copyBytes b = b"
  by (simp add: copyBytes_def map_nth)

subsection \<open>What the engine documents\<close>

text \<open>
  A transaction function either is not run (the transaction could not begin), or its error rolls it back, or
  it is committed, or the commit fails.
\<close>

definition txn_outcome :: "'tx update_fn \<Rightarrow> vars \<Rightarrow> 'tx \<Rightarrow> string option \<times> vars \<times> 'tx \<Rightarrow> bool" where
  "txn_outcome f vs tx r \<longleftrightarrow>
     (\<exists>e. r = (Some e, vs, tx)) \<or>
     (case f vs tx of
        (Some e, vs', tx') \<Rightarrow> r = (Some e, vs', tx)
      | (None, vs', tx') \<Rightarrow> r = (None, vs', tx') \<or> (\<exists>e. r = (Some e, vs', tx)))"

text \<open>\<^verbatim>\<open>Batch\<close> may run the function several times, so it is only specified for one that assigns no outer variable.\<close>

definition txn_laws :: "'tx bolt \<Rightarrow> bool" where
  "txn_laws api \<longleftrightarrow>
     (\<forall>f vs tx. txn_outcome f vs tx (dbUpdate api f vs tx)) \<and>
     (\<forall>f vs tx. (\<forall>v t. fst (snd (f v t)) = v) \<longrightarrow> txn_outcome f vs tx (dbBatch api f vs tx)) \<and>
     (\<forall>f vs tx. (\<exists>e. dbView api f vs tx = (Some e, vs)) \<or> dbView api f vs tx = f vs tx)"

text \<open>\<open>same_but\<close>: the transaction state differs at most in the items of one bucket.\<close>

definition same_but :: "'tx bolt \<Rightarrow> bytes \<Rightarrow> 'tx \<Rightarrow> 'tx \<Rightarrow> bool" where
  "same_but api b tx tx' \<longleftrightarrow>
     (\<forall>c. txBucket api c tx' = txBucket api c tx) \<and> (\<forall>c k. c \<noteq> b \<longrightarrow> bGet api c k tx' = bGet api c k tx) \<and>
     (\<forall>c. c \<noteq> b \<longrightarrow> bSequence api c tx' = bSequence api c tx)"

definition item_laws :: "'tx bolt \<Rightarrow> bool" where
  "item_laws api \<longleftrightarrow>
     (\<forall>b k v tx tx'. txBucket api b tx \<and> bPut api b k v tx = (None, tx') \<longrightarrow>
        same_but api b tx tx' \<and> bGet api b k tx' = Some v \<and>
        (\<forall>j. j \<noteq> k \<longrightarrow> bGet api b j tx' = bGet api b j tx) \<and> bSequence api b tx' = bSequence api b tx) \<and>
     (\<forall>b k tx tx'. txBucket api b tx \<and> bDelete api b k tx = (None, tx') \<longrightarrow>
        same_but api b tx tx' \<and> bGet api b k tx' = None \<and>
        (\<forall>j. j \<noteq> k \<longrightarrow> bGet api b j tx' = bGet api b j tx) \<and> bSequence api b tx' = bSequence api b tx)"

definition seq_laws :: "'tx bolt \<Rightarrow> bool" where
  "seq_laws api \<longleftrightarrow>
     (\<forall>b n tx tx'. txBucket api b tx \<and> bNextSequence api b tx = (Inr n, tx') \<longrightarrow>
        n = bSequence api b tx + 1 \<and> bSequence api b tx' = n \<and> same_but api b tx tx' \<and>
        (\<forall>k. bGet api b k tx' = bGet api b k tx))"

text \<open>A cursor yields the keys of the bucket in the order of their bytes.\<close>

definition cursor_laws :: "'tx bolt \<Rightarrow> bool" where
  "cursor_laws api \<longleftrightarrow>
     (\<forall>b tx. txBucket api b tx \<longrightarrow>
        sorted_wrt (<) (map fst (cItems api b tx)) \<and>
        (\<forall>k v. (k, Some v) \<in> set (cItems api b tx) \<longleftrightarrow> bGet api b k tx = Some v))"

definition bolt_laws :: "'tx bolt \<Rightarrow> bool" where
  "bolt_laws api \<longleftrightarrow> txn_laws api \<and> item_laws api \<and> seq_laws api \<and> cursor_laws api"

subsection \<open>The order of the sequence keys\<close>

definition be_val :: "bytes \<Rightarrow> nat" where
  "be_val bs = foldl (\<lambda>a b. 256 * a + unat b) 0 bs"

lemma be_foldl_less:
  "length xs = length ys \<Longrightarrow> m < n \<Longrightarrow>
   foldl (\<lambda>a b. 256 * a + unat b) m (xs :: bytes) < foldl (\<lambda>a b. 256 * a + unat b) n ys"
proof (induction xs ys arbitrary: m n rule: list_induct2)
  case (Cons x xs y ys)
  have "256 * m + unat x < 256 * n + unat y" using Cons.prems unat_byte_less [of x] by linarith
  then show ?case using Cons.IH by simp
qed simp

lemma be_foldl_order:
  "length xs = length ys \<Longrightarrow>
   (foldl (\<lambda>a b. 256 * a + unat b) m (xs :: bytes) < foldl (\<lambda>a b. 256 * a + unat b) m ys) = (xs < ys)"
proof (induction xs ys arbitrary: m rule: list_induct2)
  case (Cons x xs y ys)
  consider "x < y" | "x = y" | "y < x" by fastforce
  then show ?case
  proof cases
    case 1
    then show ?thesis using be_foldl_less [OF Cons.hyps, of "256 * m + unat x" "256 * m + unat y"]
      by (simp add: word_less_nat_alt)
  next
    case 2
    then show ?thesis using Cons.IH by simp
  next
    case 3
    then show ?thesis using be_foldl_less [OF Cons.hyps [symmetric], of "256 * m + unat y" "256 * m + unat x"]
      by (auto simp: word_less_nat_alt)
  qed
qed simp

lemma byte_at: "unat (ucast (drop_bit k (v :: 64 word)) :: byte) = unat v div 2 ^ k mod 256"
proof -
  have "unat (v :: 64 word) mod 2 ^ 64 = unat v" using unsigned_less [of v, where ?'a = nat] by simp
  then show ?thesis
    by (simp add: unsigned_ucast_eq unsigned_drop_bit_eq take_bit_eq_mod) (simp add: drop_bit_eq_div)
qed

lemma be_step: "256 * (n div (256 * m)) + n div m mod 256 = n div (m :: nat)"
  by (metis div_mult2_eq mult.commute mult_div_mod_eq)

lemma be_val_Itob: "be_val (Itob v) = unat v"
proof -
  let ?n = "unat v"
  have "?n < 2 ^ 64" using unsigned_less [of v, where ?'a = nat] by simp
  then have "?n div 2 ^ 56 mod 256 = ?n div 2 ^ 56" by simp
  moreover have "256 * (?n div 2 ^ (k + 8)) + ?n div 2 ^ k mod 256 = ?n div 2 ^ k" for k
    using be_step [of ?n "2 ^ k"] by (simp add: power_add mult.commute)
  from this [of 48] this [of 40] this [of 32] this [of 24] this [of 16] this [of 8] this [of 0]
  show ?thesis using calculation byte_at [of 0 v] by (simp add: be_val_def Itob_def be64_def byte_at)
qed

lemma Itob_less_iff: "Itob v < Itob w \<longleftrightarrow> v < w"
  using be_foldl_order [of "Itob v" "Itob w" 0] be_val_Itob [of v] be_val_Itob [of w]
  by (simp add: be_val_def word_less_nat_alt Itob_def)

lemma Itob_eq_iff [simp]: "Itob v = Itob w \<longleftrightarrow> v = w"
  by (metis be_val_Itob unsigned_word_eqI)

subsection \<open>Transactions of the service\<close>

lemma update_success:
  assumes "bolt_laws api" and "run_tx (dbUpdate api) f bb = Some ((None, vs), bb')"
  shows "\<exists>tx. f no_vars (store bb) = (None, vs, tx) \<and> bb' = bb\<lparr>store := tx\<rparr> \<and> bdb bb' = bdb bb"
proof -
  obtain e vs1 tx where r: "dbUpdate api f no_vars (store bb) = (e, vs1, tx)" by (metis prod_cases3)
  have "txn_outcome f no_vars (store bb) (e, vs1, tx)"
    using assms(1) r unfolding bolt_laws_def txn_laws_def by metis
  then show ?thesis using assms(2) r
    by (auto simp: run_tx_def txn_outcome_def split: option.splits prod.splits)
qed

lemma update_failure:
  assumes "bolt_laws api" and "run_tx (dbUpdate api) f bb = Some ((Some e, vs), bb')"
  shows "bb' = bb"
proof -
  obtain e1 vs1 tx where r: "dbUpdate api f no_vars (store bb) = (e1, vs1, tx)" by (metis prod_cases3)
  have o: "txn_outcome f no_vars (store bb) (e1, vs1, tx)"
    using assms(1) r unfolding bolt_laws_def txn_laws_def by metis
  have e: "e1 = Some e" and bb': "bb' = bb\<lparr>store := tx\<rparr>"
    using assms(2) r by (auto simp: run_tx_def split: option.splits)
  have "tx = store bb" using o e by (auto simp: txn_outcome_def split: option.splits prod.splits)
  then show ?thesis using bb' by simp
qed

lemma only_err_Some: "only_err r = Some (e, bb') \<longleftrightarrow> (\<exists>vs. r = Some ((e, vs), bb'))"
  by (auto simp: only_err_def)

lemma bucket_update_success:
  assumes "bolt_laws api" and "only_err (run_tx (dbUpdate api) (in_bucket api b act) bb) = Some (None, bb')"
  shows "\<exists>tx. txBucket api b (store bb) \<and> act (store bb) = (None, tx) \<and> bb' = bb\<lparr>store := tx\<rparr>"
proof -
  obtain vs where "run_tx (dbUpdate api) (in_bucket api b act) bb = Some ((None, vs), bb')"
    using assms(2) only_err_Some by metis
  from update_success [OF assms(1) this] obtain tx
    where "in_bucket api b act no_vars (store bb) = (None, vs, tx)" and "bb' = bb\<lparr>store := tx\<rparr>" by blast
  then show ?thesis by (auto simp: in_bucket_def not_found_def split: if_splits prod.splits)
qed

lemma bucket_update_failure:
  "bolt_laws api \<Longrightarrow> only_err (run_tx (dbUpdate api) (in_bucket api b act) bb) = Some (Some e, bb') \<Longrightarrow> bb' = bb"
  using update_failure by (fastforce simp: only_err_Some)

lemma view_outcome:
  assumes "bolt_laws api"
  shows "(\<exists>e. dbView api f vs tx = (Some e, vs)) \<or> dbView api f vs tx = f vs tx"
  using assms unfolding bolt_laws_def txn_laws_def by blast

text \<open>A read that reports no error ran its closure to the end.\<close>

lemma view_success:
  assumes "bolt_laws api" and "dbView api f vs tx = (None, vs')"
  shows "f vs tx = (None, vs')"
  using view_outcome [OF assms(1), of f vs tx] assms(2) by auto

lemma Get_success:
  assumes "bolt_laws api" and "Get api b k bb = Some (v, None)"
  shows "txBucket api b (store bb) \<and> v = (case bGet api b k (store bb) of None \<Rightarrow> [] | Some w \<Rightarrow> w)"
proof -
  let ?f = "\<lambda>vs tx. if txBucket api b tx
      then (None, vs\<lparr>v_val := (case bGet api b k tx of None \<Rightarrow> [] | Some v \<Rightarrow> copyBytes v)\<rparr>) else (not_found, vs)"
  obtain vs where "dbView api ?f no_vars (store bb) = (None, vs)" and v: "v = v_val vs"
    using assms(2) unfolding Get_def by (auto split: option.splits prod.splits)
  from view_success [OF assms(1) this(1)] v show ?thesis
    by (auto simp: not_found_def split: if_splits option.splits)
qed

lemma GetAll_success:
  assumes "bolt_laws api" and "GetAll api b bb = Some (xs, None)"
  shows "txBucket api b (store bb) \<and> xs = collect (cItems api b (store bb)) []"
proof -
  let ?f = "\<lambda>vs tx. if txBucket api b tx then (None, vs\<lparr>v_res := collect (cItems api b tx) (v_res vs)\<rparr>) else (not_found, vs)"
  obtain vs where "dbView api ?f no_vars (store bb) = (None, vs)" and v: "xs = v_res vs"
    using assms(2) unfolding GetAll_def by (auto split: option.splits prod.splits)
  from view_success [OF assms(1) this(1)] v show ?thesis
    by (auto simp: not_found_def no_vars_def split: if_splits)
qed

lemma put_loop_spec:
  assumes "bolt_laws api"
  shows "txBucket api b tx \<Longrightarrow> put_loop api b xs tx = (None, tx') \<Longrightarrow>
    same_but api b tx tx' \<and> bSequence api b tx' = bSequence api b tx \<and>
    (\<forall>k. bGet api b k tx' = (case map_of (rev (map (\<lambda>i. (Key i, Value i)) xs)) k of
                               Some v \<Rightarrow> Some v | None \<Rightarrow> bGet api b k tx))"
proof (induction xs arbitrary: tx)
  case Nil
  then show ?case by (simp add: same_but_def)
next
  case (Cons i xs)
  obtain tx1 where p: "bPut api b (Key i) (Value i) tx = (None, tx1)" and l: "put_loop api b xs tx1 = (None, tx')"
    using Cons.prems(2) by (auto split: prod.splits option.splits)
  have g: "same_but api b tx tx1" "bGet api b (Key i) tx1 = Some (Value i)"
       "\<And>j. j \<noteq> Key i \<Longrightarrow> bGet api b j tx1 = bGet api b j tx" "bSequence api b tx1 = bSequence api b tx"
    using assms Cons.prems(1) p unfolding bolt_laws_def item_laws_def by blast+
  have "txBucket api b tx1" using g(1) Cons.prems(1) by (simp add: same_but_def)
  from Cons.IH [OF this l] g show ?case
    by (auto simp: same_but_def map_add_def split: option.splits)
qed

subsection \<open>Items in key order\<close>

definition live :: "(bytes \<times> bytes option) list \<Rightarrow> KV list" where
  "live c = map (\<lambda>(k, v). \<lparr>Key = k, Value = the v\<rparr>) (filter (\<lambda>(k, v). v \<noteq> None \<and> v \<noteq> Some []) c)"

lemma collect_live: "collect c res = res @ live c"
  by (induction c res rule: collect.induct) (auto simp: live_def split: option.splits)

lemma key_sorted_unique:
  fixes f :: "'a \<Rightarrow> 'b :: linorder"
  assumes "sorted_wrt (<) (map f xs)" and "sorted_wrt (<) (map f ys)" and "set xs = set ys"
  shows "xs = ys"
proof -
  have "map f xs = map f ys"
    using assms by (intro strict_sorted_equal) auto
  moreover have "inj_on f (set xs \<union> set ys)"
    using assms by (simp add: strict_sorted_iff distinct_map)
  ultimately show ?thesis by (rule map_inj_on)
qed

lemma live_keys_sorted: "sorted_wrt (<) (map fst c) \<Longrightarrow> sorted_wrt (<) (map Key (live c))"
  by (induction c) (auto simp: live_def)

lemma live_set: "set (live c) = {\<lparr>Key = k, Value = v\<rparr> | k v. (k, Some v) \<in> set c \<and> v \<noteq> []}"
  by (force simp: live_def)

lemma live_items:
  assumes "bolt_laws api" and "txBucket api b tx"
  shows "sorted_wrt (<) (map Key (live (cItems api b tx))) \<and>
         set (live (cItems api b tx)) = {\<lparr>Key = k, Value = v\<rparr> | k v. bGet api b k tx = Some v \<and> v \<noteq> []}"
proof -
  have "sorted_wrt (<) (map fst (cItems api b tx))"
      "\<And>k v. (k, Some v) \<in> set (cItems api b tx) \<longleftrightarrow> bGet api b k tx = Some v"
    using assms unfolding bolt_laws_def cursor_laws_def by blast+
  then show ?thesis using live_keys_sorted by (simp add: live_set)
qed

text \<open>The keys of a bucket filled by \<^verbatim>\<open>AddWithSeq\<close> and \<^verbatim>\<open>AddWithSeqID\<close> only.\<close>

definition seq_keys :: "'tx bolt \<Rightarrow> bytes \<Rightarrow> 'tx \<Rightarrow> bool" where
  "seq_keys api b tx \<longleftrightarrow> (\<forall>k v. bGet api b k tx = Some v \<longrightarrow> (\<exists>j. k = Itob j \<and> j \<le> bSequence api b tx))"

lemma AddWithSeqID_tx:
  assumes "bolt_laws api" and "AddWithSeqID api b v bb = Some ((n, None), bb')"
  shows "\<exists>tx tx'. txBucket api b (store bb) \<and> bNextSequence api b (store bb) = (Inr n, tx) \<and>
           bPut api b (Itob n) v tx = (None, tx') \<and> bb' = bb\<lparr>store := tx'\<rparr>"
proof -
  let ?f = "\<lambda>vs tx. if txBucket api b tx
            then (case bNextSequence api b tx of
                    (Inl err, tx') \<Rightarrow> (Some err, vs\<lparr>v_id := 0\<rparr>, tx')
                  | (Inr n, tx') \<Rightarrow> let (err, tx'') = bPut api b (Itob n) v tx' in (err, vs\<lparr>v_id := n\<rparr>, tx''))
            else (not_found, vs, tx)"
  obtain vs where "run_tx (dbUpdate api) ?f bb = Some ((None, vs), bb')" and n: "n = v_id vs"
    using assms(2) unfolding AddWithSeqID_def by auto
  from update_success [OF assms(1) this(1)] n show ?thesis
    by (auto simp: not_found_def split: if_splits prod.splits sum.splits)
qed

lemma add_step:
  assumes laws: "bolt_laws api" and add: "AddWithSeqID api b v bb = Some ((n, None), bb')"
      and keys: "seq_keys api b (store bb)" and room: "unat (bSequence api b (store bb)) + 1 < 2 ^ 64"
  shows "n = bSequence api b (store bb) + 1 \<and> bSequence api b (store bb') = n \<and> seq_keys api b (store bb') \<and>
         txBucket api b (store bb) \<and> bdb bb' = bdb bb \<and>
         live (cItems api b (store bb')) = live (cItems api b (store bb)) @ (if v = [] then [] else [\<lparr>Key = Itob n, Value = v\<rparr>])"
proof -
  let ?s = "bSequence api b (store bb)"
  obtain tx tx' where bu: "txBucket api b (store bb)" and ns: "bNextSequence api b (store bb) = (Inr n, tx)"
      and pu: "bPut api b (Itob n) v tx = (None, tx')" and bb': "bb' = bb\<lparr>store := tx'\<rparr>"
    using AddWithSeqID_tx [OF laws add] by blast
  have n: "n = ?s + 1" "bSequence api b tx = n" "same_but api b (store bb) tx" "\<And>k. bGet api b k tx = bGet api b k (store bb)"
    using laws bu ns unfolding bolt_laws_def seq_laws_def by blast+
  have bu1: "txBucket api b tx" using bu n(3) by (simp add: same_but_def)
  have p: "same_but api b tx tx'" "bGet api b (Itob n) tx' = Some v" "bSequence api b tx' = n"
      "\<And>j. j \<noteq> Itob n \<Longrightarrow> bGet api b j tx' = bGet api b j (store bb)"
    using laws bu1 pu n unfolding bolt_laws_def item_laws_def by metis+
  have bu2: "txBucket api b tx'" using bu1 p(1) by (simp add: same_but_def)
  have less: "?s < n" using room n(1) by (simp add: word_less_nat_alt unat_word_ariths)
  have old: "k < Itob n" if "bGet api b k (store bb) = Some w" for k w
    using that keys less unfolding seq_keys_def by (metis Itob_less_iff order.strict_trans1)
  have get: "bGet api b k tx' = Some w \<longleftrightarrow> (k = Itob n \<and> w = v) \<or> bGet api b k (store bb) = Some w" for k w
    using p(2,4) old [of "Itob n"] by (cases "k = Itob n") auto
  have keys': "seq_keys api b tx'"
  proof -
    have "\<exists>j. k = Itob j \<and> j \<le> n" if "bGet api b k (store bb) = Some w" for k w
      using that keys less unfolding seq_keys_def by (meson less_imp_le order.trans)
    then show ?thesis unfolding seq_keys_def get p(3) by blast
  qed
  let ?new = "if v = [] then [] else [\<lparr>Key = Itob n, Value = v\<rparr>]"
  let ?old = "live (cItems api b (store bb))"
  have so: "sorted_wrt (<) (map Key ?old)" and se: "set ?old = {\<lparr>Key = k, Value = v\<rparr> | k v. bGet api b k (store bb) = Some v \<and> v \<noteq> []}"
    using live_items [OF laws bu] by blast+
  have "\<forall>x\<in>set ?old. Key x < Itob n" unfolding se using old by auto
  then have "sorted_wrt (<) (map Key (?old @ ?new))" using so by (simp add: sorted_wrt_append)
  moreover have "set (live (cItems api b tx')) = set (?old @ ?new)"
    unfolding set_append se using live_items [OF laws bu2] by (auto simp: get)
  ultimately have "live (cItems api b tx') = ?old @ ?new"
    using live_items [OF laws bu2] key_sorted_unique [of Key] by blast
  then show ?thesis using n(1) p(3) keys' bu bb' by simp
qed

fun add_all :: "'tx bolt \<Rightarrow> bytes \<Rightarrow> bytes list \<Rightarrow> 'tx BBolt \<Rightarrow> (64 word list \<times> 'tx BBolt) option" where
  "add_all api b [] bb = Some ([], bb)"
| "add_all api b (v # vs) bb =
     (case AddWithSeqID api b v bb of
        Some ((n, None), bb') \<Rightarrow> map_option (\<lambda>(ns, bb''). (n # ns, bb'')) (add_all api b vs bb')
      | _ \<Rightarrow> None)"

definition queued :: "64 word list \<Rightarrow> bytes list \<Rightarrow> KV list" where
  "queued ns vs = map (\<lambda>(n, v). \<lparr>Key = Itob n, Value = v\<rparr>) (filter (\<lambda>(n, v). v \<noteq> []) (zip ns vs))"

lemma add_all_live:
  assumes "bolt_laws api"
  shows "add_all api b vs bb = Some (ns, bb') \<Longrightarrow> seq_keys api b (store bb) \<Longrightarrow>
    unat (bSequence api b (store bb)) + length vs < 2 ^ 64 \<Longrightarrow>
    live (cItems api b (store bb')) = live (cItems api b (store bb)) @ queued ns vs \<and>
    map unat ns = map ((+) (unat (bSequence api b (store bb)))) [1..<Suc (length vs)]"
proof (induction vs arbitrary: bb ns)
  case (Cons v vs)
  let ?s = "bSequence api b (store bb)"
  obtain n bb1 ns1 where a: "AddWithSeqID api b v bb = Some ((n, None), bb1)"
      and r: "add_all api b vs bb1 = Some (ns1, bb')" and ns: "ns = n # ns1"
    using Cons.prems(1) by (auto split: option.splits prod.splits)
  have st: "n = ?s + 1" "bSequence api b (store bb1) = n" "seq_keys api b (store bb1)"
      "live (cItems api b (store bb1)) = live (cItems api b (store bb)) @ (if v = [] then [] else [\<lparr>Key = Itob n, Value = v\<rparr>])"
    using add_step [OF assms a Cons.prems(2)] Cons.prems(3) by simp_all
  have un: "unat n = Suc (unat ?s)" using st(1) Cons.prems(3) by (simp add: unat_word_ariths)
  have "unat (bSequence api b (store bb1)) + length vs < 2 ^ 64" using un st(2) Cons.prems(3) by simp
  from Cons.IH [OF r st(3) this] have
    "live (cItems api b (store bb')) = live (cItems api b (store bb1)) @ queued ns1 vs"
    "map unat ns1 = map ((+) (Suc (unat ?s))) [1..<Suc (length vs)]"
    using un st(2) by simp_all
  moreover have "map ((+) (Suc m)) [1..<Suc k] = map ((+) m) [2..<Suc (Suc k)]" for m k
    by (rule nth_equalityI) (auto simp del: upt_Suc)
  moreover have "[1..<Suc (length (v # vs))] = 1 # [2..<Suc (Suc (length vs))]"
    by (simp add: upt_rec numeral_2_eq_2)
  ultimately show ?case using st(4) ns un by (simp add: queued_def)
qed (simp add: queued_def)

subsection \<open>An engine in memory\<close>

type_synonym mem = "(bytes, 64 word \<times> (bytes, bytes) fmap) fmap"

definition mem_items :: "bytes \<Rightarrow> mem \<Rightarrow> (bytes, bytes) fmap" where
  "mem_items b tx = (case fmlookup tx b of None \<Rightarrow> fmempty | Some (_, m) \<Rightarrow> m)"

definition mem_seq :: "bytes \<Rightarrow> mem \<Rightarrow> 64 word" where
  "mem_seq b tx = (case fmlookup tx b of None \<Rightarrow> 0 | Some (n, _) \<Rightarrow> n)"

definition mem_update :: "mem update_fn \<Rightarrow> mem update_fn" where
  "mem_update f vs tx = (case f vs tx of (Some e, vs', _) \<Rightarrow> (Some e, vs', tx) | r \<Rightarrow> r)"

definition mem_bolt :: "mem bolt" where
  "mem_bolt =
     \<lparr>dbUpdate = mem_update, dbBatch = mem_update, dbView = (\<lambda>f. f),
      txCreateBucketIfNotExists = (\<lambda>b tx. (None, if fmlookup tx b = None then fmupd b (0, fmempty) tx else tx)),
      txDeleteBucket = (\<lambda>b tx. if fmlookup tx b = None then (not_found, tx) else (None, fmdrop b tx)),
      txBucket = (\<lambda>b tx. fmlookup tx b \<noteq> None),
      bGet = (\<lambda>b k tx. fmlookup (mem_items b tx) k),
      bPut = (\<lambda>b k v tx. if k = [] then (Some ''key required'', tx)
                else (None, fmupd b (mem_seq b tx, fmupd k v (mem_items b tx)) tx)),
      bDelete = (\<lambda>b k tx. (None, fmupd b (mem_seq b tx, fmdrop k (mem_items b tx)) tx)),
      bSequence = mem_seq,
      bNextSequence = (\<lambda>b tx. (Inr (mem_seq b tx + 1), fmupd b (mem_seq b tx + 1, mem_items b tx) tx)),
      cItems = (\<lambda>b tx. map (\<lambda>k. (k, fmlookup (mem_items b tx) k)) (sorted_list_of_fset (fmdom (mem_items b tx))))\<rparr>"

lemma mem_bolt_laws: "bolt_laws mem_bolt"
proof -
  have "txn_laws mem_bolt"
    by (auto simp: txn_laws_def txn_outcome_def mem_bolt_def mem_update_def split: prod.splits option.splits)
  moreover have "item_laws mem_bolt"
    by (auto simp: item_laws_def same_but_def mem_bolt_def mem_items_def mem_seq_def split: if_splits)
  moreover have "seq_laws mem_bolt"
    by (auto simp: seq_laws_def same_but_def mem_bolt_def mem_items_def mem_seq_def)
  moreover have "cursor_laws mem_bolt"
    by (auto simp: cursor_laws_def mem_bolt_def comp_def strict_sorted_iff sorted_list_of_fset.rep_eq
        intro: fmdomI)
  ultimately show ?thesis by (simp add: bolt_laws_def)
qed

definition demo_bolt :: "mem BBolt" where
  "demo_bolt = snd (Start \<lparr>boltOpen = (\<lambda>_. Inr (fmupd [7] (0, fmempty) fmempty)), boltClose = None\<rparr> (NewBBolt ''bbolt.db'' fmempty))"

subsection \<open>Properties\<close>

text \<open>
  C22: \<^verbatim>\<open>BatchPut\<close> is atomic: on any engine that keeps its documented laws, an error leaves the store as it was, and
  success makes every key of the batch read back with the value of its last occurrence there, while every other
  key of every bucket reads as before.
\<close>
theorem BatchPut_atomic:
  assumes "bolt_laws api" and "BatchPut api b items bb = Some (e, bb')"
  shows "(e \<noteq> None \<longrightarrow> bb' = bb) \<and>
    (e = None \<longrightarrow> (\<forall>c k r r'. Get api c k bb = Some (r, None) \<longrightarrow> Get api c k bb' = Some (r', None) \<longrightarrow>
       r' = (case map_of (rev (map (\<lambda>i. (Key i, Value i)) items)) k of
               Some v \<Rightarrow> if c = b then v else r | None \<Rightarrow> r)))"
proof (intro conjI impI allI)
  assume "e \<noteq> None"
  then show "bb' = bb" using assms bucket_update_failure unfolding BatchPut_def by blast
next
  fix c k r r'
  assume e: "e = None" and g: "Get api c k bb = Some (r, None)" and g': "Get api c k bb' = Some (r', None)"
  obtain tx where t: "txBucket api b (store bb)" "put_loop api b items (store bb) = (None, tx)" "bb' = bb\<lparr>store := tx\<rparr>"
    using bucket_update_success [OF assms(1)] assms(2) e unfolding BatchPut_def by blast
  have "same_but api b (store bb) tx"
    "bGet api b k tx = (case map_of (rev (map (\<lambda>i. (Key i, Value i)) items)) k of Some v \<Rightarrow> Some v | None \<Rightarrow> bGet api b k (store bb))"
    using put_loop_spec [OF assms(1) t(1,2)] by blast+
  then show "r' = (case map_of (rev (map (\<lambda>i. (Key i, Value i)) items)) k of Some v \<Rightarrow> if c = b then v else r | None \<Rightarrow> r)"
    using Get_success [OF assms(1) g] Get_success [OF assms(1) g'] t(3)
    by (cases "c = b") (auto simp: same_but_def split: option.splits)
qed

theorem BatchPut_atomic_witness:
  "\<exists>bb'. BatchPut mem_bolt [7] [\<lparr>Key = [1], Value = [5]\<rparr>, \<lparr>Key = [1], Value = [6]\<rparr>] demo_bolt = Some (None, bb') \<and>
     Get mem_bolt [7] [1] bb' = Some ([6], None)"
proof -
  let ?items = "[\<lparr>Key = [1], Value = [5]\<rparr>, \<lparr>Key = [1], Value = [6]\<rparr>] :: KV list"
  note ev = demo_bolt_def Start_def NewBBolt_def Get_def BatchPut_def only_err_def run_tx_def in_bucket_def mem_bolt_def
    mem_update_def mem_items_def mem_seq_def no_vars_def
  obtain bb' where b: "BatchPut mem_bolt [7] ?items demo_bolt = Some (None, bb')" by (simp add: ev)
  have g: "Get mem_bolt [7] [1] demo_bolt = Some ([], None)" by (simp add: ev)
  have "\<exists>r. Get mem_bolt [7] [1] bb' = Some (r, None)" using b by (auto simp: ev)
  then show ?thesis using BatchPut_atomic [OF mem_bolt_laws b] g b by force
qed

text \<open>
  C16: A bucket filled by \<^verbatim>\<open>AddWithSeqID\<close> is a queue: on any engine that keeps its documented laws, adding values one
  after the other (fewer than the 64-bit sequence has left) returns consecutive numbers, and \<^verbatim>\<open>GetAll\<close> afterwards lists
  what it listed before followed by the new values in the order they were added, under their big-endian keys, empty
  values left out.
\<close>
theorem AddWithSeqID_queue:
  assumes "bolt_laws api" and "seq_keys api b (store bb)" and "unat (bSequence api b (store bb)) + length vs < 2 ^ 64"
      and "add_all api b vs bb = Some (ns, bb')"
      and "GetAll api b bb = Some (xs, None)" and "GetAll api b bb' = Some (ys, None)"
  shows "ys = xs @ queued ns vs \<and> map unat ns = map ((+) (unat (bSequence api b (store bb)))) [1..<Suc (length vs)]"
  using add_all_live [OF assms(1,4,2,3)] GetAll_success [OF assms(1,5)] GetAll_success [OF assms(1,6)]
  by (simp add: collect_live)

theorem AddWithSeqID_queue_witness:
  "\<exists>bb'. add_all mem_bolt [7] [[50], [], [40]] demo_bolt = Some ([1, 2, 3], bb') \<and>
     GetAll mem_bolt [7] bb' = Some ([\<lparr>Key = Itob 1, Value = [50]\<rparr>, \<lparr>Key = Itob 3, Value = [40]\<rparr>], None)"
proof -
  note ev = demo_bolt_def Start_def NewBBolt_def GetAll_def AddWithSeqID_def run_tx_def mem_bolt_def
    mem_update_def mem_items_def mem_seq_def no_vars_def Itob_def be64_def
  obtain bb' where a: "add_all mem_bolt [7] [[50], [], [40]] demo_bolt = Some ([1, 2, 3], bb')" by (simp add: ev)
  have g: "GetAll mem_bolt [7] demo_bolt = Some ([], None)" by (simp add: ev sorted_list_of_fset.rep_eq)
  have k: "seq_keys mem_bolt [7] (store demo_bolt)" by (simp add: seq_keys_def ev)
  have s: "bSequence mem_bolt [7] (store demo_bolt) = 0" by (simp add: ev)
  obtain ys where y: "GetAll mem_bolt [7] bb' = Some (ys, None)" using a by (auto simp: ev)
  have "ys = [] @ queued [1, 2, 3] [[50], [], [40]]"
    using AddWithSeqID_queue [OF mem_bolt_laws k _ a g y] s by simp
  then show ?thesis using a y by (simp add: queued_def)
qed

text \<open>
  After \<^verbatim>\<open>Stop\<close> the methods do not report an error: they call through a nil handle.
\<close>
theorem stopped_store_panics:
  "Get api b k (snd (Stop e bb)) = None \<and> Put api b k v (snd (Stop e bb)) = None \<and>
   AddWithSeqID api b v (snd (Stop e bb)) = None \<and> GetAll api b (snd (Stop e bb)) = None"
  by (simp add: Stop_def Get_def Put_def AddWithSeqID_def GetAll_def run_tx_def only_err_def split: option.splits)

text \<open>
  Any sequence of \<^verbatim>\<open>Start\<close> and \<^verbatim>\<open>Stop\<close> calls keeps at most the current database file open, and none after a \<^verbatim>\<open>Stop\<close>.
\<close>
theorem bbolt_no_leak:
  "bopened (db_calls (\<lambda>e s. snd (Start e s)) (\<lambda>e s. snd (Stop e s)) (cs @ [CStop d]) (NewBBolt f c)) = {}"
  using bb.nothing_left_open [of "NewBBolt f c" cs d] by (simp add: NewBBolt_def disciplined_always)

end
