(* ===== verification/Otel.thy ===== *)
theory Otel
  imports SqlServices GoFloat
begin

section \<open>The telemetry service\<close>

text \<open>
  \<^verbatim>\<open>monitoring/otel/otello.go\<close>.  The connection to the collector and the three providers built on it are numbers; \<open>o_opened\<close> and
  \<open>running\<close> are ghost sets, the connections not closed and the providers not shut down.  What gRPC and the exporters answer is the
  argument \<open>otel_env\<close>.  The service fulfils the contract \<open>db_service\<close> with its connection as the handle.
\<close>

record ConfigOtello =
  Url :: string
  ServiceName :: string
  UnqServiceName :: string
  Labels :: "(string, string) gomap"
  WithoutPrometheus :: bool
  SampleRatio :: gofloat
  TLS :: bool

record Otello =
  config :: ConfigOtello
  conn :: "nat option"
  tracerProvider :: "nat option"
  loggerProvider :: "nat option"
  meterProvider :: "nat option"
  inited :: bool
  has_tracer :: bool
  has_logger :: bool
  has_meter :: bool
  o_attributes :: "(string \<times> string) list"
  o_opened :: "nat set"
  running :: "nat set"
  o_fresh :: nat

text \<open>\<open>labels\<close> is the order in which \<^verbatim>\<open>range\<close> visits the labels.\<close>

record otel_env =
  labels :: "(string \<times> string) list"
  newClient :: "string \<Rightarrow> bool \<Rightarrow> string option"
  closeConn :: "string option"
  resourceNew :: "string option"
  traceExporter :: "string option"
  logExporter :: "string option"
  metricExporter :: "string option"
  shutdownErr :: "nat \<Rightarrow> string option"

definition NewOtello :: "ConfigOtello \<Rightarrow> Otello" where
  "NewOtello cfg =
     \<lparr>config = cfg, conn = None, tracerProvider = None, loggerProvider = None, meterProvider = None, inited = False,
      has_tracer = False, has_logger = False, has_meter = False, o_attributes = [], o_opened = {}, running = {}, o_fresh = 0\<rparr>"

subsection \<open>Attributes\<close>

fun set_labels :: "nat \<Rightarrow> (string \<times> string) list \<Rightarrow> (string \<times> string) list \<Rightarrow> (string \<times> string) list" where
  "set_labels i [] as = as"
| "set_labels i (kv # ls) as = set_labels (Suc i) ls (as[i := kv])"

definition otel_attributes :: "ConfigOtello \<Rightarrow> (string \<times> string) list \<Rightarrow> (string \<times> string) list" where
  "otel_attributes cfg ls =
     (let i = (if UnqServiceName cfg \<noteq> [] then 2 else 1);
          a0 = replicate (length ls + i) ([], []);
          a1 = a0[0 := (''service.name'', ServiceName cfg)];
          a2 = (if UnqServiceName cfg \<noteq> [] then a1[0 := (''service.unique.name'', UnqServiceName cfg)] else a1)
      in set_labels i ls a2)"

lemma set_labels_spec:
  "length as = i + length ls \<Longrightarrow> set_labels i ls as = take i as @ ls"
proof (induction ls arbitrary: i as)
  case (Cons kv ls)
  then have "set_labels i (kv # ls) as = take (Suc i) (as[i := kv]) @ ls" by simp
  also have "take (Suc i) (as[i := kv]) = take i as @ [kv]"
    using Cons.prems by (simp add: take_Suc_conv_app_nth)
  finally show ?case by simp
qed simp

text \<open>Without a unique name the attributes are the service name and the labels; with one, the service name is overwritten and an empty
  attribute is left beside it.\<close>

lemma otel_attributes_plain:
  "UnqServiceName cfg = [] \<Longrightarrow> otel_attributes cfg ls = (''service.name'', ServiceName cfg) # ls"
  by (simp add: otel_attributes_def Let_def set_labels_spec)

lemma otel_attributes_unique:
  "UnqServiceName cfg \<noteq> [] \<Longrightarrow> otel_attributes cfg ls = (''service.unique.name'', UnqServiceName cfg) # ([], []) # ls"
  by (simp add: otel_attributes_def Let_def set_labels_spec numeral_2_eq_2)

subsection \<open>Providers\<close>

text \<open>The comparison with 0, which a NaN does not pass.\<close>

fun not_positive :: "gofloat \<Rightarrow> bool" where
  "not_positive NaN = False"
| "not_positive (Inf s) = s"
| "not_positive (Fin s m e) = (s \<or> m = 0)"

definition sample_ratio :: "ConfigOtello \<Rightarrow> gofloat" where
  "sample_ratio cfg = (if not_positive (SampleRatio cfg) then of_int_float binary64 1 else SampleRatio cfg)"

text \<open>A ratio that is a number comes out above 0.\<close>

lemma not_positive_value: "finite_float x \<Longrightarrow> not_positive x = (fval x \<le> 0)"
proof (cases x)
  case (Fin s m e)
  have "\<not> (2 :: real) powi e \<le> 0" by (simp add: not_le)
  then show ?thesis unfolding Fin by (cases s) (auto simp only: not_positive.simps fval.simps mult_le_0_iff, simp_all)
qed simp_all

lemma sample_ratio_positive:
  assumes "finite_float (SampleRatio cfg)"
  shows "finite_float (sample_ratio cfg) \<and> 0 < fval (sample_ratio cfg)"
proof (cases "not_positive (SampleRatio cfg)")
  case True
  have "of_int_float binary64 1 = Fin False 4503599627370496 (- 52)" by (simp add: float_eval)
  then show ?thesis using True by (simp add: sample_ratio_def)
qed (use assms not_positive_value [OF assms] in \<open>simp add: sample_ratio_def\<close>)

definition initTracerProvider :: "otel_env \<Rightarrow> Otello \<Rightarrow> string option \<times> Otello" where
  "initTracerProvider e o1 =
     (case traceExporter e of
        Some err \<Rightarrow> (Some err, o1)
      | None \<Rightarrow> (None, o1\<lparr>tracerProvider := Some (o_fresh o1), running := insert (o_fresh o1) (running o1), o_fresh := Suc (o_fresh o1)\<rparr>))"

definition initLoggerProvider :: "otel_env \<Rightarrow> Otello \<Rightarrow> string option \<times> Otello" where
  "initLoggerProvider e o1 =
     (case logExporter e of
        Some err \<Rightarrow> (Some err, o1)
      | None \<Rightarrow> (None, o1\<lparr>loggerProvider := Some (o_fresh o1), running := insert (o_fresh o1) (running o1), o_fresh := Suc (o_fresh o1)\<rparr>))"

definition initMeterProvider :: "otel_env \<Rightarrow> Otello \<Rightarrow> string option \<times> Otello" where
  "initMeterProvider e o1 =
     (case metricExporter e of
        Some err \<Rightarrow> (Some err, o1)
      | None \<Rightarrow> (None, o1\<lparr>meterProvider := Some (o_fresh o1), running := insert (o_fresh o1) (running o1), o_fresh := Suc (o_fresh o1)\<rparr>))"

subsection \<open>Start and Stop\<close>

definition drop_conn :: "Otello \<Rightarrow> Otello" where
  "drop_conn o1 = o1\<lparr>o_opened := o_opened o1 - set_option (conn o1), conn := None\<rparr>"

definition start_providers :: "otel_env \<Rightarrow> Otello \<Rightarrow> string option \<times> Otello" where
  "start_providers e o1 =
     (case initTracerProvider e o1 of
        (Some err, o2) \<Rightarrow> (Some err, o2)
      | (None, o2) \<Rightarrow> (case initLoggerProvider e o2 of
          (Some err, o3) \<Rightarrow> (Some err, o3)
        | (None, o3) \<Rightarrow>
            if \<not> WithoutPrometheus (config o3) then initMeterProvider e o3 else (None, o3)))"

text \<open>\<open>newClient\<close> is told the address and whether the transport is encrypted.\<close>

definition initConn :: "otel_env \<Rightarrow> Otello \<Rightarrow> string option" where
  "initConn e o1 = newClient e (ConfigOtello.Url (config o1)) (TLS (config o1))"

definition Start :: "otel_env \<Rightarrow> Otello \<Rightarrow> string option \<times> Otello" where
  "Start e o0 =
     (let o1 = drop_conn o0 in
      case initConn e o1 of
        Some err \<Rightarrow> (Some err, o1)
      | None \<Rightarrow>
          let o2 = o1\<lparr>conn := Some (o_fresh o1), o_opened := insert (o_fresh o1) (o_opened o1), o_fresh := Suc (o_fresh o1)\<rparr> in
          case resourceNew e of
            Some err \<Rightarrow> (Some err, o2)
          | None \<Rightarrow>
              (case start_providers e (o2\<lparr>o_attributes := otel_attributes (config o2) (labels e)\<rparr>) of
                 (Some err, o3) \<Rightarrow> (Some err, o3)
               | (None, o3) \<Rightarrow>
                   (None, o3\<lparr>inited := True, has_tracer := True, has_logger := True,
                             has_meter := (has_meter o3 \<or> \<not> WithoutPrometheus (config o3))\<rparr>)))"

definition shutdown_errs :: "otel_env \<Rightarrow> nat option \<Rightarrow> string list" where
  "shutdown_errs e p = (case p of None \<Rightarrow> [] | Some n \<Rightarrow> (case shutdownErr e n of None \<Rightarrow> [] | Some err \<Rightarrow> [err]))"

text \<open>The errors joined into the result, and the state; the providers stay in their fields.\<close>

definition Stop :: "otel_env \<Rightarrow> Otello \<Rightarrow> string list \<times> Otello" where
  "Stop e o0 =
     (let meter = (if \<not> WithoutPrometheus (config o0) then meterProvider o0 else None);
          errs = shutdown_errs e (tracerProvider o0) @ shutdown_errs e (loggerProvider o0) @ shutdown_errs e meter;
          o1 = o0\<lparr>running := running o0 - set_option (tracerProvider o0) - set_option (loggerProvider o0) - set_option meter\<rparr>
      in case conn o1 of
           None \<Rightarrow> (errs, o1)
         | Some c \<Rightarrow> (errs @ (case closeConn e of None \<Rightarrow> [] | Some err \<Rightarrow> [err]), drop_conn o1))"

lemmas otel_defs =
  Start_def Stop_def initConn_def drop_conn_def start_providers_def initTracerProvider_def initLoggerProvider_def initMeterProvider_def Let_def

interpretation otel: db_service "\<lambda>e s. snd (Start e s)" "\<lambda>e s. snd (Stop e s)" conn o_opened "\<lambda>_. True"
  by unfold_locales (auto simp: otel_defs split: option.splits)

subsection \<open>What callers ask for\<close>

definition Inited :: "Otello \<Rightarrow> bool" where
  "Inited o1 = inited o1"

text \<open>Whether the tracer, the logger and the meter are there; they are nil before the first complete start.\<close>

definition GetTracer :: "Otello \<Rightarrow> bool" where
  "GetTracer o1 = has_tracer o1"

definition GetLogger :: "Otello \<Rightarrow> bool" where
  "GetLogger o1 = has_logger o1"

definition GetMeter :: "Otello \<Rightarrow> bool" where
  "GetMeter o1 = has_meter o1"

text \<open>\<open>start\<close> is the method \<^verbatim>\<open>Start\<close> of the tracer; without a tracer there is a panic, \<^const>\<open>None\<close>.\<close>

definition ChildCtx :: "('c \<Rightarrow> string \<Rightarrow> 'c \<times> 's) \<Rightarrow> 'c \<Rightarrow> string \<Rightarrow> Otello \<Rightarrow> ('c \<times> 's) option" where
  "ChildCtx start ctx spanName o1 = (if has_tracer o1 then Some (start ctx spanName) else None)"

text \<open>A service that says it is ready has a tracer, whatever was started and stopped before; but it says so after \<^verbatim>\<open>Stop\<close> too.\<close>

inductive otel_reachable :: "Otello \<Rightarrow> bool" where
  new: "otel_reachable (NewOtello cfg)"
| start: "otel_reachable s \<Longrightarrow> otel_reachable (snd (Start e s))"
| stop: "otel_reachable s \<Longrightarrow> otel_reachable (snd (Stop e s))"

lemma otel_ready: "otel_reachable s \<Longrightarrow> Inited s = (ChildCtx start ctx n s \<noteq> None)"
  by (induction rule: otel_reachable.induct)
     (auto simp: Inited_def ChildCtx_def NewOtello_def otel_defs split: option.splits)

text \<open>A ready service has a logger, and a meter exactly when it is configured to serve one.\<close>

lemma config_kept [simp]: "config (snd (Start e s)) = config s" "config (snd (Stop e s)) = config s"
  by (auto simp: otel_defs split: option.splits)

lemma otel_instruments:
  "otel_reachable s \<Longrightarrow> GetTracer s = Inited s \<and> GetLogger s = Inited s \<and> GetMeter s = (Inited s \<and> \<not> WithoutPrometheus (config s))"
proof (induction rule: otel_reachable.induct)
  case (start s e)
  then show ?case by (auto simp: GetTracer_def GetLogger_def GetMeter_def Inited_def otel_defs split: option.splits)
next
  case (stop s e)
  then show ?case by (auto simp: GetTracer_def GetLogger_def GetMeter_def Inited_def otel_defs split: option.splits)
qed (simp add: GetTracer_def GetLogger_def GetMeter_def Inited_def NewOtello_def)

lemma stopped_still_inited: "Inited (snd (Stop e s)) = Inited s"
  by (simp add: Inited_def otel_defs split: option.split)

subsection \<open>Span identifiers\<close>

definition valid_span :: "byte list \<Rightarrow> bool" where
  "valid_span sid \<longleftrightarrow> (\<exists>b\<in>set sid. b \<noteq> 0)"

text \<open>\<open>reads i\<close> is the \<open>i\<close>-th read of eight random bytes; the loop ends with the first valid one.\<close>

partial_function (option) span_loop :: "(nat \<Rightarrow> byte list option) \<Rightarrow> nat \<Rightarrow> byte list option" where
  "span_loop reads i =
     (case reads i of
        Some sid \<Rightarrow> if valid_span sid then Some sid else span_loop reads (Suc i)
      | None \<Rightarrow> span_loop reads (Suc i))"

definition NewSpanID :: "(nat \<Rightarrow> byte list option) \<Rightarrow> byte list option" where
  "NewSpanID reads = span_loop reads 0"

lemma span_loop_first:
  assumes "reads (i + n) = Some sid" and "valid_span sid" and "\<forall>m<n. \<forall>s. reads (i + m) = Some s \<longrightarrow> \<not> valid_span s"
  shows "span_loop reads i = Some sid"
  using assms
proof (induction n arbitrary: i)
  case 0
  then show ?case by (simp add: span_loop.simps)
next
  case (Suc n)
  have "span_loop reads (Suc i) = Some sid" using Suc.prems by (intro Suc.IH) auto
  moreover have "\<forall>s. reads i = Some s \<longrightarrow> \<not> valid_span s" using Suc.prems(3) by (metis add.right_neutral zero_less_Suc)
  ultimately show ?case by (subst span_loop.simps) (auto split: option.split)
qed

text \<open>\<^verbatim>\<open>fromHex\<close> is \<^verbatim>\<open>trace.TraceIDFromHex\<close>; the result is the span context: trace, span, sampled, remote.\<close>

definition GetFromRemoteWithTraceID ::
    "(string \<Rightarrow> string + byte list) \<Rightarrow> (nat \<Rightarrow> byte list option) \<Rightarrow> string \<Rightarrow> bool \<Rightarrow>
     (string + byte list \<times> byte list \<times> bool \<times> bool) option" where
  "GetFromRemoteWithTraceID fromHex reads tid remote =
     (case fromHex tid of
        Inl err \<Rightarrow> Some (Inl err)
      | Inr t \<Rightarrow> map_option (\<lambda>sid. Inr (t, sid, True, remote)) (NewSpanID reads))"

subsection \<open>Properties\<close>

text \<open>
  C39: The search for a span identifier ends: as soon as the random source ever yields eight bytes that are not all zero, the loop
  returns the first such read, however many reads failed or gave zeros before.
\<close>
theorem NewSpanID_terminates:
  assumes "reads n = Some sid" and "valid_span sid"
  shows "\<exists>k\<le>n. \<exists>s. reads k = Some s \<and> valid_span s \<and> NewSpanID reads = Some s \<and> (\<forall>m<k. \<forall>t. reads m = Some t \<longrightarrow> \<not> valid_span t)"
proof -
  let ?P = "\<lambda>k. \<exists>s. reads k = Some s \<and> valid_span s"
  define k where "k = (LEAST k. ?P k)"
  have "?P n" using assms by blast
  then have k: "?P k" "k \<le> n" "\<forall>m<k. \<not> ?P m" unfolding k_def by (auto intro: LeastI Least_le dest: not_less_Least)
  then obtain s where "reads k = Some s" "valid_span s" by blast
  then show ?thesis using k span_loop_first [of reads 0 k s] by (auto simp: NewSpanID_def)
qed

theorem NewSpanID_terminates_witness:
  "NewSpanID (\<lambda>i. if i = 0 then None else if i = 1 then Some [0, 0, 0, 0, 0, 0, 0, 0] else Some [0, 0, 0, 0, 0, 0, 0, 9]) =
     Some [0, 0, 0, 0, 0, 0, 0, 9]"
proof -
  let ?r = "\<lambda>i :: nat. if i = 0 then None else if i = 1 then Some [0, 0, 0, 0, 0, 0, 0, 0] else Some [0, 0, 0, 0, 0, 0, 0, 9 :: byte]"
  have "?r 2 = Some [0, 0, 0, 0, 0, 0, 0, 9]" "valid_span [0, 0, 0, 0, 0, 0, 0, 9]" by (simp_all add: valid_span_def)
  then show ?thesis using NewSpanID_terminates [of ?r 2 "[0, 0, 0, 0, 0, 0, 0, 9]"]
    by (auto simp: valid_span_def split: if_splits)
qed

text \<open>
  Started once, with any answers, and stopped, the service leaves neither a connection open nor a provider running.
\<close>
theorem otel_stop_clean:
  "o_opened (snd (Stop e' (snd (Start e (NewOtello cfg))))) = {} \<and> running (snd (Stop e' (snd (Start e (NewOtello cfg))))) = {}"
  by (auto simp: otel_defs NewOtello_def split: option.split)

text \<open>
  Started twice, it loses the providers of the first start: they run on and no field refers to them.
\<close>
theorem otel_restart_leaks_providers:
  assumes "\<And>u tls. newClient e u tls = None" and "resourceNew e = None" and "traceExporter e = None" and "logExporter e = None"
      and "metricExporter e = None" and "\<And>u tls. newClient e2 u tls = None" and "resourceNew e2 = None" and "traceExporter e2 = None"
      and "logExporter e2 = None" and "metricExporter e2 = None"
  shows "running (snd (Stop e3 (snd (Start e2 (snd (Start e (NewOtello cfg))))))) \<noteq> {}"
proof -
  have "Suc 0 \<in> running (snd (Stop e3 (snd (Start e2 (snd (Start e (NewOtello cfg)))))))"
    using assms by (cases "WithoutPrometheus cfg") (simp_all add: otel_defs NewOtello_def)
  then show ?thesis by blast
qed

end
