(* ===== verification/GoStrconv.thy ===== *)
theory GoStrconv
  imports Prelude
begin

section \<open>Decimal numbers\<close>

text \<open>
  The part of Go's \<^verbatim>\<open>strconv\<close> the components use: \<open>Itoa\<close>, and \<open>ParseInt\<close>/\<open>ParseUint\<close> in base 10, which
  return a value beside the error (0 after a syntax error, the nearest bound after a range error).
\<close>

definition digit :: "nat \<Rightarrow> char" where
  "digit n = char_of (48 + n)"

definition is_digit :: "char \<Rightarrow> bool" where
  "is_digit c \<longleftrightarrow> 48 \<le> (of_char c :: nat) \<and> (of_char c :: nat) \<le> 57"

definition digit_val :: "char \<Rightarrow> nat" where
  "digit_val c = of_char c - 48"

fun utoa :: "nat \<Rightarrow> string" where
  "utoa n = (if n < 10 then [digit n] else utoa (n div 10) @ [digit (n mod 10)])"

declare utoa.simps [simp del]

definition Itoa :: "int \<Rightarrow> string" where
  "Itoa i = (if i < 0 then CHR ''-'' # utoa (nat (- i)) else utoa (nat i))"

definition digits_val :: "string \<Rightarrow> nat" where
  "digits_val s = foldl (\<lambda>a c. 10 * a + digit_val c) 0 s"

datatype num_error = SyntaxError | RangeError

definition ParseUint :: "nat \<Rightarrow> string \<Rightarrow> nat \<times> num_error option" where
  "ParseUint bits s =
     (if s = [] \<or> \<not> list_all is_digit s then (0, Some SyntaxError)
      else if 2 ^ bits \<le> digits_val s then (2 ^ bits - 1, Some RangeError)
      else (digits_val s, None))"

definition ParseInt :: "nat \<Rightarrow> string \<Rightarrow> int \<times> num_error option" where
  "ParseInt bits s =
     (case s of
        [] \<Rightarrow> (0, Some SyntaxError)
      | c # t \<Rightarrow>
          let neg = (c = CHR ''-''); body = (if c = CHR ''-'' \<or> c = CHR ''+'' then t else s) in
          if body = [] \<or> \<not> list_all is_digit body then (0, Some SyntaxError)
          else let v = int (digits_val body) in
            if \<not> neg \<and> 2 ^ (bits - 1) \<le> v then (2 ^ (bits - 1) - 1, Some RangeError)
            else if neg \<and> 2 ^ (bits - 1) < v then (- (2 ^ (bits - 1)), Some RangeError)
            else (if neg then - v else v, None))"

subsection \<open>Round trip\<close>

lemma not_digit_sign [simp]: "\<not> is_digit CHR ''-''" "\<not> is_digit CHR ''+''"
  by (simp_all add: is_digit_def)

lemma digit_is_digit [simp]: "n < 10 \<Longrightarrow> is_digit (digit n)"
  by (simp add: is_digit_def digit_def)

lemma digit_val_digit [simp]: "n < 10 \<Longrightarrow> digit_val (digit n) = n"
  by (simp add: digit_val_def digit_def)

lemma utoa_not_Nil [simp]: "utoa n \<noteq> []"
  by (subst utoa.simps) simp

lemma utoa_digits [simp]: "list_all is_digit (utoa n)"
  by (induction n rule: utoa.induct) (subst utoa.simps, simp)

lemma digits_val_utoa [simp]: "digits_val (utoa n) = n"
proof (induction n rule: utoa.induct)
  case (1 n)
  then show ?case by (subst utoa.simps) (simp add: digits_val_def)
qed

lemma utoa_hd: "is_digit (hd (utoa n))"
  using utoa_digits [of n] utoa_not_Nil [of n] by (cases "utoa n") auto

lemma Itoa_inj [simp]: "Itoa i = Itoa j \<longleftrightarrow> i = j"
proof
  assume eq: "Itoa i = Itoa j"
  have hd: "hd (utoa n) \<noteq> CHR ''-''" for n
    using utoa_hd [of n] not_digit_sign(1) by metis
  show "i = j"
  proof (cases "i < 0"; cases "j < 0")
    assume "i < 0" "j < 0"
    with eq have "utoa (nat (- i)) = utoa (nat (- j))" by (simp add: Itoa_def)
    then have "nat (- i) = nat (- j)" by (metis digits_val_utoa)
    with \<open>i < 0\<close> \<open>j < 0\<close> show ?thesis by simp
  next
    assume "\<not> i < 0" "\<not> j < 0"
    with eq have "utoa (nat i) = utoa (nat j)" by (simp add: Itoa_def)
    then have "nat i = nat j" by (metis digits_val_utoa)
    with \<open>\<not> i < 0\<close> \<open>\<not> j < 0\<close> show ?thesis by simp
  qed (use eq hd in \<open>auto simp: Itoa_def\<close>, metis list.sel(1), metis list.sel(1))
qed simp

lemma ParseUint_utoa: "n < 2 ^ bits \<Longrightarrow> ParseUint bits (utoa n) = (n, None)"
  by (simp add: ParseUint_def)

lemma ParseInt_Itoa:
  assumes "- (2 ^ (bits - 1)) \<le> i" and "i < 2 ^ (bits - 1)"
  shows "ParseInt bits (Itoa i) = (i, None)"
proof (cases "i < 0")
  case True
  then show ?thesis using assms by (simp add: ParseInt_def Itoa_def)
next
  case False
  obtain c t where u: "utoa (nat i) = c # t" using utoa_not_Nil by (meson list.exhaust)
  then have c: "is_digit c" and l: "list_all is_digit (c # t)" and v: "digits_val (c # t) = nat i"
    using utoa_hd [of "nat i"] utoa_digits [of "nat i"] digits_val_utoa [of "nat i"] by simp_all
  have "c \<noteq> CHR ''-''" "c \<noteq> CHR ''+''" using c not_digit_sign by metis+
  then show ?thesis using False assms u l v by (simp add: ParseInt_def Itoa_def)
qed

end
