(* ===== verification/MailSender.thy ===== *)
theory MailSender
  imports SqlServices GoStrconv
begin

section \<open>The mail sender\<close>

text \<open>
  \<^verbatim>\<open>mail/sender/mailSender.go\<close>.  One SMTP connection is kept between messages.  Clients are numbers; what \<^verbatim>\<open>go-mail\<close>
  answers is the argument \<open>mail_env\<close>, where a send may also give no answer in time (\<open>NoAnswer\<close>).  The record
  \<open>world\<close> is ghost state: the clients dialled and not closed, and the attempts to send, each with its client.
  \<^verbatim>\<open>SendMessage\<close> holds the mutex of the state from the end point on, so one call is one step.
\<close>

subsection \<open>Host and port\<close>

datatype addr_error = MissingPort | TooManyColons | MissingBracket | UnexpectedOpen | UnexpectedClose

definition check_brackets :: "string \<Rightarrow> nat \<Rightarrow> nat \<Rightarrow> string \<Rightarrow> nat \<Rightarrow> addr_error + string \<times> string" where
  "check_brackets hp j k host i =
     (if first_index CHR ''['' (drop j hp) \<noteq> None then Inl UnexpectedOpen
      else if first_index CHR '']'' (drop k hp) \<noteq> None then Inl UnexpectedClose
      else Inr (host, drop (Suc i) hp))"

text \<open>\<^verbatim>\<open>net.SplitHostPort\<close>.\<close>

definition SplitHostPort :: "string \<Rightarrow> addr_error + string \<times> string" where
  "SplitHostPort hp =
     (case last_index CHR '':'' hp of
        None \<Rightarrow> Inl MissingPort
      | Some i \<Rightarrow>
          if hd hp = CHR ''['' then
            (case first_index CHR '']'' hp of
               None \<Rightarrow> Inl MissingBracket
             | Some end \<Rightarrow>
                 if Suc end = length hp then Inl MissingPort
                 else if Suc end = i then check_brackets hp 1 (Suc end) (take (end - 1) (drop 1 hp)) i
                 else if hp ! Suc end = CHR '':'' then Inl TooManyColons
                 else Inl MissingPort)
          else if first_index CHR '':'' (take i hp) \<noteq> None then Inl TooManyColons
          else check_brackets hp 0 0 (take i hp) i)"

definition Atoi :: "string \<Rightarrow> num_error + int" where
  "Atoi s = (case ParseInt 64 s of (v, None) \<Rightarrow> Inr v | (_, Some e) \<Rightarrow> Inl e)"

subsection \<open>Data\<close>

definition defaultSendTimeout :: duration where
  "defaultSendTimeout = 30 * 1000000000"

record ConfigMailSender =
  Server :: string
  User :: string
  Password :: string
  WithSSL :: bool
  Timeout :: string
  DryRun :: bool

record mailSenderState =
  client :: "nat option"
  host :: string
  port :: int
  timeout :: duration

definition empty_state :: mailSenderState where
  "empty_state = \<lparr>client = None, host = [], port = 0, timeout = 0\<rparr>"

record MailSender =
  config :: ConfigMailSender
  st :: "mailSenderState option"

datatype content_type = TypeTextHTML | TypeTextPlain

record Msg =
  mFrom :: string
  mTo :: string
  mSubject :: string
  mType :: content_type
  mBody :: string

datatype tls_policy = TLSOpportunistic | TLSMandatory

record client_options =
  oHost :: string
  oPort :: int
  oUsername :: string
  oPassword :: string
  oPolicy :: tls_policy
  oTimeout :: duration

datatype send_reason = ErrConnCheck | OtherReason nat

text \<open>What the code asks of an error of \<^verbatim>\<open>Send\<close>: \<^verbatim>\<open>errors.Is(ErrNoActiveConnection)\<close>, the reason of a \<^verbatim>\<open>SendError\<close>, \<^verbatim>\<open>net.Error\<close>.\<close>

record mail_error =
  isNoActiveConnection :: bool
  asSendError :: "send_reason option"
  asNetError :: bool

datatype send_answer = Answer "mail_error option" | NoAnswer

datatype send_error =
    NotConfigured
  | InvalidAddress string addr_error
  | InvalidPort string num_error
  | LibError string
  | SendTimeout
  | SendFailed mail_error

record world =
  opened :: "nat set"
  fresh :: nat
  attempts :: "(nat \<times> Msg) list"

record mail_env =
  msgFrom :: "string \<Rightarrow> string option"
  msgTo :: "string \<Rightarrow> string option"
  newClient :: "client_options \<Rightarrow> string option"
  dialErr :: "client_options \<Rightarrow> nat \<Rightarrow> string option"
  sendAns :: "nat \<Rightarrow> nat \<Rightarrow> Msg \<Rightarrow> send_answer"
  closeErr :: "nat \<Rightarrow> string option"
  parseDuration :: "string \<Rightarrow> string + duration"

subsection \<open>Operations\<close>

definition NewMailSender :: "ConfigMailSender \<Rightarrow> MailSender" where
  "NewMailSender cfg = \<lparr>config = cfg, st = Some empty_state\<rparr>"

definition hostAndPort :: "ConfigMailSender \<Rightarrow> send_error + string \<times> int" where
  "hostAndPort cfg =
     (case SplitHostPort (Server cfg) of
        Inl e \<Rightarrow> Inl (InvalidAddress (Server cfg) e)
      | Inr (h, portStr) \<Rightarrow> (case Atoi portStr of Inl e \<Rightarrow> Inl (InvalidPort portStr e) | Inr p \<Rightarrow> Inr (h, p)))"

definition Start :: "MailSender \<Rightarrow> send_error option \<times> MailSender" where
  "Start m =
     (if Server (config m) = [] then (Some NotConfigured, m)
      else let s = (case st m of None \<Rightarrow> empty_state | Some s \<Rightarrow> s); m1 = m\<lparr>st := Some s\<rparr> in
        case hostAndPort (config m) of
          Inl e \<Rightarrow> (Some e, m1)
        | Inr (h, p) \<Rightarrow> (None, m1\<lparr>st := Some (s\<lparr>host := h, port := p\<rparr>)\<rparr>))"

definition Stop :: "mail_env \<Rightarrow> MailSender \<times> world \<Rightarrow> string option \<times> MailSender \<times> world" where
  "Stop env mw =
     (let (m, w) = mw in
      case st m of
        None \<Rightarrow> (None, m, w)
      | Some s \<Rightarrow> (case client s of
          None \<Rightarrow> (None, m, w)
        | Some c \<Rightarrow> (closeErr env c, m\<lparr>st := Some (s\<lparr>client := None\<rparr>)\<rparr>, w\<lparr>opened := opened w - {c}\<rparr>)))"

definition endpointLocked ::
    "mail_env \<Rightarrow> ConfigMailSender \<Rightarrow> mailSenderState \<Rightarrow> (send_error + string \<times> int \<times> duration) \<times> mailSenderState" where
  "endpointLocked env cfg s =
     (case (if host s = [] then hostAndPort cfg else Inr (host s, port s)) of
        Inl e \<Rightarrow> (Inl e, s)
      | Inr (h, p) \<Rightarrow>
          let s1 = s\<lparr>host := h, port := p\<rparr>;
              s2 = (if timeout s1 \<le> 0
                    then s1\<lparr>timeout := (case parseDuration env (Timeout cfg) of
                           Inl _ \<Rightarrow> defaultSendTimeout
                         | Inr d \<Rightarrow> if d \<le> 0 then defaultSendTimeout else d)\<rparr>
                    else s1)
          in (Inr (host s2, port s2, timeout s2), s2))"

definition sendWithTimeout :: "mail_env \<Rightarrow> nat \<Rightarrow> Msg \<Rightarrow> world \<Rightarrow> send_error option \<times> world" where
  "sendWithTimeout env c mm w =
     (let w1 = w\<lparr>attempts := attempts w @ [(c, mm)]\<rparr> in
      case sendAns env c (length (attempts w)) mm of
        Answer None \<Rightarrow> (None, w1)
      | Answer (Some e) \<Rightarrow> (Some (SendFailed e), w1)
      | NoAnswer \<Rightarrow> (Some SendTimeout, w1))"

definition isConnLevelErr :: "mail_error \<Rightarrow> bool" where
  "isConnLevelErr e =
     (if isNoActiveConnection e then True
      else case asSendError e of Some reason \<Rightarrow> reason = ErrConnCheck | None \<Rightarrow> asNetError e)"

definition dialLocked ::
    "mail_env \<Rightarrow> ConfigMailSender \<Rightarrow> string \<Rightarrow> int \<Rightarrow> duration \<Rightarrow> mailSenderState \<Rightarrow> world \<Rightarrow>
     (send_error + nat) \<times> mailSenderState \<times> world" where
  "dialLocked env cfg h p t s w =
     (case client s of
        Some c \<Rightarrow> (Inr c, s, w)
      | None \<Rightarrow>
          let opts = \<lparr>oHost = h, oPort = p, oUsername = User cfg, oPassword = Password cfg,
                      oPolicy = (if WithSSL cfg then TLSMandatory else TLSOpportunistic), oTimeout = t\<rparr>;
              c = fresh w
          in case newClient env opts of
               Some e \<Rightarrow> (Inl (LibError e), s, w)
             | None \<Rightarrow> (case dialErr env opts c of
                 Some e \<Rightarrow> (Inl (LibError e), s, w\<lparr>fresh := Suc c\<rparr>)
               | None \<Rightarrow> (Inr c, s\<lparr>client := Some c\<rparr>, w\<lparr>fresh := Suc c, opened := insert c (opened w)\<rparr>)))"

definition closeLocked :: "mailSenderState \<Rightarrow> world \<Rightarrow> mailSenderState \<times> world" where
  "closeLocked s w =
     (case client s of
        None \<Rightarrow> (s, w)
      | Some c \<Rightarrow> (s\<lparr>client := None\<rparr>, w\<lparr>opened := opened w - {c}\<rparr>))"

text \<open>The second attempt of \<^verbatim>\<open>SendMessage\<close>, after a lost connection.\<close>

definition retry_send ::
    "mail_env \<Rightarrow> ConfigMailSender \<Rightarrow> string \<Rightarrow> int \<Rightarrow> duration \<Rightarrow> Msg \<Rightarrow> mailSenderState \<Rightarrow> world \<Rightarrow>
     send_error option \<times> mailSenderState \<times> world" where
  "retry_send env cfg h p t mm s w =
     (let (s1, w1) = closeLocked s w in
      case dialLocked env cfg h p t s1 w1 of
        (Inl e, s2, w2) \<Rightarrow> (Some e, s2, w2)
      | (Inr c, s2, w2) \<Rightarrow>
          (case sendWithTimeout env c mm w2 of
             (Some e, w3) \<Rightarrow> (let (s4, w4) = closeLocked s2 w3 in (Some e, s4, w4))
           | (None, w3) \<Rightarrow> (None, s2, w3)))"

definition send_locked ::
    "mail_env \<Rightarrow> ConfigMailSender \<Rightarrow> Msg \<Rightarrow> mailSenderState \<Rightarrow> world \<Rightarrow> send_error option \<times> mailSenderState \<times> world" where
  "send_locked env cfg mm s w =
     (case endpointLocked env cfg s of
        (Inl e, s1) \<Rightarrow> (Some e, s1, w)
      | (Inr (h, p, t), s1) \<Rightarrow>
          (case dialLocked env cfg h p t s1 w of
             (Inl e, s2, w2) \<Rightarrow> (Some e, s2, w2)
           | (Inr c, s2, w2) \<Rightarrow>
               (case sendWithTimeout env c mm w2 of
                  (None, w3) \<Rightarrow> (None, s2, w3)
                | (Some (SendFailed e), w3) \<Rightarrow>
                    if \<not> isConnLevelErr e then (Some (SendFailed e), s2, w3)
                    else retry_send env cfg h p t mm s2 w3
                | (Some e, w3) \<Rightarrow> (let (s4, w4) = closeLocked s2 w3 in (Some e, s4, w4)))))"

definition SendMessage ::
    "mail_env \<Rightarrow> string \<Rightarrow> string \<Rightarrow> string \<Rightarrow> string \<Rightarrow> string \<Rightarrow> MailSender \<times> world \<Rightarrow>
     send_error option \<times> MailSender \<times> world" where
  "SendMessage env sender recipient message subj msgType mw =
     (let (m, w) = mw in
      if DryRun (config m) then (None, m, w)
      else case msgFrom env sender of
        Some e \<Rightarrow> (Some (LibError e), m, w)
      | None \<Rightarrow>
          (case msgTo env recipient of
             Some e \<Rightarrow> (Some (LibError e), m, w)
           | None \<Rightarrow>
               let mm = \<lparr>mFrom = sender, mTo = recipient, mSubject = subj,
                         mType = (if map lower_char msgType = ''html'' then TypeTextHTML else TypeTextPlain), mBody = message\<rparr>
               in case st m of
                    Some s \<Rightarrow> (let (r, s', w') = send_locked env (config m) mm s w in (r, m\<lparr>st := Some s'\<rparr>, w'))
                  | None \<Rightarrow> (let (r, s', w') = send_locked env (config m) mm empty_state w in (r, m, w'))))"

subsection \<open>The connection\<close>

definition conn_ok :: "mailSenderState \<Rightarrow> world \<Rightarrow> bool" where
  "conn_ok s w \<longleftrightarrow> opened w = set_option (client s) \<and> (\<forall>c\<in>opened w. c < fresh w)"

definition sender_ok :: "MailSender \<times> world \<Rightarrow> bool" where
  "sender_ok mw \<longleftrightarrow> (\<exists>s. st (fst mw) = Some s \<and> conn_ok s (snd mw))"

text \<open>The same sender before and after: the attempts \<open>ps\<close> were made in between.\<close>

definition tried :: "mail_env \<Rightarrow> Msg \<Rightarrow> world \<Rightarrow> send_error option \<Rightarrow> world \<Rightarrow> (nat \<times> Msg) list \<Rightarrow> bool" where
  "tried env mm w r w' ps \<longleftrightarrow>
     attempts w' = attempts w @ ps \<and> length ps \<le> 2 \<and> (\<forall>p\<in>set ps. snd p = mm) \<and>
     (r = None \<longrightarrow> ps \<noteq> [] \<and> sendAns env (fst (last ps)) (length (attempts w) + length ps - 1) mm = Answer None) \<and>
     (r = Some SendTimeout \<longrightarrow> opened w' = {}) \<and>
     (length ps = 2 \<longrightarrow>
        (\<exists>e. sendAns env (fst (ps ! 0)) (length (attempts w)) mm = Answer (Some e) \<and> isConnLevelErr e) \<and>
        fst (ps ! 0) < fst (ps ! 1) \<and> fst (ps ! 0) \<notin> opened w')"

lemma dialLocked_ok:
  assumes "conn_ok s w" and "dialLocked env cfg h p t s w = (x, s', w')"
  shows "conn_ok s' w' \<and> attempts w' = attempts w \<and> fresh w \<le> fresh w' \<and>
         (case x of Inr c \<Rightarrow> client s' = Some c \<and> (client s = None \<longrightarrow> c = fresh w) | Inl e \<Rightarrow> client s' = None \<and> e \<noteq> SendTimeout)"
  using assms by (auto simp: dialLocked_def conn_ok_def Let_def split: option.splits)

lemma closeLocked_ok:
  "conn_ok s w \<Longrightarrow> closeLocked s w = (s', w') \<Longrightarrow>
   conn_ok s' w' \<and> client s' = None \<and> opened w' = {} \<and> attempts w' = attempts w \<and> fresh w' = fresh w"
  by (auto simp: closeLocked_def conn_ok_def split: option.splits)

lemma sendWithTimeout_ok:
  "sendWithTimeout env c mm w = (r, w') \<Longrightarrow>
   attempts w' = attempts w @ [(c, mm)] \<and> opened w' = opened w \<and> fresh w' = fresh w \<and>
   (r = None \<longleftrightarrow> sendAns env c (length (attempts w)) mm = Answer None) \<and>
   (\<forall>e. r = Some (SendFailed e) \<longleftrightarrow> sendAns env c (length (attempts w)) mm = Answer (Some e)) \<and>
   (r = None \<or> r = Some SendTimeout \<or> (\<exists>e. r = Some (SendFailed e)))"
  by (auto simp: sendWithTimeout_def Let_def split: send_answer.splits option.splits)

lemma retry_send_ok:
  assumes ok: "conn_ok s w" and c0: "client s = Some c0" and run: "retry_send env cfg h p t mm s w = (r, s', w')"
  shows "conn_ok s' w' \<and> c0 \<notin> opened w' \<and> (r = Some SendTimeout \<longrightarrow> opened w' = {}) \<and>
    ((attempts w' = attempts w \<and> r \<noteq> None) \<or>
     (\<exists>c. c0 < c \<and> attempts w' = attempts w @ [(c, mm)] \<and>
          (r = None \<longrightarrow> sendAns env c (length (attempts w)) mm = Answer None)))"
proof -
  obtain s1 w1 where cl: "closeLocked s w = (s1, w1)" by fastforce
  note k1 = closeLocked_ok [OF ok cl]
  have less: "c0 < fresh w1" using ok c0 k1 by (simp add: conn_ok_def)
  obtain x s2 w2 where di: "dialLocked env cfg h p t s1 w1 = (x, s2, w2)" by (metis prod_cases3)
  have k2: "conn_ok s2 w2 \<and> attempts w2 = attempts w1 \<and> fresh w1 \<le> fresh w2 \<and>
      (case x of Inr c \<Rightarrow> client s2 = Some c \<and> (client s1 = None \<longrightarrow> c = fresh w1) | Inl e \<Rightarrow> client s2 = None \<and> e \<noteq> SendTimeout)"
    using dialLocked_ok di k1 by blast
  show ?thesis
  proof (cases x)
    case (Inl e)
    then show ?thesis using run cl di k1 k2 by (auto simp: retry_send_def conn_ok_def)
  next
    case (Inr c)
    obtain r3 w3 where se: "sendWithTimeout env c mm w2 = (r3, w3)" by fastforce
    note k3 = sendWithTimeout_ok [OF se]
    have ok3: "conn_ok s2 w3" using k2 k3 by (simp add: conn_ok_def)
    have cc: "c = fresh w1" "opened w2 = {c}" using Inr k1 k2 by (auto simp: conn_ok_def)
    show ?thesis
    proof (cases r3)
      case None
      then show ?thesis using run cl di se Inr k1 k2 k3 ok3 cc less by (auto simp: retry_send_def)
    next
      case (Some e)
      obtain s4 w4 where cl4: "closeLocked s2 w3 = (s4, w4)" by fastforce
      have eqs: "r = Some e" "s' = s4" "w' = w4" using run cl di se Inr Some cl4 by (simp_all add: retry_send_def)
      show ?thesis unfolding eqs using closeLocked_ok [OF ok3 cl4] k1 k2 k3 cc(1) less by simp
    qed
  qed
qed

lemma endpointLocked_ok:
  "endpointLocked env cfg s = (x, s') \<Longrightarrow> client s' = client s \<and> (\<forall>e. x = Inl e \<longrightarrow> e \<noteq> SendTimeout)"
  by (auto simp: endpointLocked_def hostAndPort_def Let_def split: sum.splits if_splits)

lemma no_try: "attempts w' = attempts w \<Longrightarrow> r \<noteq> None \<Longrightarrow> r \<noteq> Some SendTimeout \<Longrightarrow> \<exists>ps. tried env mm w r w' ps"
  by (intro exI [of _ "[]"]) (simp add: tried_def)

lemma one_try:
  "attempts w' = attempts w @ [(c, mm)] \<Longrightarrow>
   (r = None \<Longrightarrow> sendAns env c (length (attempts w)) mm = Answer None) \<Longrightarrow>
   (r = Some SendTimeout \<Longrightarrow> opened w' = {}) \<Longrightarrow> \<exists>ps. tried env mm w r w' ps"
  by (intro exI [of _ "[(c, mm)]"]) (simp add: tried_def)

lemma retry_tried:
  assumes ok: "conn_ok s w1" and cl: "client s = Some c" and rt: "retry_send env cfg h p t mm s w1 = (r, s', w')"
      and at: "attempts w1 = attempts w @ [(c, mm)]"
      and e: "sendAns env c (length (attempts w)) mm = Answer (Some e)" "isConnLevelErr e"
  shows "conn_ok s' w' \<and> (\<exists>ps. tried env mm w r w' ps)"
proof -
  note k = retry_send_ok [OF ok cl rt]
  then consider "attempts w' = attempts w1" "r \<noteq> None"
    | d where "c < d" "attempts w' = attempts w1 @ [(d, mm)]"
        "r = None \<longrightarrow> sendAns env d (length (attempts w1)) mm = Answer None" by blast
  then show ?thesis
  proof cases
    case 1
    then show ?thesis using k at by (auto intro: one_try)
  next
    case (2 d)
    then show ?thesis using k at e
      by (intro conjI exI [of _ "[(c, mm), (d, mm)]"]) (auto simp: tried_def)
  qed
qed

text \<open>The part of \<open>send_locked\<close> after a successful dial.\<close>

lemma dialled_tried:
  assumes ok: "conn_ok s w2" and cl: "client s = Some c" and at: "attempts w2 = attempts w"
      and se: "sendWithTimeout env c mm w2 = (r3, w3)"
      and run: "(case (r3, w3) of
                  (None, w3) \<Rightarrow> (None, s, w3)
                | (Some (SendFailed e), w3) \<Rightarrow>
                    if \<not> isConnLevelErr e then (Some (SendFailed e), s, w3) else retry_send env cfg h p t mm s w3
                | (Some e, w3) \<Rightarrow> (let (s4, w4) = closeLocked s w3 in (Some e, s4, w4))) = (r, s', w')"
  shows "conn_ok s' w' \<and> (\<exists>ps. tried env mm w r w' ps)"
proof -
  note k3 = sendWithTimeout_ok [OF se]
  have ok3: "conn_ok s w3" using ok k3 by (simp add: conn_ok_def)
  consider (sent) "r3 = None" | (late) "r3 = Some SendTimeout"
    | (kept) e where "r3 = Some (SendFailed e)" "\<not> isConnLevelErr e"
    | (lost) e where "r3 = Some (SendFailed e)" "isConnLevelErr e" using k3 by blast
  then show ?thesis
  proof cases
    case sent
    then show ?thesis using run ok3 k3 at by (auto intro: one_try)
  next
    case late
    obtain s4 w4 where cl4: "closeLocked s w3 = (s4, w4)" by fastforce
    have eqs: "r = Some SendTimeout" "s' = s4" "w' = w4" using run late cl4 by simp_all
    show ?thesis unfolding eqs using closeLocked_ok [OF ok3 cl4] k3 at by (auto intro: one_try)
  next
    case kept
    have eqs: "r = Some (SendFailed e)" "s' = s" "w' = w3" using run kept by simp_all
    show ?thesis unfolding eqs using ok3 k3 at by (auto intro: one_try)
  next
    case lost
    have rt: "retry_send env cfg h p t mm s w3 = (r, s', w')" using run lost by simp
    have e: "attempts w3 = attempts w @ [(c, mm)]" "sendAns env c (length (attempts w)) mm = Answer (Some e)"
      using k3 at lost(1) by auto
    show ?thesis by (rule retry_tried [OF ok3 cl rt e lost(2)])
  qed
qed

lemma send_locked_ok:
  assumes ok: "conn_ok s w" and run: "send_locked env cfg mm s w = (r, s', w')"
  shows "conn_ok s' w' \<and> (\<exists>ps. tried env mm w r w' ps)"
proof -
  obtain x s1 where en: "endpointLocked env cfg s = (x, s1)" by fastforce
  have ok1: "conn_ok s1 w" using ok endpointLocked_ok [OF en] by (simp add: conn_ok_def)
  show ?thesis
  proof (cases x)
    case (Inl e)
    then show ?thesis using run en ok1 endpointLocked_ok [OF en] by (auto simp: send_locked_def intro: no_try)
  next
    case (Inr hpt)
    obtain h p t where hpt: "hpt = (h, p, t)" by (metis prod_cases3)
    obtain y s2 w2 where di: "dialLocked env cfg h p t s1 w = (y, s2, w2)" by (metis prod_cases3)
    note k2 = dialLocked_ok [OF ok1 di]
    show ?thesis
    proof (cases y)
      case (Inl e)
      then show ?thesis using run en Inr hpt di k2 by (auto simp: send_locked_def intro: no_try)
    next
      case c: (Inr c)
      obtain r3 w3 where se: "sendWithTimeout env c mm w2 = (r3, w3)" by fastforce
      show ?thesis
        using dialled_tried [OF _ _ _ se, of s2 w] run k2 en Inr hpt di c se by (simp add: send_locked_def)
    qed
  qed
qed

subsection \<open>Properties\<close>

definition message_of :: "string \<Rightarrow> string \<Rightarrow> string \<Rightarrow> string \<Rightarrow> string \<Rightarrow> Msg" where
  "message_of sender recipient message subj msgType =
     \<lparr>mFrom = sender, mTo = recipient, mSubject = subj,
      mType = (if map lower_char msgType = ''html'' then TypeTextHTML else TypeTextPlain), mBody = message\<rparr>"

lemma SendMessage_ok:
  assumes "sender_ok (m, w)"
  shows "sender_ok (snd (SendMessage env a b c d t (m, w)))"
proof -
  obtain s where s: "st m = Some s" "conn_ok s w" using assms by (auto simp: sender_ok_def)
  obtain r s' w' where "send_locked env (config m) (message_of a b c d t) s w = (r, s', w')" by (metis prod_cases3)
  then show ?thesis using send_locked_ok [OF s(2)] s
    by (auto simp: SendMessage_def message_of_def sender_ok_def split: option.splits)
qed

text \<open>A new sender, before anything was dialled.\<close>

definition new_mail :: "ConfigMailSender \<Rightarrow> MailSender \<times> world" where
  "new_mail cfg = (NewMailSender cfg, \<lparr>opened = {}, fresh = 0, attempts = []\<rparr>)"

lemma new_mail_ok: "sender_ok (new_mail cfg)" "opened (snd (new_mail cfg)) = {}"
  by (simp_all add: sender_ok_def new_mail_def NewMailSender_def conn_ok_def empty_state_def)

interpretation mail: db_service "\<lambda>(env, a, b, c, d, t) mw. snd (SendMessage env a b c d t mw)" "\<lambda>(env, _) mw. snd (Stop env mw)"
    "\<lambda>(m, w). Option.bind (st m) client" "\<lambda>(m, w). opened w" sender_ok
proof (unfold_locales, goal_cases)
  case (1 d s)
  then show ?case by (auto simp: Stop_def split: prod.splits option.splits)
next
  case (2 d s)
  then show ?case by (auto simp: Stop_def split: prod.splits option.splits)
next
  case (3 s d)
  obtain env a b c e t where "d = (env, a, b, c, e, t)" by (metis prod_cases6)
  moreover obtain m w where "s = (m, w)" by fastforce
  ultimately show ?case using 3(1) SendMessage_ok [of m w env a b c e t]
    by (auto simp: sender_ok_def conn_ok_def split: prod.splits)
qed

text \<open>
  C12: In any state of a sender that keeps at most its own connection open, \<^verbatim>\<open>SendMessage\<close> (dry run off) makes at
  most two attempts, both with exactly this message.  It reports success only when the last attempt was answered without
  an error; it makes a second attempt only after the first was answered with a connection-level error, on a newer
  client, with the first one closed; a timeout leaves no connection open.  The sender still keeps at most its own
  connection open.
\<close>
theorem SendMessage_attempts:
  assumes "sender_ok (m, w)" and "\<not> DryRun (config m)"
      and "SendMessage env sender recipient message subj msgType (m, w) = (r, m', w')"
  shows "sender_ok (m', w') \<and> (\<exists>ps. tried env (message_of sender recipient message subj msgType) w r w' ps)"
proof -
  obtain s where s: "st m = Some s" "conn_ok s w" using assms(1) by (auto simp: sender_ok_def)
  let ?mm = "message_of sender recipient message subj msgType"
  obtain r1 s1 w1 where l: "send_locked env (config m) ?mm s w = (r1, s1, w1)" by (metis prod_cases3)
  have "\<exists>ps. tried env ?mm w r w' ps"
    using assms(2,3) s(1) l send_locked_ok [OF s(2) l]
    by (auto simp: SendMessage_def message_of_def split: option.splits intro: no_try)
  then show ?thesis using SendMessage_ok [OF assms(1), of env sender recipient message subj msgType] assms(3) by simp
qed

definition demo_mail_config :: ConfigMailSender where
  "demo_mail_config = \<lparr>Server = ''mail:25'', User = ''u'', Password = ''p'', WithSSL = True, Timeout = ''30s'', DryRun = False\<rparr>"

text \<open>A server that has dropped the connection of client 0.\<close>

definition demo_mail_env :: mail_env where
  "demo_mail_env =
     \<lparr>msgFrom = (\<lambda>_. None), msgTo = (\<lambda>_. None), newClient = (\<lambda>_. None), dialErr = (\<lambda>_ _. None),
      sendAns = (\<lambda>c _ _. Answer (if c = 0 then Some \<lparr>isNoActiveConnection = True, asSendError = None, asNetError = False\<rparr> else None)),
      closeErr = (\<lambda>_. None), parseDuration = (\<lambda>_. Inr 30000000000)\<rparr>"

definition demo_mail :: "MailSender \<times> world" where
  "demo_mail = (snd (Start (NewMailSender demo_mail_config)), \<lparr>opened = {}, fresh = 0, attempts = []\<rparr>)"

lemma demo_mail_eval:
  "demo_mail = (\<lparr>config = demo_mail_config, st = Some \<lparr>client = None, host = ''mail'', port = 25, timeout = 0\<rparr>\<rparr>,
                \<lparr>opened = {}, fresh = 0, attempts = []\<rparr>)"
  by code_simp

theorem SendMessage_attempts_witness:
  "\<exists>m' w'. SendMessage demo_mail_env ''a'' ''b'' ''hi'' ''s'' ''HTML'' demo_mail = (None, m', w') \<and> sender_ok (m', w') \<and>
     (\<exists>ps. tried demo_mail_env (message_of ''a'' ''b'' ''hi'' ''s'' ''HTML'') (snd demo_mail) None w' ps)"
proof -
  obtain m w where mw: "demo_mail = (m, w)" by fastforce
  have ok: "sender_ok (m, w)" "\<not> DryRun (config m)"
    using mw by (auto simp: demo_mail_eval sender_ok_def conn_ok_def demo_mail_config_def)
  have "fst (SendMessage demo_mail_env ''a'' ''b'' ''hi'' ''s'' ''HTML'' demo_mail) = None" by code_simp
  then obtain m' w' where r: "SendMessage demo_mail_env ''a'' ''b'' ''hi'' ''s'' ''HTML'' (m, w) = (None, m', w')"
    using mw by (metis prod.collapse)
  show ?thesis unfolding mw using SendMessage_attempts [OF ok r] r by auto
qed

text \<open>
  A dropped connection costs no message: when the server answers the first attempt on the kept connection with a
  connection-level error, and a new client can be built, dialled and accepts the message, \<^verbatim>\<open>SendMessage\<close> succeeds
  and keeps the new connection alone.
\<close>
theorem lost_connection_recovered:
  assumes "st m = Some s" and "client s = Some c" and "conn_ok s w" and "\<not> DryRun (config m)"
      and "msgFrom env sender = None" and "msgTo env recipient = None" and "host s \<noteq> []"
      and "mm = message_of sender recipient message subj msgType"
      and "sendAns env c (length (attempts w)) mm = Answer (Some e)" and "isConnLevelErr e"
      and "\<And>opts. newClient env opts = None" and "\<And>opts. dialErr env opts (fresh w) = None"
      and "sendAns env (fresh w) (Suc (length (attempts w))) mm = Answer None"
      and "SendMessage env sender recipient message subj msgType (m, w) = (r, m', w')"
  shows "r = None \<and> attempts w' = attempts w @ [(c, mm), (fresh w, mm)] \<and> opened w' = {fresh w} \<and>
         Option.bind (st m') client = Some (fresh w)"
proof -
  obtain h p t s1 where en: "endpointLocked env (config m) s = (Inr (h, p, t), s1)"
    using assms(7) by (auto simp: endpointLocked_def Let_def)
  have s1: "client s1 = Some c" using endpointLocked_ok [OF en] assms(2) by simp
  have "send_locked env (config m) mm s w =
     (None, s1\<lparr>client := Some (fresh w)\<rparr>, w\<lparr>opened := {fresh w}, fresh := Suc (fresh w), attempts := attempts w @ [(c, mm), (fresh w, mm)]\<rparr>)"
    using assms(2,3,9-13) s1
    by (simp add: send_locked_def retry_send_def en dialLocked_def closeLocked_def sendWithTimeout_def conn_ok_def Let_def)
  then show ?thesis using assms(1,4-6,8,14) by (auto simp: SendMessage_def message_of_def)
qed

theorem lost_connection_recovered_witness:
  "\<exists>r m' w'. SendMessage demo_mail_env ''a'' ''b'' ''hi'' ''s'' ''text''
       (\<lparr>config = demo_mail_config, st = Some \<lparr>client = Some 0, host = ''mail'', port = 25, timeout = 5\<rparr>\<rparr>,
        \<lparr>opened = {0}, fresh = 1, attempts = []\<rparr>) = (r, m', w') \<and> r = None \<and> opened w' = {1}"
proof -
  let ?s = "\<lparr>client = Some 0, host = ''mail'', port = 25, timeout = 5\<rparr> :: mailSenderState"
  let ?m = "\<lparr>config = demo_mail_config, st = Some ?s\<rparr> :: MailSender"
  let ?w = "\<lparr>opened = {0}, fresh = 1, attempts = []\<rparr> :: world"
  let ?e = "\<lparr>isNoActiveConnection = True, asSendError = None, asNetError = False\<rparr> :: mail_error"
  obtain r m' w' where run: "SendMessage demo_mail_env ''a'' ''b'' ''hi'' ''s'' ''text'' (?m, ?w) = (r, m', w')"
    by (metis prod_cases3)
  have "r = None \<and> opened w' = {1}"
    using lost_connection_recovered [OF _ _ _ _ _ _ _ refl _ _ _ _ _ run, of ?s 0 ?e]
    by (simp add: conn_ok_def demo_mail_env_def demo_mail_config_def isConnLevelErr_def)
  then show ?thesis using run by blast
qed

text \<open>
  Any sequence of \<^verbatim>\<open>SendMessage\<close> and \<^verbatim>\<open>Stop\<close> calls that ends with \<^verbatim>\<open>Stop\<close> leaves no SMTP connection open.
\<close>
theorem mail_no_leak:
  assumes "disciplined (\<lambda>(env, a, b, c, d, t) mw. snd (SendMessage env a b c d t mw)) (\<lambda>(env, _) mw. snd (Stop env mw)) sender_ok cs mw"
      and "sender_ok mw"
  shows "opened (snd (db_calls (\<lambda>(env, a, b, c, d, t) mw. snd (SendMessage env a b c d t mw)) (\<lambda>(env, _) mw. snd (Stop env mw))
           (cs @ [CStop d]) mw)) = {}"
proof -
  have "(case mw of (m, w) \<Rightarrow> opened w) \<subseteq> set_option (case mw of (m, w) \<Rightarrow> Option.bind (st m) client)"
    using assms(2) by (auto simp: sender_ok_def conn_ok_def split: prod.splits)
  from conjunct1 [OF mail.nothing_left_open [OF this assms(1), of d]] show ?thesis by (simp only: prod.case_eq_if)
qed

lemma utoa_no_special: "c \<in> set (utoa n) \<Longrightarrow> is_digit c"
  using utoa_digits [of n] by (auto simp: list_all_iff)

text \<open>
  A server written as \<^verbatim>\<open>host:port\<close>, with no colon or bracket in the host, is read back as this host and port.
\<close>
theorem hostAndPort_round_trip:
  assumes "set h \<inter> {CHR '':'', CHR ''['', CHR '']''} = {}" and "0 \<le> p" and "p < 2 ^ 63" and "Server cfg = h @ '':'' @ Itoa p"
  shows "hostAndPort cfg = Inr (h, p)"
proof -
  have nd: "c \<notin> set (utoa (nat p))" if "c \<in> {CHR '':'', CHR ''['', CHR '']''}" for c
    using that utoa_no_special [of c "nat p"] by (auto simp: is_digit_def)
  have it: "Itoa p = utoa (nat p)" using assms(2) by (simp add: Itoa_def)
  have li: "last_index CHR '':'' (Server cfg) = Some (length h)"
    using nd last_index_None [of "CHR '':''" "utoa (nat p)"] by (simp add: assms(4) it last_index_append)
  have nh: "CHR '':'' \<notin> set h" "CHR ''['' \<notin> set h" "CHR '']'' \<notin> set h" using assms(1) by auto
  have "hd (Server cfg) \<noteq> CHR ''[''" using assms(1) by (cases h) (auto simp: assms(4))
  then have "SplitHostPort (Server cfg) = Inr (h, Itoa p)"
    using nh nd unfolding SplitHostPort_def li
    by (simp add: check_brackets_def first_index_None assms(4) it)
  moreover have "Atoi (Itoa p) = Inr p" using ParseInt_Itoa [of 64 p] assms(2,3) by (simp add: Atoi_def)
  ultimately show ?thesis by (simp add: hostAndPort_def)
qed

end
