(* ===== verification/Smsc.thy ===== *)
theory Smsc
  imports GoStrconv
begin

section \<open>The SMS centre\<close>

text \<open>
  \<^verbatim>\<open>smsc/smsc.go\<close>.  A message is split into parts, each part is registered in \<^verbatim>\<open>waitChs\<close> under the pointer
  of its PDU and submitted; a response finds the waiter of the request it answers.  Pointers and
  channels are numbers drawn from \<open>fresh\<close>; a channel has a one-place buffer, \<open>bufs\<close>.  The
  \<^verbatim>\<open>gosmpp\<close> library is the parameter \<open>gosmpp\<close>, functions on a world \<^typ>\<open>'w\<close>: a submission and the final wait
  report the responses the session's reader hands over meanwhile.  \<open>pick\<close> is the final \<^verbatim>\<open>select\<close>: given
  the values that are ready it takes one, or none when the timer wins.  \<open>heard\<close>, \<open>attempts\<close>,
  \<open>slept\<close> and \<open>sessions\<close> are ghost fields: the responses handled, the attempts made, the time slept and the sessions opened and not closed.
\<close>

subsection \<open>Data\<close>

record ConfigSMSC =
  SMSC :: string
  SystemID :: string
  Password :: string
  SystemType :: string
  SourceAddr :: string
  ResultTimeout :: string
  DryRun :: bool

datatype encoding = UCS2 | GSM7BIT

record address =
  ton :: nat
  npi :: nat
  addr :: string

record SubmitSM =
  ptr :: nat
  source :: address
  dest :: address
  payload :: string
  coding :: encoding
  registeredDelivery :: nat
  priorityFlag :: nat

datatype pdu =
    PSubmitSM nat
  | PSubmitSMResp string
  | PGenericNack
  | PEnquireLink
  | PEnquireLinkResp
  | PDataSM
  | PDeliverSM
  | PUnbind
  | PUnbindResp
  | POther string

record response =
  resp_pdu :: pdu
  originalRequest :: pdu

record 'w gosmpp =
  newSession :: "ConfigSMSC \<Rightarrow> 'w \<Rightarrow> (nat option \<times> string option) \<times> 'w"
  closeSession :: "nat \<Rightarrow> 'w \<Rightarrow> string option \<times> 'w"
  setAddress :: "string \<Rightarrow> string option"
  isGSM7 :: "string \<Rightarrow> bool"
  setLongMessage :: "string \<Rightarrow> encoding \<Rightarrow> string option"
  splitParts :: "string \<Rightarrow> encoding \<Rightarrow> string + string list"
  submit :: "nat \<Rightarrow> SubmitSM \<Rightarrow> 'w \<Rightarrow> (string option \<times> response list) \<times> 'w"
  wait_for :: "duration \<Rightarrow> 'w \<Rightarrow> response list \<times> 'w"

record SMSCenter =
  trans :: "nat option"
  dryRun :: bool
  config :: ConfigSMSC
  resultTimeout :: duration
  waitChs :: "(nat, nat) gomap"
  bufs :: "(nat, string) gomap"
  fresh :: nat
  heard :: "response list"
  attempts :: nat
  slept :: duration
  sessions :: "nat set"

text \<open>\<open>parseDuration\<close> is \<^verbatim>\<open>time.ParseDuration\<close>.\<close>

definition NewSMSCenter :: "(string \<Rightarrow> duration option) \<Rightarrow> ConfigSMSC \<Rightarrow> SMSCenter" where
  "NewSMSCenter parseDuration cfg =
     \<lparr>trans = None, dryRun = DryRun cfg, config = cfg,
      resultTimeout = (case parseDuration (ResultTimeout cfg) of
          None \<Rightarrow> 5000000000 | Some d \<Rightarrow> if d \<le> 0 then 5000000000 else d),
      waitChs = fmempty, bufs = fmempty, fresh = 0, heard = [], attempts = 0, slept = 0, sessions = {}\<rparr>"

subsection \<open>Start, Stop, Restart\<close>

definition startLocked :: "'w gosmpp \<Rightarrow> SMSCenter \<Rightarrow> 'w \<Rightarrow> string option \<times> SMSCenter \<times> 'w" where
  "startLocked g s w =
     (if dryRun s then (None, s, w)
      else let ((t, e), w') = newSession g (config s) w in (e, s\<lparr>trans := t, sessions := sessions s \<union> set_option t\<rparr>, w'))"

definition stopLocked :: "'w gosmpp \<Rightarrow> SMSCenter \<Rightarrow> 'w \<Rightarrow> string option \<times> SMSCenter \<times> 'w" where
  "stopLocked g s w =
     (case trans s of
        Some t \<Rightarrow>
          if \<not> dryRun s then let (e, w') = closeSession g t w in (e, s\<lparr>sessions := sessions s - {t}\<rparr>, w')
          else (None, s, w)
      | None \<Rightarrow> (None, s, w))"

definition Start :: "'w gosmpp \<Rightarrow> SMSCenter \<Rightarrow> 'w \<Rightarrow> string option \<times> SMSCenter \<times> 'w" where
  "Start g s w = startLocked g s w"

definition Stop :: "'w gosmpp \<Rightarrow> SMSCenter \<Rightarrow> 'w \<Rightarrow> string option \<times> SMSCenter \<times> 'w" where
  "Stop g s w = stopLocked g s w"

definition Restart :: "'w gosmpp \<Rightarrow> SMSCenter \<Rightarrow> 'w \<Rightarrow> string option \<times> SMSCenter \<times> 'w" where
  "Restart g s w = (let (e, s1, w1) = stopLocked g s w in startLocked g s1 w1)"

subsection \<open>Requests and responses of the peer\<close>

definition handleExpirePduRequest :: "pdu \<Rightarrow> bool" where
  "handleExpirePduRequest p = (case p of PEnquireLink \<Rightarrow> True | _ \<Rightarrow> False)"

definition handleReceivedPduRequest :: "(pdu \<Rightarrow> pdu) \<Rightarrow> pdu \<Rightarrow> pdu option \<times> bool" where
  "handleReceivedPduRequest getResponse p =
     (case p of
        PUnbind \<Rightarrow> (Some (getResponse p), True)
      | PGenericNack \<Rightarrow> (None, False)
      | PEnquireLinkResp \<Rightarrow> (None, False)
      | PEnquireLink \<Rightarrow> (Some (getResponse p), False)
      | PDataSM \<Rightarrow> (Some (getResponse p), False)
      | PDeliverSM \<Rightarrow> (Some (getResponse p), False)
      | _ \<Rightarrow> (None, False))"

text \<open>The handlers that only log, as the message they log, without its attributes.  \<^verbatim>\<open>handlePDU\<close> is installed and not
  called by a session that tracks its requests.\<close>

definition handlePDU :: "pdu \<Rightarrow> string" where
  "handlePDU p =
     (case p of
        PSubmitSMResp _ \<Rightarrow> ''SubmitSMResp''
      | PGenericNack \<Rightarrow> ''GenericNack Received''
      | PEnquireLinkResp \<Rightarrow> ''EnquireLinkResp Received''
      | PDataSM \<Rightarrow> ''DataSM''
      | PDeliverSM \<Rightarrow> ''DeliverSM''
      | _ \<Rightarrow> ''Pdu'')"

definition handleOnClosePduRequest :: "pdu \<Rightarrow> string" where
  "handleOnClosePduRequest p =
     (case p of
        PUnbind \<Rightarrow> ''OnClose Unbind''
      | PSubmitSM _ \<Rightarrow> ''OnClose SubmitSM''
      | PEnquireLink \<Rightarrow> ''OnClose EnquireLink''
      | PDataSM \<Rightarrow> ''OnClose DataSM''
      | _ \<Rightarrow> ''handleOnClosePduRequest'')"

definition handleUnexpectedPduResponse :: "pdu \<Rightarrow> string" where
  "handleUnexpectedPduResponse p = ''handleUnexpectedPduResponse''"

text \<open>
  Every request of the peer has one fate: it is answered, or it is one of those an answer is not due to; the session is closed exactly for
  an unbind received and an enquire link that expired.
\<close>

lemma peer_requests:
  "(\<exists>r. fst (handleReceivedPduRequest g p) = Some r) \<longleftrightarrow> p \<in> {PUnbind, PEnquireLink, PDataSM, PDeliverSM}"
  "snd (handleReceivedPduRequest g p) \<longleftrightarrow> p = PUnbind"
  "handleExpirePduRequest p \<longleftrightarrow> p = PEnquireLink"
  by (cases p; simp add: handleReceivedPduRequest_def handleExpirePduRequest_def)+

definition handleSubmitSMResponse :: "string \<Rightarrow> pdu \<Rightarrow> SMSCenter \<Rightarrow> SMSCenter" where
  "handleSubmitSMResponse messageID orig s =
     (case orig of
        PSubmitSM p \<Rightarrow>
          (case fmlookup (waitChs s) p of
             None \<Rightarrow> s
           | Some ch \<Rightarrow>
               let s1 = s\<lparr>waitChs := fmdrop p (waitChs s)\<rparr> in
               case fmlookup (bufs s1) ch of
                 None \<Rightarrow> s1\<lparr>bufs := fmupd ch messageID (bufs s1)\<rparr>
               | Some _ \<Rightarrow> s1)
      | _ \<Rightarrow> s)"

definition handleExpectedPduResponse :: "response \<Rightarrow> SMSCenter \<Rightarrow> SMSCenter" where
  "handleExpectedPduResponse r s0 =
     (let s = s0\<lparr>heard := heard s0 @ [r]\<rparr> in
      case resp_pdu r of
        PSubmitSMResp messageID \<Rightarrow> handleSubmitSMResponse messageID (originalRequest r) s
      | _ \<Rightarrow> s)"

definition deliver :: "response list \<Rightarrow> SMSCenter \<Rightarrow> SMSCenter" where
  "deliver rs s = fold handleExpectedPduResponse rs s"

subsection \<open>Sending\<close>

definition dropWaitingParts :: "SMSCenter \<Rightarrow> SMSCenter" where
  "dropWaitingParts s = s\<lparr>waitChs := fmempty\<rparr>"

definition dropWaitingPartsFrom :: "SubmitSM list \<Rightarrow> SMSCenter \<Rightarrow> SMSCenter" where
  "dropWaitingPartsFrom messages s = s\<lparr>waitChs := fold (\<lambda>m. fmdrop (ptr m)) messages (waitChs s)\<rparr>"

fun submit_loop :: "'w gosmpp \<Rightarrow> nat \<Rightarrow> SubmitSM list \<Rightarrow> nat list \<Rightarrow> SMSCenter \<Rightarrow> 'w
      \<Rightarrow> (string + nat list) \<times> SMSCenter \<times> 'w" where
  "submit_loop g t [] partChs s w = (Inr partChs, s, w)"
| "submit_loop g t (msg # msgs) partChs s w =
     (let partCh = fresh s;
          s1 = s\<lparr>fresh := Suc (fresh s), waitChs := fmupd (ptr msg) partCh (waitChs s)\<rparr>;
          ((e, rs), w1) = submit g t msg w;
          s2 = deliver rs s1
      in case e of
           Some err \<Rightarrow> (Inl err, dropWaitingPartsFrom (msg # msgs) s2, w1)
         | None \<Rightarrow> submit_loop g t msgs (partChs @ [partCh]) s2 w1)"

fun new_parts :: "nat \<Rightarrow> address \<Rightarrow> address \<Rightarrow> encoding \<Rightarrow> string list \<Rightarrow> SubmitSM list" where
  "new_parts n src dst enc [] = []"
| "new_parts n src dst enc (x # xs) =
     \<lparr>ptr = n, source = src, dest = dst, payload = x, coding = enc, registeredDelivery = 1,
      priorityFlag = 1\<rparr> # new_parts (Suc n) src dst enc xs"

definition sendSMS :: "'w gosmpp \<Rightarrow> string \<Rightarrow> string \<Rightarrow> string \<Rightarrow> SMSCenter \<Rightarrow> 'w
      \<Rightarrow> (string + nat list) \<times> SMSCenter \<times> 'w" where
  "sendSMS g from' to text' s w =
     (case trans s of
        None \<Rightarrow> (Inl ''smsc session is not started'', s, w)
      | Some t \<Rightarrow>
          let sender = (if from' = [] then SourceAddr (config s) else from') in
          case setAddress g sender of Some e \<Rightarrow> (Inl e, s, w) | None \<Rightarrow>
          (case setAddress g to of Some e \<Rightarrow> (Inl e, s, w) | None \<Rightarrow>
            (let src = \<lparr>ton = 5, npi = 0, addr = sender\<rparr>; dst = \<lparr>ton = 1, npi = 1, addr = to\<rparr>;
                 enc = (if isGSM7 g text' then GSM7BIT else UCS2)
             in case setLongMessage g text' enc of Some e \<Rightarrow> (Inl e, s, w) | None \<Rightarrow>
               (case splitParts g text' enc of
                  Inl e \<Rightarrow> (Inl e, s, w)
                | Inr ps \<Rightarrow>
                    submit_loop g t (new_parts (fresh s) src dst enc ps) []
                      (s\<lparr>fresh := fresh s + length ps\<rparr>) w))))"

text \<open>The values the forwarding goroutines can offer to the final \<^verbatim>\<open>select\<close>.\<close>

definition ready :: "nat list \<Rightarrow> SMSCenter \<Rightarrow> string list" where
  "ready partChs s = List.map_filter (fmlookup (bufs s)) partChs"

definition sendMessage :: "(string list \<Rightarrow> string option) \<Rightarrow> 'w gosmpp \<Rightarrow> string \<Rightarrow> string \<Rightarrow> string
      \<Rightarrow> SMSCenter \<Rightarrow> 'w \<Rightarrow> (string + string) \<times> SMSCenter \<times> 'w" where
  "sendMessage pick g from' to text' s0 w =
     (let s = s0\<lparr>attempts := Suc (attempts s0)\<rparr> in
      if dryRun s then (Inr ''DryRun'', s, w)
      else case sendSMS g from' to text' s w of
        (Inl e, s1, w1) \<Rightarrow> (Inl e, s1, w1)
      | (Inr partChs, s1, w1) \<Rightarrow>
          let (rs, w2) = wait_for g (resultTimeout s1) w1; s2 = deliver rs s1 in
          (case pick (ready partChs s2) of
             Some res \<Rightarrow> (Inr res, dropWaitingParts s2, w2)
           | None \<Rightarrow> (Inl ''send message timeout while result message is waiting'', dropWaitingParts s2, w2)))"

definition closing_prefix :: string where
  "closing_prefix = ''connection is closing, can not send PDU to SMSC''"

definition has_prefix :: "string \<Rightarrow> string \<Rightarrow> bool" where
  "has_prefix s p \<longleftrightarrow> take (length p) s = p"

text \<open>The loop of \<^verbatim>\<open>SendMessage\<close>, over the values of \<open>i\<close> still to come.\<close>

fun send_loop :: "(string list \<Rightarrow> string option) \<Rightarrow> 'w gosmpp \<Rightarrow> string \<Rightarrow> string \<Rightarrow> string
      \<Rightarrow> nat list \<Rightarrow> string option \<Rightarrow> SMSCenter \<Rightarrow> 'w \<Rightarrow> (string + string) \<times> SMSCenter \<times> 'w" where
  "send_loop pick g from' to text' [] lastErr s w =
     (Inl (case lastErr of Some e \<Rightarrow> e | None \<Rightarrow> ''can't send message''), s, w)"
| "send_loop pick g from' to text' (i # is) lastErr s w =
     (case sendMessage pick g from' to text' s w of
        (Inr res, s1, w1) \<Rightarrow> (Inr res, s1, w1)
      | (Inl e, s1, w1) \<Rightarrow>
          if has_prefix e closing_prefix
          then (case Restart g s1 w1 of
              (Some e', s2, w2) \<Rightarrow> (Inl e', s2, w2)
            | (None, s2, w2) \<Rightarrow> send_loop pick g from' to text' is (Some e) s2 w2)
          else send_loop pick g from' to text' is (Some e)
                 (if i < 5 then s1\<lparr>slept := slept s1 + int i * 100000000\<rparr> else s1) w1)"

definition SendMessage :: "(string list \<Rightarrow> string option) \<Rightarrow> 'w gosmpp \<Rightarrow> string \<Rightarrow> string \<Rightarrow> string
      \<Rightarrow> SMSCenter \<Rightarrow> 'w \<Rightarrow> (string + string) \<times> SMSCenter \<times> 'w" where
  "SendMessage pick g from' to text' s w = send_loop pick g from' to text' [1, 2, 3, 4, 5] None s w"

subsection \<open>Waiters and channels\<close>

text \<open>Everything registered was allocated before; true of a new centre and kept by every operation.\<close>

definition sms_inv :: "SMSCenter \<Rightarrow> bool" where
  "sms_inv s \<longleftrightarrow>
     (\<forall>p ch. fmlookup (waitChs s) p = Some ch \<longrightarrow> p < fresh s \<and> ch < fresh s) \<and>
     (\<forall>ch m. fmlookup (bufs s) ch = Some m \<longrightarrow> ch < fresh s)"

text \<open>
  The state of an attempt that began when the allocator stood at \<open>f\<close> and the responses \<open>h\<close> had been
  heard: a channel allocated since carries only the identifier of a response, heard since, to a PDU
  allocated since.
\<close>

definition own :: "nat \<Rightarrow> response list \<Rightarrow> SMSCenter \<Rightarrow> bool" where
  "own f h s \<longleftrightarrow>
     f \<le> fresh s \<and>
     (\<forall>p ch. fmlookup (waitChs s) p = Some ch \<longrightarrow> f \<le> ch \<longrightarrow> f \<le> p) \<and>
     (\<exists>h'. heard s = h @ h' \<and>
        (\<forall>ch m. fmlookup (bufs s) ch = Some m \<longrightarrow> f \<le> ch \<longrightarrow>
           (\<exists>p r. f \<le> p \<and> r \<in> set h' \<and> originalRequest r = PSubmitSM p \<and> resp_pdu r = PSubmitSMResp m)))"

lemma handle_inv [inv_intros]: "sms_inv s \<Longrightarrow> sms_inv (handleExpectedPduResponse r s)"
  by (auto simp: sms_inv_def handleExpectedPduResponse_def handleSubmitSMResponse_def Let_def
      split: pdu.split option.split)

lemma handle_own:
  assumes "own f h s"
  shows "own f h (handleExpectedPduResponse r s)"
proof -
  obtain h' where h': "heard s = h @ h'" and
    b: "\<And>ch m. fmlookup (bufs s) ch = Some m \<Longrightarrow> f \<le> ch \<Longrightarrow>
      \<exists>p r. f \<le> p \<and> r \<in> set h' \<and> originalRequest r = PSubmitSM p \<and> resp_pdu r = PSubmitSMResp m"
    using assms unfolding own_def by blast
  have w: "\<And>p ch. fmlookup (waitChs s) p = Some ch \<Longrightarrow> f \<le> ch \<Longrightarrow> f \<le> p" and "f \<le> fresh s"
    using assms unfolding own_def by blast+
  have b': "\<exists>p q. f \<le> p \<and> q \<in> set (h' @ [r]) \<and> originalRequest q = PSubmitSM p \<and> resp_pdu q = PSubmitSMResp m"
    if "fmlookup (bufs s) ch = Some m" "f \<le> ch" for ch m
    using b [OF that] by (metis UnCI set_append)
  show ?thesis
    unfolding own_def
  proof (intro conjI exI [of _ "h' @ [r]"] allI impI)
    show "heard (handleExpectedPduResponse r s) = h @ h' @ [r]" "f \<le> fresh (handleExpectedPduResponse r s)"
      using h' \<open>f \<le> fresh s\<close>
      by (simp_all add: handleExpectedPduResponse_def handleSubmitSMResponse_def Let_def split: pdu.split option.split)
    show "f \<le> p" if "fmlookup (waitChs (handleExpectedPduResponse r s)) p = Some ch" "f \<le> ch" for p ch
      using that w
      by (auto simp: handleExpectedPduResponse_def handleSubmitSMResponse_def Let_def
          split: pdu.splits option.splits if_splits)
    show "\<exists>p q. f \<le> p \<and> q \<in> set (h' @ [r]) \<and> originalRequest q = PSubmitSM p \<and> resp_pdu q = PSubmitSMResp m"
      if "fmlookup (bufs (handleExpectedPduResponse r s)) ch = Some m" "f \<le> ch" for ch m
    proof (cases "fmlookup (bufs s) ch = Some m")
      case False
      then have "\<exists>p. originalRequest r = PSubmitSM p \<and> resp_pdu r = PSubmitSMResp m \<and> fmlookup (waitChs s) p = Some ch"
        using that(1) by (auto simp: handleExpectedPduResponse_def handleSubmitSMResponse_def Let_def
            split: pdu.splits option.splits if_splits)
      then show ?thesis using w that(2) by auto
    qed (use b' that(2) in blast)
  qed
qed

lemma deliver_inv [inv_intros]: "sms_inv s \<Longrightarrow> sms_inv (deliver rs s)"
  unfolding deliver_def by (induction rs arbitrary: s) (auto intro: handle_inv)

lemma deliver_own: "own f h s \<Longrightarrow> own f h (deliver rs s)"
  unfolding deliver_def by (induction rs arbitrary: s) (auto intro: handle_own)

lemma handle_fields [simp]:
  "fresh (handleExpectedPduResponse r s) = fresh s"
  "trans (handleExpectedPduResponse r s) = trans s"
  "dryRun (handleExpectedPduResponse r s) = dryRun s"
  "attempts (handleExpectedPduResponse r s) = attempts s"
  "slept (handleExpectedPduResponse r s) = slept s"
  by (simp_all add: handleExpectedPduResponse_def handleSubmitSMResponse_def Let_def
      split: pdu.split option.split)

lemma deliver_fields [simp]:
  "fresh (deliver rs s) = fresh s" "trans (deliver rs s) = trans s" "dryRun (deliver rs s) = dryRun s"
  "attempts (deliver rs s) = attempts s" "slept (deliver rs s) = slept s"
  unfolding deliver_def by (induction rs arbitrary: s) simp_all

lemma lookup_dropped:
  "fmlookup (waitChs (dropWaitingPartsFrom ms s)) p = (if p \<in> ptr ` set ms then None else fmlookup (waitChs s) p)"
proof -
  have "fmlookup (fold (\<lambda>m. fmdrop (ptr m)) ms W) p = (if p \<in> ptr ` set ms then None else fmlookup W p)"
    for W :: "(nat, nat) gomap"
    by (induction ms arbitrary: W) auto
  then show ?thesis by (simp add: dropWaitingPartsFrom_def)
qed

lemma dropped_fields [simp]:
  "bufs (dropWaitingPartsFrom ms s) = bufs s" "fresh (dropWaitingPartsFrom ms s) = fresh s"
  "heard (dropWaitingPartsFrom ms s) = heard s" "trans (dropWaitingPartsFrom ms s) = trans s"
  "dryRun (dropWaitingPartsFrom ms s) = dryRun s" "attempts (dropWaitingPartsFrom ms s) = attempts s"
  "slept (dropWaitingPartsFrom ms s) = slept s"
  by (simp_all add: dropWaitingPartsFrom_def)

lemma dropped_inv [inv_intros]: "sms_inv s \<Longrightarrow> sms_inv (dropWaitingPartsFrom ms s)"
  by (simp add: sms_inv_def lookup_dropped)

lemma dropped_own: "own f h s \<Longrightarrow> own f h (dropWaitingPartsFrom ms s)"
  by (simp add: own_def lookup_dropped)

text \<open>What registering a part under a fresh channel keeps.\<close>

lemma register_inv [inv_intros]:
  "sms_inv s \<Longrightarrow> p < fresh s \<Longrightarrow>
   sms_inv (s\<lparr>fresh := Suc (fresh s), waitChs := fmupd p (fresh s) (waitChs s)\<rparr>)"
  by (auto simp: sms_inv_def less_Suc_eq)

lemma register_own:
  "own f h s \<Longrightarrow> f \<le> p \<Longrightarrow>
   own f h (s\<lparr>fresh := Suc (fresh s), waitChs := fmupd p (fresh s) (waitChs s)\<rparr>)"
  by (auto simp: own_def)

text \<open>What the submissions of one message keep, on success and on failure.\<close>

lemma submit_loop_keeps:
  assumes "submit_loop g t msgs partChs s w = (res, s', w')"
    and "own f h s" and "sms_inv s"
    and "\<forall>m \<in> set msgs. f \<le> ptr m \<and> ptr m < fresh s" and "\<forall>c \<in> set partChs. f \<le> c"
  shows "own f h s' \<and> sms_inv s' \<and> trans s' = trans s \<and> dryRun s' = dryRun s \<and>
         attempts s' = attempts s \<and> slept s' = slept s \<and> (\<forall>cs. res = Inr cs \<longrightarrow> (\<forall>c \<in> set cs. f \<le> c))"
  using assms
proof (induction g t msgs partChs s w rule: submit_loop.induct)
  case (2 g t msg msgs partChs s w)
  let ?s1 = "s\<lparr>fresh := Suc (fresh s), waitChs := fmupd (ptr msg) (fresh s) (waitChs s)\<rparr>"
  obtain e rs w1 where sub: "submit g t msg w = ((e, rs), w1)" by (metis surj_pair)
  let ?s2 = "deliver rs ?s1"
  have o: "own f h ?s2" and i: "sms_inv ?s2"
    using 2(3-5) by (auto intro!: deliver_own register_own deliver_inv register_inv)
  show ?case
  proof (cases e)
    case (Some err)
    then show ?thesis using 2(2) sub o i by (auto simp: Let_def intro: dropped_own dropped_inv)
  next
    case None
    have "\<forall>m \<in> set msgs. f \<le> ptr m \<and> ptr m < fresh ?s2" "\<forall>c \<in> set (partChs @ [fresh s]). f \<le> c"
      using 2(3,5,6) by (auto simp: own_def less_Suc_eq)
    then show ?thesis
      using 2(1) [OF refl refl sub [symmetric] refl refl refl None _ o i] 2(2) sub None
      by (auto simp add: Let_def)
  qed
qed auto

lemma new_parts_ptrs: "m \<in> set (new_parts n src dst enc ps) \<Longrightarrow> n \<le> ptr m \<and> ptr m < n + length ps"
  by (induction ps arbitrary: n) fastforce+

lemma inv_own_start: "sms_inv s \<Longrightarrow> own (fresh s) (heard s) (s\<lparr>fresh := fresh s + k\<rparr>)"
  by (fastforce simp: sms_inv_def own_def)

lemma inv_grow [inv_intros]: "sms_inv s \<Longrightarrow> sms_inv (s\<lparr>fresh := fresh s + k\<rparr>)"
  by (fastforce simp: sms_inv_def)

lemma sendSMS_keeps:
  assumes "sendSMS g from' to text' s w = (res, s', w')" and "sms_inv s"
  shows "own (fresh s) (heard s) s' \<and> sms_inv s' \<and> trans s' = trans s \<and> dryRun s' = dryRun s \<and>
         attempts s' = attempts s \<and> slept s' = slept s \<and>
         (\<forall>cs. res = Inr cs \<longrightarrow> (\<forall>c \<in> set cs. fresh s \<le> c))"
proof -
  have self: "own (fresh s) (heard s) s" using inv_own_start [OF assms(2), of 0] by simp
  show ?thesis
    using assms(1) self assms(2) unfolding sendSMS_def Let_def
    by (auto split: option.splits sum.splits if_splits intro!: submit_loop_keeps [simplified]
        dest!: submit_loop_keeps [where f = "fresh s" and h = "heard s"]
        intro: inv_own_start inv_grow dest: new_parts_ptrs)
qed

subsection \<open>Reachable states\<close>

inductive sms_reachable :: "(string list \<Rightarrow> string option) \<Rightarrow> 'w gosmpp \<Rightarrow> SMSCenter \<Rightarrow> bool"
  for pick :: "string list \<Rightarrow> string option" and g :: "'w gosmpp" where
  new: "sms_reachable pick g (NewSMSCenter pd cfg)"
| start: "sms_reachable pick g s \<Longrightarrow> startLocked g s w = (e, s', w') \<Longrightarrow> sms_reachable pick g s'"
| stop: "sms_reachable pick g s \<Longrightarrow> stopLocked g s w = (e, s', w') \<Longrightarrow> sms_reachable pick g s'"
| late_response: "sms_reachable pick g s \<Longrightarrow> sms_reachable pick g (handleExpectedPduResponse r s)"
| send: "sms_reachable pick g s \<Longrightarrow> sendMessage pick g from' to text' s w = (res, s', w')
    \<Longrightarrow> sms_reachable pick g s'"

lemma startLocked_keeps:
  "startLocked g s w = (e, s', w') \<Longrightarrow>
   waitChs s' = waitChs s \<and> bufs s' = bufs s \<and> fresh s' = fresh s \<and> attempts s' = attempts s \<and> slept s' = slept s"
  by (auto simp: startLocked_def Let_def split: if_splits prod.splits)

lemma stopLocked_keeps:
  "waitChs (fst (snd (stopLocked g s w))) = waitChs s \<and> bufs (fst (snd (stopLocked g s w))) = bufs s \<and>
   fresh (fst (snd (stopLocked g s w))) = fresh s \<and> attempts (fst (snd (stopLocked g s w))) = attempts s \<and>
   slept (fst (snd (stopLocked g s w))) = slept s"
  by (simp add: stopLocked_def case_prod_beta split: option.split)

lemma Restart_keeps:
  "Restart g s w = (e, s', w') \<Longrightarrow> sms_inv s \<Longrightarrow> sms_inv s' \<and> attempts s' = attempts s \<and> slept s' = slept s"
  using startLocked_keeps [of g "fst (snd (stopLocked g s w))" "snd (snd (stopLocked g s w))" e s' w'] stopLocked_keeps [of g s w]
  by (simp add: Restart_def sms_inv_def case_prod_beta)

lemma sendMessage_cases:
  assumes "sendMessage pick g from' to text' s w = (res, s', w')" and "\<not> dryRun s" and "sms_inv s"
  obtains e where "res = Inl e" "sms_inv s'" "attempts s' = Suc (attempts s)" "slept s' = slept s"
  | cs s1 where "sms_inv s1" "own (fresh s) (heard s) s1" "\<forall>c \<in> set cs. fresh s \<le> c"
      "attempts s1 = Suc (attempts s)" "slept s1 = slept s" "s' = dropWaitingParts s1"
      "case pick (ready cs s1) of Some m \<Rightarrow> res = Inr m | None \<Rightarrow> isl res"
proof -
  let ?s = "s\<lparr>attempts := Suc (attempts s)\<rparr>"
  obtain r1 s1 w1 where snd: "sendSMS g from' to text' ?s w = (r1, s1, w1)" by (metis surj_pair)
  have "sms_inv ?s" using assms(3) by (simp add: sms_inv_def)
  note k = sendSMS_keeps [OF snd this, simplified]
  show thesis
  proof (cases r1)
    case (Inl e)
    then show thesis using that(1) [of e] k snd assms(1,2) by (simp add: sendMessage_def)
  next
    case (Inr cs)
    obtain rs w2 where wt: "wait_for g (resultTimeout s1) w1 = (rs, w2)" by (metis surj_pair)
    have "s' = dropWaitingParts (deliver rs s1)"
      "case pick (ready cs (deliver rs s1)) of Some m \<Rightarrow> res = Inr m | None \<Rightarrow> isl res"
      using assms(1,2) Inr snd wt by (auto simp: sendMessage_def Let_def split: option.splits)
    then show thesis using that(2) [of "deliver rs s1" cs] k Inr deliver_own deliver_inv by simp
  qed
qed

lemma drop_all_inv [inv_intros]: "sms_inv s \<Longrightarrow> sms_inv (dropWaitingParts s)"
  by (simp add: sms_inv_def dropWaitingParts_def)

lemma sendMessage_keeps:
  assumes "sendMessage pick g from' to text' s w = (res, s', w')" and "sms_inv s"
  shows "sms_inv s' \<and> attempts s' = Suc (attempts s) \<and> slept s' = slept s"
proof (cases "dryRun s")
  case True
  then show ?thesis using assms by (auto simp: sendMessage_def sms_inv_def)
next
  case False
  show ?thesis
    by (rule sendMessage_cases [OF assms(1) False assms(2)]) (auto simp: drop_all_inv, auto simp: dropWaitingParts_def)
qed

lemma reachable_inv: "sms_reachable pick g s \<Longrightarrow> sms_inv s"
proof (induction rule: sms_reachable.induct)
  case (start s w e s' w')
  then show ?case using startLocked_keeps [OF start.hyps(2)] by (simp add: sms_inv_def)
next
  case (stop s w e s' w')
  then show ?case using stopLocked_keeps [of g s w] by (simp add: sms_inv_def)
next
  case (send s from' to text' w res s' w')
  show ?case using sendMessage_keeps [OF send.hyps(2) send.IH] by simp
next
  case (new pd cfg)
  show ?case by (simp add: NewSMSCenter_def sms_inv_def)
qed (rule handle_inv)

fun sleeps :: "nat list \<Rightarrow> duration" where
  "sleeps [] = 0"
| "sleeps (i # is) = (if i < 5 then int i * 100000000 else 0) + sleeps is"

lemma send_loop_bounds:
  assumes "send_loop pick g from' to text' is lastErr s w = (res, s', w')" and "sms_inv s"
  shows "attempts s' \<le> attempts s + length is \<and> (is \<noteq> [] \<longrightarrow> attempts s < attempts s') \<and>
         slept s' \<le> slept s + sleeps is \<and>
         (\<forall>e. res = Inl e \<longrightarrow> attempts s' = attempts s + length is \<or>
             (\<exists>s1 w1 s2 w2. Restart g s1 w1 = (Some e, s2, w2)))"
  using assms
proof (induction "is" arbitrary: lastErr s w)
  case (Cons i is')
  obtain r1 s1 w1 where m: "sendMessage pick g from' to text' s w = (r1, s1, w1)" by (metis surj_pair)
  note k = sendMessage_keeps [OF m Cons.prems(2)]
  have pos: "0 \<le> sleeps xs" for xs by (induction xs) auto
  show ?case
  proof (cases r1)
    case (Inr m)
    then show ?thesis using Cons.prems(1) m k pos [of is'] by auto
  next
    case (Inl e)
    show ?thesis
    proof (cases "has_prefix e closing_prefix")
      case True
      obtain e2 s2 w2 where rs: "Restart g s1 w1 = (e2, s2, w2)" by (metis surj_pair)
      note k2 = Restart_keeps [OF rs] k
      show ?thesis
      proof (cases e2)
        case None
        then show ?thesis
          using Cons.IH [of "Some e" s2 w2] Cons.prems(1) m Inl True rs k2 by auto
      next
        case (Some a)
        then have "res = Inl a" "s' = s2" using Cons.prems(1) m Inl True rs by auto
        then show ?thesis using k2 pos [of is'] rs Some by auto
      qed
    next
      case False
      let ?s2 = "if i < 5 then s1\<lparr>slept := slept s1 + int i * 100000000\<rparr> else s1"
      have "sms_inv ?s2" using k by (simp add: sms_inv_def)
      then show ?thesis
        using Cons.IH [of "Some e" ?s2 w1] Cons.prems(1) m Inl False k by (auto split: if_splits)
    qed
  qed
qed auto

subsection \<open>One session\<close>

definition one_session :: "SMSCenter \<Rightarrow> bool" where
  "one_session s \<longleftrightarrow> sessions s \<subseteq> set_option (trans s) \<and> (dryRun s \<longrightarrow> sessions s = {})"

definition same_session :: "SMSCenter \<Rightarrow> SMSCenter \<Rightarrow> bool" where
  "same_session s s' \<longleftrightarrow> trans s' = trans s \<and> sessions s' = sessions s \<and> dryRun s' = dryRun s"

lemma same_session_trans: "same_session s t \<Longrightarrow> same_session t u \<Longrightarrow> same_session s u"
  by (simp add: same_session_def)

lemma one_session_same: "same_session s s' \<Longrightarrow> one_session s \<Longrightarrow> one_session s'"
  by (simp add: same_session_def one_session_def)

lemma deliver_session: "same_session s (deliver rs s)"
proof -
  have "sessions (handleExpectedPduResponse r s) = sessions s" for r s
    by (simp add: handleExpectedPduResponse_def handleSubmitSMResponse_def Let_def split: pdu.split option.split)
  then have "sessions (deliver rs s) = sessions s" unfolding deliver_def by (induction rs arbitrary: s) simp_all
  then show ?thesis by (simp add: same_session_def)
qed

lemma submit_loop_session: "submit_loop g t msgs partChs s w = (res, s', w') \<Longrightarrow> same_session s s'"
proof (induction g t msgs partChs s w rule: submit_loop.induct)
  case (2 g t msg msgs partChs s w)
  let ?s1 = "s\<lparr>fresh := Suc (fresh s), waitChs := fmupd (ptr msg) (fresh s) (waitChs s)\<rparr>"
  obtain e rs w1 where sub: "submit g t msg w = ((e, rs), w1)" by (metis surj_pair)
  have d: "same_session s (deliver rs ?s1)" using deliver_session [of ?s1 rs] by (simp add: same_session_def)
  show ?case
  proof (cases e)
    case (Some err)
    then have "s' = dropWaitingPartsFrom (msg # msgs) (deliver rs ?s1)" using 2(2) sub by (simp add: Let_def)
    then show ?thesis using d by (simp add: same_session_def dropWaitingPartsFrom_def)
  next
    case None
    then have "submit_loop g t msgs (partChs @ [fresh s]) (deliver rs ?s1) w1 = (res, s', w')" using 2(2) sub by (simp add: Let_def)
    then show ?thesis using 2(1) [OF refl refl sub [symmetric] refl refl refl None] same_session_trans [OF d] by blast
  qed
qed (simp add: same_session_def)

lemma sendSMS_session: "sendSMS g from' to text' s w = (res, s', w') \<Longrightarrow> same_session s s'"
  unfolding sendSMS_def Let_def
  by (auto split: option.splits sum.splits dest!: submit_loop_session) (simp_all add: same_session_def)

lemma sendMessage_session: "sendMessage pick g from' to text' s w = (res, s', w') \<Longrightarrow> same_session s s'"
proof -
  assume run: "sendMessage pick g from' to text' s w = (res, s', w')"
  let ?s = "s\<lparr>attempts := Suc (attempts s)\<rparr>"
  obtain r1 s1 w1 where snd: "sendSMS g from' to text' ?s w = (r1, s1, w1)" by (metis surj_pair)
  have 1: "same_session s s1" using sendSMS_session [OF snd] by (simp add: same_session_def)
  have "same_session s1 (dropWaitingParts (deliver rs s1))" for rs
    using deliver_session [of s1 rs] by (simp add: same_session_def dropWaitingParts_def)
  then show ?thesis
    using run snd same_session_trans [OF 1] 1
    by (auto simp: sendMessage_def Let_def same_session_def split: if_splits sum.splits prod.splits option.splits)
qed

lemma stop_session:
  assumes "one_session s"
  shows "sessions (fst (snd (stopLocked g s w))) = {} \<and> dryRun (fst (snd (stopLocked g s w))) = dryRun s"
  using assms by (auto simp: stopLocked_def one_session_def case_prod_beta split: option.splits)

lemma start_session: "sessions s = {} \<Longrightarrow> one_session (fst (snd (startLocked g s w)))"
  by (simp add: startLocked_def one_session_def case_prod_beta Let_def)

lemma Restart_session: "one_session s \<Longrightarrow> one_session (fst (snd (Restart g s w)))"
  unfolding Restart_def case_prod_beta Let_def by (rule start_session) (simp add: stop_session)

lemma send_loop_session: "one_session s \<Longrightarrow> one_session (fst (snd (send_loop pick g from' to text' is lastErr s w)))"
proof (induction "is" arbitrary: lastErr s w)
  case (Cons i is')
  obtain r1 s1 w1 where m: "sendMessage pick g from' to text' s w = (r1, s1, w1)" by (metis surj_pair)
  have 1: "one_session s1" using one_session_same [OF sendMessage_session [OF m] Cons.prems] .
  obtain e2 s2 w2 where r: "Restart g s1 w1 = (e2, s2, w2)" by (metis surj_pair)
  have 2: "one_session s2" using Restart_session [OF 1, of g w1] r by simp
  have 3: "one_session (s1\<lparr>slept := x\<rparr>)" for x using 1 by (simp add: one_session_def)
  show ?case using m r 1 Cons.IH [OF 1] Cons.IH [OF 2] Cons.IH [OF 3] 2 by (simp split: sum.split option.split)
qed simp

subsection \<open>A concrete session\<close>

text \<open>
  A session for concrete runs: the world counts submissions, the submission number \<open>bad\<close> fails, a message
  has the parts \<open>ps\<close>, and the peer answers the PDU \<open>p\<close> during the final wait.
\<close>

definition demo_session :: "nat \<Rightarrow> string list \<Rightarrow> nat \<Rightarrow> nat gosmpp" where
  "demo_session bad ps p =
     \<lparr>newSession = (\<lambda>_ w. ((Some 0, None), w)), closeSession = (\<lambda>_ w. (None, w)), setAddress = (\<lambda>_. None),
      isGSM7 = (\<lambda>_. True), setLongMessage = (\<lambda>_ _. None), splitParts = (\<lambda>_ _. Inr ps),
      submit = (\<lambda>_ _ w. ((if w = bad then Some ''broken'' else None, []), Suc w)),
      wait_for = (\<lambda>_ w. ([\<lparr>resp_pdu = PSubmitSMResp ''id7'', originalRequest = PSubmitSM p\<rparr>], w))\<rparr>"

definition first_ready :: "string list \<Rightarrow> string option" where
  "first_ready xs = (case xs of [] \<Rightarrow> None | x # _ \<Rightarrow> Some x)"

definition demo_sms_config :: ConfigSMSC where
  "demo_sms_config = \<lparr>SMSC = ''localhost:2775'', SystemID = ''u'', Password = ''p'', SystemType = ''cp'', SourceAddr = ''me'',
     ResultTimeout = ''5s'', DryRun = False\<rparr>"

definition demo_center :: SMSCenter where
  "demo_center = (NewSMSCenter (\<lambda>_. None) demo_sms_config)\<lparr>trans := Some 0, sessions := {0}\<rparr>"

lemma demo_center_reachable: "sms_reachable pick (demo_session bad ps p) demo_center"
proof (rule sms_reachable.start [OF sms_reachable.new [of _ _ "\<lambda>_. None" demo_sms_config]])
  show "startLocked (demo_session bad ps p) (NewSMSCenter (\<lambda>_. None) demo_sms_config) 0 = (None, demo_center, 0)"
    by (simp add: startLocked_def demo_session_def demo_center_def NewSMSCenter_def demo_sms_config_def)
qed

lemmas [go_simps] =
  demo_session_def demo_center_def NewSMSCenter_def demo_sms_config_def sendMessage_def sendSMS_def
  deliver_def handleExpectedPduResponse_def handleSubmitSMResponse_def ready_def List.map_filter_def
  first_ready_def dropWaitingParts_def dropWaitingPartsFrom_def

subsection \<open>Properties\<close>

text \<open>
  C8: The identifier that one attempt of \<^verbatim>\<open>sendMessage\<close> returns answers this very message: it is the
  \<^verbatim>\<open>MessageID\<close> of a \<^verbatim>\<open>SubmitSMResp\<close> heard during the attempt whose original request is a PDU allocated
  during the attempt.  A late response to an earlier message is never mistaken for it, in any state
  the centre can reach.  \<open>pick\<close>, the \<^verbatim>\<open>select\<close>, only returns what is ready.
\<close>
theorem sendMessage_own_response:
  assumes "sms_reachable pick g s" and "\<not> dryRun s" and "\<And>xs m. pick xs = Some m \<Longrightarrow> m \<in> set xs"
      and "sendMessage pick g from' to text' s w = (Inr m, s', w')"
  shows "\<exists>h' p r. heard s' = heard s @ h' \<and> r \<in> set h' \<and> fresh s \<le> p \<and>
           originalRequest r = PSubmitSM p \<and> resp_pdu r = PSubmitSMResp m"
proof (rule sendMessage_cases [OF assms(4) assms(2) reachable_inv [OF assms(1)]])
  fix cs s1
  assume o: "own (fresh s) (heard s) s1" and cs: "\<forall>c \<in> set cs. fresh s \<le> c"
    and s': "s' = dropWaitingParts s1"
    and p: "case pick (ready cs s1) of Some m' \<Rightarrow> Inr m = (Inr m' :: string + string) | None \<Rightarrow> isl (Inr m :: string + string)"
  from p have "pick (ready cs s1) = Some m" by (simp split: option.splits)
  then have "m \<in> set (ready cs s1)" by (rule assms(3))
  then obtain ch where "ch \<in> set cs" "fmlookup (bufs s1) ch = Some m"
    by (auto simp: ready_def List.map_filter_def)
  then show ?thesis using o cs s' unfolding own_def dropWaitingParts_def by fastforce
qed simp

theorem sendMessage_own_response_witness:
  "\<exists>h' p r. heard (fst (snd (sendMessage first_ready (demo_session 9 [''a'', ''b''] 1) [] ''42'' ''ab'' demo_center 0))) = h' \<and>
     r \<in> set h' \<and> originalRequest r = PSubmitSM p \<and> resp_pdu r = PSubmitSMResp ''id7''"
proof -
  let ?g = "demo_session 9 [''a'', ''b''] 1"
  obtain s' w' where run: "sendMessage first_ready ?g [] ''42'' ''ab'' demo_center 0 = (Inr ''id7'', s', w')"
    by (simp add: go_simps)
  have sel: "\<And>xs m. first_ready xs = Some m \<Longrightarrow> m \<in> set xs"
    by (simp add: first_ready_def split: list.splits)
  have "\<not> dryRun demo_center" by (simp add: go_simps)
  from sendMessage_own_response [OF demo_center_reachable this sel run]
  show ?thesis using run by fastforce
qed

text \<open>
  A \<^verbatim>\<open>sendMessage\<close> whose parts were all submitted, whether it then succeeds or times out, leaves no waiter
  behind: any response that arrives afterwards changes nothing but the log.
\<close>
theorem late_response_ignored:
  assumes "\<not> dryRun s" and "sendSMS g from' to text' (s\<lparr>attempts := Suc (attempts s)\<rparr>) w = (Inr cs, s1, w1)"
      and "sendMessage pick g from' to text' s w = (res, s', w')"
  shows "handleExpectedPduResponse r s' = s'\<lparr>heard := heard s' @ [r]\<rparr>"
proof -
  have "waitChs s' = fmempty"
    using assms by (auto simp: sendMessage_def Let_def dropWaitingParts_def split: prod.splits option.splits)
  then show ?thesis
    by (simp add: handleExpectedPduResponse_def handleSubmitSMResponse_def Let_def split: pdu.split)
qed

theorem late_response_ignored_witness:
  "waitChs (handleExpectedPduResponse \<lparr>resp_pdu = PSubmitSMResp ''late'', originalRequest = PSubmitSM 0\<rparr>
     (fst (snd (sendMessage first_ready (demo_session 9 [''a'', ''b''] 1) [] ''42'' ''ab'' demo_center 0)))) = fmempty"
proof -
  let ?g = "demo_session 9 [''a'', ''b''] 1" and ?r = "\<lparr>resp_pdu = PSubmitSMResp ''late'', originalRequest = PSubmitSM 0\<rparr>"
  obtain s' w' where run: "sendMessage first_ready ?g [] ''42'' ''ab'' demo_center 0 = (Inr ''id7'', s', w')"
    and e: "waitChs s' = fmempty"
    by (simp add: go_simps)
  obtain cs s1 w1 where sub: "sendSMS ?g [] ''42'' ''ab'' (demo_center\<lparr>attempts := Suc (attempts demo_center)\<rparr>) 0 = (Inr cs, s1, w1)"
    by (simp add: go_simps)
  have "\<not> dryRun demo_center" by (simp add: go_simps)
  from late_response_ignored [OF this sub run, of ?r] show ?thesis using run e by simp
qed

text \<open>
  \<^verbatim>\<open>SendMessage\<close> makes at least one and at most five attempts and sleeps at most one second in all; it
  reports an error only after five failed attempts, or when a \<^verbatim>\<open>Restart\<close> after a closed connection failed,
  and then it is the error of that \<^verbatim>\<open>Restart\<close>.
\<close>
theorem SendMessage_bounded:
  assumes "sms_reachable pick g s" and "SendMessage pick g from' to text' s w = (res, s', w')"
  shows "attempts s < attempts s' \<and> attempts s' \<le> attempts s + 5 \<and> slept s' \<le> slept s + 1000000000 \<and>
         (\<forall>e. res = Inl e \<longrightarrow> attempts s' = attempts s + 5 \<or>
             (\<exists>s1 w1 s2 w2. Restart g s1 w1 = (Some e, s2, w2)))"
  using send_loop_bounds [OF assms(2) [unfolded SendMessage_def] reachable_inv [OF assms(1)]]
  by (simp add: eval_nat_numeral)

theorem SendMessage_bounded_witness:
  "attempts (fst (snd (SendMessage first_ready (demo_session 0 [''a''] 2) [] ''42'' ''a'' demo_center 0))) \<le> 5"
proof -
  obtain res s' w' where run: "SendMessage first_ready (demo_session 0 [''a''] 2) [] ''42'' ''a'' demo_center 0 = (res, s', w')"
    by (metis surj_pair)
  have "attempts demo_center = 0" by (simp add: go_simps)
  then show ?thesis using SendMessage_bounded [OF demo_center_reachable run] run by simp
qed

text \<open>
  A submission that fails halfway unregisters the failing part and the later ones only: the parts that
  were already submitted stay in \<^verbatim>\<open>waitChs\<close> after \<^verbatim>\<open>sendMessage\<close> has returned the error.
\<close>
theorem failed_submit_leaves_waiters:
  "\<exists>e s' w'. sendMessage first_ready (demo_session 1 [''a'', ''b''] 0) [] ''42'' ''ab'' demo_center 0 = (Inl e, s', w') \<and>
     fmlookup (waitChs s') 0 \<noteq> None \<and> fmlookup (waitChs s') 1 = None"
  by (simp add: go_simps)

text \<open>
  However often \<^verbatim>\<open>SendMessage\<close> restarts the session, one session at most is open afterwards, and \<^verbatim>\<open>Stop\<close> closes it.
\<close>
theorem SendMessage_one_session:
  assumes "one_session s"
  shows "one_session (fst (snd (SendMessage pick g from' to text' s w))) \<and>
    sessions (fst (snd (Stop g (fst (snd (SendMessage pick g from' to text' s w))) w'))) = {}"
proof -
  have "one_session (fst (snd (SendMessage pick g from' to text' s w)))" unfolding SendMessage_def by (rule send_loop_session [OF assms])
  then show ?thesis by (simp add: Stop_def stop_session)
qed

text \<open>A second \<^verbatim>\<open>Start\<close> opens a session beside the first, which \<^verbatim>\<open>Stop\<close> does not close.\<close>

lemma sms_started_twice_leaks:
  assumes "\<And>w. newSession g (config s) w = ((Some (Suc w), None), Suc w)" and "\<not> dryRun s"
  shows "1 \<in> sessions (fst (snd (Stop g (fst (snd (Start g (fst (snd (Start g s 0))) 1))) 2)))"
  using assms by (simp add: Start_def Stop_def startLocked_def stopLocked_def case_prod_beta)

end
