(* ===== verification/ConnSlot.thy ===== *)
theory ConnSlot
  imports Main
begin

section \<open>The contract of a client with one connection\<close>

text \<open>
  What a client that keeps one connection and reconnects in the background promises.  The specification \<open>slot_step\<close> knows the
  connections that are open (\<open>live\<close>), the one in use (\<open>cur\<close>) and whether the client was stopped: a connection is put in use
  only when none is and the client is not stopped, and the one in use is not closed before it is taken out of use.  The
  locale \<open>conn_slot\<close> states that a client refines it.
\<close>

record slot =
  cur :: "nat option"
  live :: "nat set"
  shut :: bool

definition empty_slot :: slot where
  "empty_slot = \<lparr>cur = None, live = {}, shut = False\<rparr>"

inductive slot_step :: "slot \<Rightarrow> slot \<Rightarrow> bool" where
  dial: "h \<notin> live a \<Longrightarrow> slot_step a (a\<lparr>live := insert h (live a)\<rparr>)"
| install: "cur a = None \<Longrightarrow> h \<in> live a \<Longrightarrow> \<not> shut a \<Longrightarrow> slot_step a (a\<lparr>cur := Some h\<rparr>)"
| take_out: "slot_step a (a\<lparr>cur := None\<rparr>)"
| hang_up: "cur a \<noteq> Some h \<Longrightarrow> slot_step a (a\<lparr>live := live a - {h}\<rparr>)"
| shut_down: "slot_step a (a\<lparr>shut := True\<rparr>)"

inductive_cases slot_stepE: "slot_step a b"

abbreviation slot_steps :: "slot \<Rightarrow> slot \<Rightarrow> bool" where
  "slot_steps \<equiv> slot_step\<^sup>*\<^sup>*"

subsection \<open>The specification\<close>

definition slot_ok :: "slot \<Rightarrow> bool" where
  "slot_ok a \<longleftrightarrow> set_option (cur a) \<subseteq> live a"

lemma slot_step_ok: "slot_step a b \<Longrightarrow> slot_ok a \<Longrightarrow> slot_ok b"
  by (auto simp: slot_ok_def elim!: slot_stepE)

lemma slot_steps_ok: "slot_steps a b \<Longrightarrow> slot_ok a \<Longrightarrow> slot_ok b"
  by (induction rule: rtranclp_induct) (auto intro: slot_step_ok)

lemma slot_step_shut: "slot_step a b \<Longrightarrow> shut a \<Longrightarrow> shut b \<and> (cur b = cur a \<or> cur b = None)"
  by (auto elim!: slot_stepE)

lemma slot_steps_shut: "slot_steps a b \<Longrightarrow> shut a \<Longrightarrow> shut b \<and> (cur b = cur a \<or> cur b = None)"
  by (induction rule: rtranclp_induct) (auto dest: slot_step_shut)

text \<open>One step, and the steps a client takes at once.\<close>

lemma slot_moves:
  "h \<notin> L \<Longrightarrow> slot_steps \<lparr>cur = c, live = L, shut = x\<rparr> \<lparr>cur = c, live = insert h L, shut = x\<rparr>"
  "h \<in> L \<Longrightarrow> slot_steps \<lparr>cur = None, live = L, shut = False\<rparr> \<lparr>cur = Some h, live = L, shut = False\<rparr>"
  "slot_steps \<lparr>cur = c, live = L, shut = x\<rparr> \<lparr>cur = None, live = L, shut = x\<rparr>"
  "c \<noteq> Some h \<Longrightarrow> slot_steps \<lparr>cur = c, live = L, shut = x\<rparr> \<lparr>cur = c, live = L - {h}, shut = x\<rparr>"
  "slot_steps \<lparr>cur = c, live = L, shut = x\<rparr> \<lparr>cur = c, live = L, shut = True\<rparr>"
  using slot_step.dial [of h "\<lparr>cur = c, live = L, shut = x\<rparr>"] slot_step.install [of "\<lparr>cur = None, live = L, shut = False\<rparr>" h]
    slot_step.take_out [of "\<lparr>cur = c, live = L, shut = x\<rparr>"] slot_step.hang_up [of "\<lparr>cur = c, live = L, shut = x\<rparr>" h]
    slot_step.shut_down [of "\<lparr>cur = c, live = L, shut = x\<rparr>"]
  by simp_all

lemma hang_up_all:
  assumes "finite H" and "cur a = None"
  shows "slot_steps a (a\<lparr>live := live a - H\<rparr>)"
  using assms(1)
proof induction
  case (insert h H)
  have "live a - insert h H = live a - H - {h}" by auto
  then have "slot_step (a\<lparr>live := live a - H\<rparr>) (a\<lparr>live := live a - insert h H\<rparr>)"
    using slot_step.hang_up [of "a\<lparr>live := live a - H\<rparr>" h] assms(2) by simp
  then show ?case using insert.IH by simp
qed simp

subsection \<open>Refinement\<close>

locale conn_slot =
  fixes step :: "'s \<Rightarrow> 's \<Rightarrow> bool" and inv :: "'s \<Rightarrow> bool" and view :: "'s \<Rightarrow> slot"
  assumes step_inv: "inv s \<Longrightarrow> step s s' \<Longrightarrow> inv s'"
    and step_view: "inv s \<Longrightarrow> step s s' \<Longrightarrow> slot_steps (view s) (view s')"
begin

lemma run_refines: "step\<^sup>*\<^sup>* s s' \<Longrightarrow> inv s \<Longrightarrow> inv s' \<and> slot_steps (view s) (view s')"
proof (induction rule: rtranclp_induct)
  case (step t u)
  then have "inv t" "slot_steps (view s) (view t)" by simp_all
  then show ?case using step.hyps(2) step_inv step_view by (meson rtranclp_trans)
qed simp

lemma stays_disconnected:
  "step\<^sup>*\<^sup>* s s' \<Longrightarrow> inv s \<Longrightarrow> shut (view s) \<Longrightarrow> cur (view s) = None \<Longrightarrow> shut (view s') \<and> cur (view s') = None"
  using run_refines slot_steps_shut by fastforce

lemma current_open:
  "step\<^sup>*\<^sup>* s s' \<Longrightarrow> inv s \<Longrightarrow> slot_ok (view s) \<Longrightarrow> cur (view s') = Some c \<Longrightarrow> c \<in> live (view s')"
  using run_refines slot_steps_ok by (fastforce simp: slot_ok_def)

end

end
