(* ===== verification/RabbitMQ.thy ===== *)
theory RabbitMQ
  imports Prelude ConnSlot GoFloat
begin

section \<open>The RabbitMQ client\<close>

text \<open>
  \<^verbatim>\<open>mq/rabbitmq/rabbitMQ.go\<close>.  The connection goroutine (\<^verbatim>\<open>connectAsync\<close>) and the callers of
  \<^verbatim>\<open>Stop\<close> share the client under a mutex.  Each critical section is one definition, and the step
  relation \<open>conn_step\<close> runs the goroutine section by section, with a \<^verbatim>\<open>Stop\<close> possible between
  any two of them.  The broker is a parameter: each call to it may succeed or fail, which is a
  choice of the step taken.  A connection or channel handle is a number; \<open>opened\<close> is a ghost
  set of the handles that have been opened and not closed, and \<open>confirmMode\<close> the channels the broker has switched
  to publisher confirms.  Here the client is started once; \<open>MqLife\<close> starts it again and again.
\<close>

subsection \<open>Configuration and construction\<close>

record ConfigRabbitMQ =
  Url :: string
  Consumer :: string
  Queue :: string
  Exchange :: string
  ConcurrencyCount :: int
  RetryDelay :: string
  ConfirmTimeout :: string
  DeadLetterExchange :: string
  Quorum :: bool
  Disabled :: bool
  Debug :: bool

definition second :: duration where
  "second = 1000000000"

definition maxReconnectDelay :: duration where
  "maxReconnectDelay = 60 * second"

record client =
  queueName :: string
  config :: ConfigRabbitMQ
  retryDelay :: duration
  confirmTimeout :: duration
  args :: "(string \<times> string) list option"
  hasConsumer :: bool

text \<open>
  \<open>parseDuration\<close> is \<^verbatim>\<open>time.ParseDuration\<close>; a failed parse yields the duration 0 beside the error,
  which the code only logs.
\<close>

definition parsed :: "(string \<Rightarrow> duration option) \<Rightarrow> string \<Rightarrow> duration" where
  "parsed parseDuration s = (case parseDuration s of None \<Rightarrow> 0 | Some d \<Rightarrow> d)"

definition NewRabbitMQ :: "(string \<Rightarrow> duration option) \<Rightarrow> ConfigRabbitMQ \<Rightarrow> string \<Rightarrow> bool \<Rightarrow> client" where
  "NewRabbitMQ parseDuration cfg qn consumer =
     (let a = (if Quorum cfg then [(''x-queue-type'', ''quorum'')] else []) @
              (if DeadLetterExchange cfg \<noteq> '''' then [(''x-dead-letter-exchange'', DeadLetterExchange cfg)] else []);
          retryD = parsed parseDuration (RetryDelay cfg);
          confirmD = parsed parseDuration (ConfirmTimeout cfg)
      in \<lparr>queueName = (if qn = '''' then Queue cfg else qn),
          config = (if ConcurrencyCount cfg < 1 then cfg\<lparr>ConcurrencyCount := 1\<rparr> else cfg),
          retryDelay = (if retryD \<le> 0 then second else retryD),
          confirmTimeout = (if confirmD \<le> 0 then 10 * second else confirmD),
          args = (if a = [] then None else Some a),
          hasConsumer = consumer\<rparr>)"

subsection \<open>The delay between two attempts\<close>

fun double_while :: "nat \<Rightarrow> duration \<Rightarrow> duration" where
  "double_while 0 d = d"
| "double_while (Suc n) d = (if d < maxReconnectDelay then double_while n (2 * d) else d)"

definition backoff_base :: "duration \<Rightarrow> nat \<Rightarrow> duration" where
  "backoff_base retry attempt =
     (let d = double_while attempt retry in if maxReconnectDelay < d then maxReconnectDelay else d)"

text \<open>\<open>r\<close> is the value of \<^verbatim>\<open>rand.Float64()\<close>, a number of the format that is at least 0 and below 1; sum and product are rounded, and the
  product is truncated.\<close>

definition backoffDelay :: "gofloat \<Rightarrow> client \<Rightarrow> nat \<Rightarrow> duration" where
  "backoffDelay r c attempt =
     to_int (fmul binary64 (of_int_float binary64 (backoff_base (retryDelay c) attempt)) (fadd binary64 (rnd binary64 False 1 2) r))"

lemma float_half: "rnd binary64 False 1 2 = Fin False 4503599627370496 (- 53)"
  by (simp add: float_eval)

text \<open>The spread keeps within one half and three halves of the base, rounding included.\<close>

lemma float_spread:
  assumes "b < 2 ^ 51" and "real m * 2 powi e < 1"
  shows "int b \<le> 2 * to_int (fmul binary64 (of_int_float binary64 (int b)) (fadd binary64 (rnd binary64 False 1 2) (Fin False m e))) + 1 \<and>
         2 * to_int (fmul binary64 (of_int_float binary64 (int b)) (fadd binary64 (rnd binary64 False 1 2) (Fin False m e))) \<le> 3 * int b"
proof -
  have h: "real 4503599627370496 * 2 powi (- 53) = 1 / 2" by (simp add: power_int_minus)
  have r0: "0 \<le> real m * 2 powi e" by simp
  have "\<exists>k j. fadd binary64 (Fin False 4503599627370496 (- 53)) (Fin False m e) = Fin False k j \<and> 1 / 2 \<le> real k * 2 powi j \<and> real k * 2 powi j \<le> 3 / 2"
    by (rule fadd_between) (use float_dyadics [of 1] float_dyadics [of 3] h r0 assms(2) in simp_all)
  then obtain k j where s: "fadd binary64 (rnd binary64 False 1 2) (Fin False m e) = Fin False k j" "1 / 2 \<le> real k * 2 powi j" "real k * 2 powi j \<le> 3 / 2"
    unfolding float_half by blast
  have "real b / real 1 \<le> largest binary64" using holds_largest [OF float_dyadics(1) [of b]] assms(1) by simp
  then obtain m1 e1 where "rnd binary64 False b 1 = Fin False m1 e1"
    using rnd_finite [OF wf_formats(1), of 1 b False] by auto
  then have o: "of_int_float binary64 (int b) = Fin False m1 e1" "real m1 * 2 powi e1 = real b"
    using rnd_int(2) [OF wf_formats(1), of b False] assms(1) by (auto simp: of_int_float_def with_sign_def binary64_def)
  have lo: "real b / 2 \<le> real b * (real k * 2 powi j)" and hi: "real b * (real k * 2 powi j) \<le> real (3 * b) / 2"
    using mult_left_mono [OF s(2), of "real b"] mult_left_mono [OF s(3), of "real b"] by simp_all
  have "\<exists>m2 e2. fmul binary64 (Fin False m1 e1) (Fin False k j) = Fin False m2 e2 \<and> real b / 2 \<le> real m2 * 2 powi e2 \<and> real m2 * 2 powi e2 \<le> real (3 * b) / 2"
    by (rule fmul_between) (use float_dyadics [of b] float_dyadics [of "3 * b"] assms(1) o(2) lo hi in simp_all)
  then obtain m2 e2 where p: "fmul binary64 (Fin False m1 e1) (Fin False k j) = Fin False m2 e2" "real b / 2 \<le> real m2 * 2 powi e2" "real m2 * 2 powi e2 \<le> real (3 * b) / 2"
    by blast
  show ?thesis unfolding s(1) o(1) p(1) to_int_floor using p(2,3) by linarith
qed

lemma double_while_pos: "0 < d \<Longrightarrow> 0 < double_while n d"
  by (induction n arbitrary: d) auto

lemma double_while_capped:
  "0 < d \<Longrightarrow> min maxReconnectDelay (double_while n d) = min maxReconnectDelay (d * 2 ^ n)"
proof (induction n arbitrary: d)
  case (Suc n)
  show ?case
  proof (cases "d < maxReconnectDelay")
    case True
    then show ?thesis using Suc.IH [of "2 * d"] Suc.prems by (simp add: algebra_simps)
  next
    case False
    have one: "(1 :: int) \<le> 2 ^ Suc n" by (rule one_le_power) simp
    have "d \<le> d * 2 ^ Suc n" using mult_left_mono [OF one, of d] Suc.prems by simp
    then show ?thesis using False by simp
  qed
qed simp

lemma backoff_base_eq: "0 < retry \<Longrightarrow> backoff_base retry n = min maxReconnectDelay (retry * 2 ^ n)"
  using double_while_capped [of retry n] by (auto simp: backoff_base_def Let_def min_def split: if_splits)

subsection \<open>The shared state and its critical sections\<close>

datatype pc =
    Loop
  | Dialing
  | DialGot nat
  | ChanRead
  | ChanOpening nat
  | ChanGot nat nat
  | Confirm
  | Confirming nat
  | QueueRead
  | Declaring nat
  | ConsumerRead
  | Consuming nat
  | MarkConnected
  | AfterConnect
  | Waiting "nat option"
  | Backoff
  | Done

record mq =
  connected :: bool
  ctxDone :: bool
  isStopped :: bool
  mqConnect :: "nat option"
  mqChannel :: "nat option"
  mqMessages :: "nat option"
  mqQueue :: string
  confirms :: bool
  confirmMode :: "nat set"
  attempt :: nat
  goroutine :: pc
  taken :: "nat set"
  opened :: "nat set"
  fresh :: nat

text \<open>The state after \<^verbatim>\<open>Start\<close> has launched \<^verbatim>\<open>connectAsync\<close>.\<close>

definition started :: mq where
  "started = \<lparr>connected = False, ctxDone = False, isStopped = False, mqConnect = None,
     mqChannel = None, mqMessages = None, mqQueue = '''', confirms = False, confirmMode = {}, attempt = 0, goroutine = Loop,
     taken = {}, opened = {}, fresh = 0\<rparr>"

definition closeConnLocked :: "mq \<Rightarrow> mq" where
  "closeConnLocked s =
     s\<lparr>opened := opened s - set_option (mqChannel s) - set_option (mqConnect s),
       mqChannel := None, mqConnect := None, mqMessages := None\<rparr>"

text \<open>The section of \<^verbatim>\<open>dial\<close> after \<^verbatim>\<open>amqp.Dial\<close> has returned the connection \<open>c\<close>.\<close>

definition dial_store :: "nat \<Rightarrow> mq \<Rightarrow> mq" where
  "dial_store c s =
     (if isStopped s then s\<lparr>opened := opened s - {c}, goroutine := AfterConnect\<rparr>
      else s\<lparr>mqConnect := Some c, goroutine := ChanRead\<rparr>)"

definition channel_read :: "mq \<Rightarrow> mq" where
  "channel_read s =
     (case mqConnect s of None \<Rightarrow> s\<lparr>goroutine := AfterConnect\<rparr> | Some c \<Rightarrow> s\<lparr>goroutine := ChanOpening c\<rparr>)"

definition channel_store :: "nat \<Rightarrow> nat \<Rightarrow> mq \<Rightarrow> mq" where
  "channel_store c ch s =
     (if mqConnect s \<noteq> Some c then s\<lparr>opened := opened s - {ch}, goroutine := AfterConnect\<rparr>
      else s\<lparr>mqChannel := Some ch, goroutine := Confirm\<rparr>)"

definition enableConfirms_read :: "mq \<Rightarrow> mq" where
  "enableConfirms_read s =
     (case mqChannel s of None \<Rightarrow> s\<lparr>goroutine := QueueRead\<rparr> | Some ch \<Rightarrow> s\<lparr>goroutine := Confirming ch\<rparr>)"

definition enableConfirms_set :: "bool \<Rightarrow> nat \<Rightarrow> mq \<Rightarrow> mq" where
  "enableConfirms_set ok ch s =
     (if ok then s\<lparr>confirms := True, confirmMode := insert ch (confirmMode s), goroutine := QueueRead\<rparr>
      else s\<lparr>goroutine := QueueRead\<rparr>)"

definition queue_read :: "client \<Rightarrow> mq \<Rightarrow> mq" where
  "queue_read c s =
     (if queueName c = '''' then s\<lparr>goroutine := MarkConnected\<rparr>
      else (case mqChannel s of None \<Rightarrow> s\<lparr>goroutine := AfterConnect\<rparr> | Some ch \<Rightarrow> s\<lparr>goroutine := Declaring ch\<rparr>))"

definition queue_store :: "client \<Rightarrow> nat \<Rightarrow> mq \<Rightarrow> mq" where
  "queue_store c ch s =
     (if mqChannel s \<noteq> Some ch then s\<lparr>goroutine := AfterConnect\<rparr>
      else s\<lparr>mqQueue := queueName c, goroutine := ConsumerRead\<rparr>)"

definition initConsumer_read :: "client \<Rightarrow> mq \<Rightarrow> mq" where
  "initConsumer_read c s =
     (if \<not> hasConsumer c then s\<lparr>goroutine := MarkConnected\<rparr>
      else (case mqChannel s of None \<Rightarrow> s\<lparr>goroutine := AfterConnect\<rparr> | Some ch \<Rightarrow> s\<lparr>goroutine := Consuming ch\<rparr>))"

definition initConsumer_store :: "nat \<Rightarrow> mq \<Rightarrow> mq" where
  "initConsumer_store m s = s\<lparr>mqMessages := Some m, goroutine := MarkConnected\<rparr>"

definition Stop_locked :: "mq \<Rightarrow> mq" where
  "Stop_locked s =
     s\<lparr>isStopped := True, taken := taken s \<union> set_option (mqChannel s) \<union> set_option (mqConnect s),
       mqChannel := None, mqConnect := None, mqMessages := None\<rparr>"

definition open_handle :: "mq \<Rightarrow> mq" where
  "open_handle s = s\<lparr>opened := insert (fresh s) (opened s), fresh := Suc (fresh s)\<rparr>"

text \<open>One step of the goroutine.\<close>

inductive go_step :: "client \<Rightarrow> mq \<Rightarrow> mq \<Rightarrow> bool" for c :: client where
  loop_done: "goroutine s = Loop \<Longrightarrow> ctxDone s \<Longrightarrow> go_step c s (s\<lparr>goroutine := Done\<rparr>)"
| loop_dial: "goroutine s = Loop \<Longrightarrow> \<not> ctxDone s \<Longrightarrow> go_step c s ((closeConnLocked s)\<lparr>goroutine := Dialing\<rparr>)"
| dial_fail: "goroutine s = Dialing \<Longrightarrow> go_step c s (s\<lparr>goroutine := AfterConnect\<rparr>)"
| dial_ok: "goroutine s = Dialing \<Longrightarrow> go_step c s ((open_handle s)\<lparr>goroutine := DialGot (fresh s)\<rparr>)"
| dial_lock: "goroutine s = DialGot h \<Longrightarrow> go_step c s (dial_store h s)"
| chan_read: "goroutine s = ChanRead \<Longrightarrow> go_step c s (channel_read s)"
| chan_fail: "goroutine s = ChanOpening h \<Longrightarrow> go_step c s (s\<lparr>goroutine := AfterConnect\<rparr>)"
| chan_ok: "goroutine s = ChanOpening h \<Longrightarrow> go_step c s ((open_handle s)\<lparr>goroutine := ChanGot h (fresh s)\<rparr>)"
| chan_lock: "goroutine s = ChanGot h ch \<Longrightarrow> go_step c s (channel_store h ch s)"
| confirm_read: "goroutine s = Confirm \<Longrightarrow> go_step c s (enableConfirms_read s)"
| confirm_lock: "goroutine s = Confirming ch \<Longrightarrow> go_step c s (enableConfirms_set ok ch s)"
| queue_lock: "goroutine s = QueueRead \<Longrightarrow> go_step c s (queue_read c s)"
| declare_fail: "goroutine s = Declaring ch \<Longrightarrow> go_step c s (s\<lparr>goroutine := AfterConnect\<rparr>)"
| declare_ok: "goroutine s = Declaring ch \<Longrightarrow> go_step c s (queue_store c ch s)"
| consumer_read: "goroutine s = ConsumerRead \<Longrightarrow> go_step c s (initConsumer_read c s)"
| consume_fail: "goroutine s = Consuming ch \<Longrightarrow> go_step c s (s\<lparr>goroutine := AfterConnect\<rparr>)"
| consume_ok: "goroutine s = Consuming ch \<Longrightarrow> go_step c s (initConsumer_store m s)"
| mark: "goroutine s = MarkConnected \<Longrightarrow> go_step c s (s\<lparr>connected := True, attempt := 0, goroutine := AfterConnect\<rparr>)"
| after_up: "goroutine s = AfterConnect \<Longrightarrow> connected s \<Longrightarrow> go_step c s (s\<lparr>goroutine := Waiting (mqConnect s)\<rparr>)"
| after_down: "goroutine s = AfterConnect \<Longrightarrow> \<not> connected s \<Longrightarrow> go_step c s (s\<lparr>goroutine := Backoff\<rparr>)"
| wait_lost: "goroutine s = Waiting (Some h) \<Longrightarrow> go_step c s (s\<lparr>connected := False, goroutine := Backoff\<rparr>)"
| wait_done: "goroutine s = Waiting w \<Longrightarrow> ctxDone s \<Longrightarrow> go_step c s (s\<lparr>goroutine := Done\<rparr>)"
| backoff_done: "goroutine s = Backoff \<Longrightarrow> ctxDone s \<Longrightarrow> go_step c s (s\<lparr>goroutine := Done\<rparr>)"
| backoff_over: "goroutine s = Backoff \<Longrightarrow> go_step c s (s\<lparr>attempt := Suc (attempt s), goroutine := Loop\<rparr>)"

text \<open>A step of the goroutine or of a caller of \<^verbatim>\<open>Stop\<close>.\<close>

inductive conn_step :: "client \<Rightarrow> mq \<Rightarrow> mq \<Rightarrow> bool" for c :: client where
  go: "go_step c s s' \<Longrightarrow> conn_step c s s'"
| stop_cancel: "conn_step c s (s\<lparr>ctxDone := True\<rparr>)"
| stop_lock: "ctxDone s \<Longrightarrow> conn_step c s (Stop_locked s)"
| stop_close: "h \<in> taken s \<Longrightarrow> conn_step c s (s\<lparr>taken := taken s - {h}, opened := opened s - {h}\<rparr>)"

inductive conn_reachable :: "client \<Rightarrow> mq \<Rightarrow> bool" for c :: client where
  init: "conn_reachable c started"
| step: "conn_reachable c s \<Longrightarrow> conn_step c s s' \<Longrightarrow> conn_reachable c s'"

lemmas mq_sections =
  closeConnLocked_def dial_store_def channel_read_def channel_store_def enableConfirms_read_def
  enableConfirms_set_def queue_read_def queue_store_def initConsumer_read_def
  initConsumer_store_def Stop_locked_def open_handle_def

subsection \<open>The invariant\<close>

text \<open>The handles the goroutine holds in its local variables only.\<close>

fun held :: "pc \<Rightarrow> nat set" where
  "held (DialGot h) = {h}"
| "held (ChanGot h ch) = {ch}"
| "held _ = {}"

fun no_channel_at :: "pc \<Rightarrow> bool" where
  "no_channel_at Dialing = True"
| "no_channel_at (DialGot h) = True"
| "no_channel_at ChanRead = True"
| "no_channel_at (ChanOpening h) = True"
| "no_channel_at (ChanGot h ch) = True"
| "no_channel_at _ = False"

fun no_connect_at :: "pc \<Rightarrow> bool" where
  "no_connect_at Dialing = True"
| "no_connect_at (DialGot h) = True"
| "no_connect_at _ = False"

definition mq_inv :: "mq \<Rightarrow> bool" where
  "mq_inv s \<longleftrightarrow>
     (isStopped s \<longrightarrow> mqConnect s = None \<and> mqChannel s = None \<and> ctxDone s) \<and>
     (no_channel_at (goroutine s) \<longrightarrow> mqChannel s = None) \<and>
     (no_connect_at (goroutine s) \<longrightarrow> mqConnect s = None) \<and>
     opened s \<subseteq> set_option (mqConnect s) \<union> set_option (mqChannel s) \<union> held (goroutine s) \<union> taken s \<and>
     (goroutine s = Done \<longrightarrow> ctxDone s)"

lemma mq_inv_started: "mq_inv started"
  by (simp add: mq_inv_def started_def)

lemma go_step_inv: "go_step c s s' \<Longrightarrow> mq_inv s \<Longrightarrow> mq_inv s'"
  by (induction rule: go_step.induct)
     (auto simp: mq_inv_def mq_sections split: option.splits if_splits)

lemma conn_step_inv: "conn_step c s s' \<Longrightarrow> mq_inv s \<Longrightarrow> mq_inv s'"
  by (induction rule: conn_step.induct)
     (auto intro: go_step_inv, auto simp: mq_inv_def Stop_locked_def split: option.splits)

lemma reachable_mq_inv: "conn_reachable c s \<Longrightarrow> mq_inv s"
  by (induction rule: conn_reachable.induct) (auto intro: mq_inv_started conn_step_inv)

subsection \<open>Refinement of the one-connection contract\<close>

definition mq_slot :: "mq \<Rightarrow> slot" where
  "mq_slot s = \<lparr>cur = mqConnect s, live = opened s, shut = isStopped s\<rparr>"

text \<open>The connection in use is open and is no channel; a handle the goroutine holds is not one \<^verbatim>\<open>Stop\<close> is closing.\<close>

definition mq_own :: "mq \<Rightarrow> bool" where
  "mq_own s \<longleftrightarrow>
     (\<forall>h\<in>opened s \<union> taken s \<union> set_option (mqChannel s) \<union> held (goroutine s). h < fresh s) \<and>
     (\<forall>h. mqConnect s = Some h \<longrightarrow> h \<in> opened s \<and> h \<notin> taken s \<and> mqChannel s \<noteq> Some h \<and> h \<notin> held (goroutine s)) \<and>
     (\<forall>h. goroutine s = DialGot h \<longrightarrow> h \<in> opened s \<and> h \<notin> taken s)"

lemma go_step_own: "go_step c s s' \<Longrightarrow> mq_inv s \<Longrightarrow> mq_own s \<Longrightarrow> mq_own s'"
  by (induction rule: go_step.induct)
     (simp_all add: mq_own_def mq_inv_def mq_sections split: option.split, (fastforce simp: less_Suc_eq)+)

lemma conn_step_own: "conn_step c s s' \<Longrightarrow> mq_inv s \<Longrightarrow> mq_own s \<Longrightarrow> mq_own s'"
proof (induction rule: conn_step.induct)
  case (go s s')
  then show ?case by (rule go_step_own)
qed (simp_all add: mq_own_def mq_inv_def Stop_locked_def, (fastforce simp: less_Suc_eq)+)

text \<open>The loop closes what it held before it dials again: out of use first, then hung up.\<close>

lemma closeConnLocked_view: "slot_steps (mq_slot s) (mq_slot (closeConnLocked s))"
proof -
  let ?a = "\<lparr>cur = None, live = opened s, shut = isStopped s\<rparr>"
  have "slot_steps (mq_slot s) ?a" by (simp add: mq_slot_def slot_moves)
  moreover have "slot_steps ?a (?a\<lparr>live := live ?a - (set_option (mqChannel s) \<union> set_option (mqConnect s))\<rparr>)"
    by (rule hang_up_all) (cases "mqChannel s"; cases "mqConnect s"; simp)+
  ultimately show ?thesis by (simp add: mq_slot_def closeConnLocked_def Diff_Un [symmetric] set_diff_eq conj_assoc Un_iff)
qed

lemma Stop_locked_view: "slot_steps (mq_slot s) (mq_slot (Stop_locked s))"
proof -
  have "slot_steps (mq_slot s) \<lparr>cur = mqConnect s, live = opened s, shut = True\<rparr>" by (simp add: mq_slot_def slot_moves)
  also have "slot_steps \<lparr>cur = mqConnect s, live = opened s, shut = True\<rparr> (mq_slot (Stop_locked s))"
    by (simp add: mq_slot_def Stop_locked_def slot_moves)
  finally show ?thesis .
qed

lemma mq_slot_goroutine [simp]: "mq_slot (s\<lparr>goroutine := g\<rparr>) = mq_slot s"
  by (simp add: mq_slot_def)

lemma go_step_view: "go_step c s s' \<Longrightarrow> mq_inv s \<Longrightarrow> mq_own s \<Longrightarrow> slot_steps (mq_slot s) (mq_slot s')"
proof (induction rule: go_step.induct)
  case (loop_dial s)
  then show ?case by (simp add: closeConnLocked_view)
next
  case (dial_ok s)
  then show ?case by (auto simp: mq_slot_def open_handle_def mq_own_def intro!: slot_moves)
next
  case (chan_ok s h)
  then show ?case by (auto simp: mq_slot_def open_handle_def mq_own_def intro!: slot_moves)
next
  case (dial_lock s h)
  then show ?case by (auto simp: mq_slot_def dial_store_def mq_own_def mq_inv_def intro: slot_moves)
next
  case (chan_lock s h ch)
  then show ?case by (auto simp: mq_slot_def channel_store_def mq_own_def intro: slot_moves)
qed (simp_all add: mq_slot_def mq_sections split: option.split)

lemma conn_step_view: "conn_step c s s' \<Longrightarrow> mq_inv s \<Longrightarrow> mq_own s \<Longrightarrow> slot_steps (mq_slot s) (mq_slot s')"
proof (induction rule: conn_step.induct)
  case (stop_close h s)
  then show ?case by (auto simp: mq_slot_def mq_own_def intro: slot_moves)
next
  case (stop_cancel s)
  then show ?case by (simp add: mq_slot_def)
qed (simp_all add: go_step_view Stop_locked_view)

interpretation mq: conn_slot "conn_step c" "\<lambda>s. mq_inv s \<and> mq_own s" mq_slot
  by unfold_locales (auto intro: conn_step_inv conn_step_own conn_step_view)

lemma mq_own_started: "mq_own started"
  by (simp add: mq_own_def started_def)

lemma conn_reachable_steps: "conn_reachable c s \<Longrightarrow> (conn_step c)\<^sup>*\<^sup>* started s"
  by (induction rule: conn_reachable.induct) (auto intro: rtranclp.rtrancl_into_rtrancl)

subsection \<open>Start, publishing and consuming\<close>

datatype mq_error =
    EmptyUrl
  | NotConnected
  | BrokerError string
  | MarshalError string
  | ConfirmNack
  | ConfirmTimeoutError
  | CtxError string
  | NilPointer

text \<open>The state of the goroutine, when \<^verbatim>\<open>Start\<close> has launched it, beside the error returned.\<close>

definition Start :: "client \<Rightarrow> mq_error option \<times> mq option" where
  "Start c =
     (if \<not> Disabled (config c)
      then (if Url (config c) \<noteq> '''' then (None, Some started) else (Some EmptyUrl, None))
      else (None, None))"

text \<open>
  The broker's side of one publication: the error of the two publish calls, and which case of the
  final \<^verbatim>\<open>select\<close> becomes ready.  \<^verbatim>\<open>PublishWithDeferredConfirm\<close> returns a nil confirmation on a channel
  that is not in confirm mode, and \<^verbatim>\<open>dc.Done()\<close> then dereferences it.
\<close>

datatype confirmation = Acked | Nacked | TimedOut | CtxDone string

record broker =
  publishErr :: "string option"
  deferredErr :: "string option"
  confirmed :: confirmation

definition Produce :: "broker \<Rightarrow> mq \<Rightarrow> mq_error option" where
  "Produce b s =
     (if \<not> connected s then Some NotConnected
      else case mqChannel s of
        None \<Rightarrow> Some NotConnected
      | Some ch \<Rightarrow>
          if \<not> confirms s then map_option BrokerError (publishErr b)
          else (case deferredErr b of
            Some e \<Rightarrow> Some (BrokerError e)
          | None \<Rightarrow>
              if ch \<notin> confirmMode s then Some NilPointer
              else (case confirmed b of
                Acked \<Rightarrow> None
              | Nacked \<Rightarrow> Some ConfirmNack
              | TimedOut \<Rightarrow> Some ConfirmTimeoutError
              | CtxDone e \<Rightarrow> Some (CtxError e))))"

text \<open>\<open>marshal\<close> is \<^verbatim>\<open>json.Marshal\<close>; the broker may look at the payload.\<close>

definition ProduceData :: "('d \<Rightarrow> string + byte list) \<Rightarrow> (byte list \<Rightarrow> broker) \<Rightarrow> client \<Rightarrow> mq \<Rightarrow> 'd \<Rightarrow> mq_error option" where
  "ProduceData marshal b c s d =
     (if \<not> Disabled (config c)
      then (case marshal d of Inr data \<Rightarrow> Produce (b data) s | Inl e \<Rightarrow> Some (MarshalError e))
      else None)"

definition IsConnected :: "mq \<Rightarrow> bool" where
  "IsConnected s = connected s"

text \<open>What a worker does with a delivery; the consumer's result is \<^const>\<open>None\<close> when it panics.\<close>

datatype settlement = AckMsg | NackDrop | Unsettled

definition worker :: "bool option \<Rightarrow> settlement" where
  "worker res = (case res of None \<Rightarrow> Unsettled | Some True \<Rightarrow> AckMsg | Some False \<Rightarrow> NackDrop)"

subsection \<open>Schedules\<close>

text \<open>
  A scheduler for concrete runs: \<open>Good\<close> and \<open>Bad\<close> let the goroutine take its next step with the
  broker answering or failing, the others are the steps of a caller of \<^verbatim>\<open>Stop\<close>.
\<close>

datatype choice = Good | Bad | Cancel | StopLock | StopClose nat

fun turn :: "client \<Rightarrow> bool \<Rightarrow> mq \<Rightarrow> mq" where
  "turn c ok s = (case goroutine s of
      Loop \<Rightarrow> if ctxDone s then s\<lparr>goroutine := Done\<rparr> else (closeConnLocked s)\<lparr>goroutine := Dialing\<rparr>
    | Dialing \<Rightarrow> if ok then (open_handle s)\<lparr>goroutine := DialGot (fresh s)\<rparr> else s\<lparr>goroutine := AfterConnect\<rparr>
    | DialGot h \<Rightarrow> dial_store h s
    | ChanRead \<Rightarrow> channel_read s
    | ChanOpening h \<Rightarrow> if ok then (open_handle s)\<lparr>goroutine := ChanGot h (fresh s)\<rparr> else s\<lparr>goroutine := AfterConnect\<rparr>
    | ChanGot h ch \<Rightarrow> channel_store h ch s
    | Confirm \<Rightarrow> enableConfirms_read s
    | Confirming ch \<Rightarrow> enableConfirms_set ok ch s
    | QueueRead \<Rightarrow> queue_read c s
    | Declaring ch \<Rightarrow> if ok then queue_store c ch s else s\<lparr>goroutine := AfterConnect\<rparr>
    | ConsumerRead \<Rightarrow> initConsumer_read c s
    | Consuming ch \<Rightarrow> if ok then initConsumer_store ch s else s\<lparr>goroutine := AfterConnect\<rparr>
    | MarkConnected \<Rightarrow> s\<lparr>connected := True, attempt := 0, goroutine := AfterConnect\<rparr>
    | AfterConnect \<Rightarrow> if connected s then s\<lparr>goroutine := Waiting (mqConnect s)\<rparr> else s\<lparr>goroutine := Backoff\<rparr>
    | Waiting w \<Rightarrow> if ctxDone s then s\<lparr>goroutine := Done\<rparr>
                   else if w = None then s else s\<lparr>connected := False, goroutine := Backoff\<rparr>
    | Backoff \<Rightarrow> if ctxDone s then s\<lparr>goroutine := Done\<rparr>
                 else s\<lparr>attempt := Suc (attempt s), goroutine := Loop\<rparr>
    | Done \<Rightarrow> s)"

fun sched :: "client \<Rightarrow> choice \<Rightarrow> mq \<Rightarrow> mq" where
  "sched c Good s = turn c True s"
| "sched c Bad s = turn c False s"
| "sched c Cancel s = s\<lparr>ctxDone := True\<rparr>"
| "sched c StopLock s = (if ctxDone s then Stop_locked s else s)"
| "sched c (StopClose h) s =
     (if h \<in> taken s then s\<lparr>taken := taken s - {h}, opened := opened s - {h}\<rparr> else s)"

fun run_sched :: "client \<Rightarrow> choice list \<Rightarrow> mq \<Rightarrow> mq" where
  "run_sched c [] s = s"
| "run_sched c (x # xs) s = run_sched c xs (sched c x s)"

lemma turn_sound: "turn c ok s = s \<or> go_step c s (turn c ok s)"
  by (auto split: pc.split intro: go_step.intros)

lemma sched_sound: "sched c x s = s \<or> conn_step c s (sched c x s)"
  by (cases x) (use turn_sound in \<open>auto intro: conn_step.intros simp del: turn.simps\<close>)

lemma run_sched_reachable: "conn_reachable c s \<Longrightarrow> conn_reachable c (run_sched c xs s)"
proof (induction xs arbitrary: s)
  case (Cons x xs)
  have "conn_reachable c (sched c x s)"
    using Cons.prems sched_sound [of c x s] conn_reachable.step by metis
  then show ?case using Cons.IH by simp
qed simp

definition demo_config :: ConfigRabbitMQ where
  "demo_config = \<lparr>Url = ''amqp://mq'', Consumer = '''', Queue = '''', Exchange = '''', ConcurrencyCount = 0,
     RetryDelay = '''', ConfirmTimeout = '''', DeadLetterExchange = '''', Quorum = False, Disabled = False,
     Debug = False\<rparr>"

definition demo_client :: client where
  "demo_client = NewRabbitMQ (\<lambda>_. None) demo_config '''' False"

definition demo_broker :: broker where
  "demo_broker = \<lparr>publishErr = None, deferredErr = None, confirmed = Acked\<rparr>"

definition connect_ok :: "choice list" where
  "connect_ok = replicate 11 Good"

subsection \<open>Properties\<close>

text \<open>
  Stopping the client leaks nothing.  In every interleaving of the connection goroutine with
  callers of \<^verbatim>\<open>Stop\<close>, once \<^verbatim>\<open>Stop\<close> has run its critical section, the handles it took out are closed
  and the goroutine has returned, no connection or channel that was ever opened is still open:
  in particular one that was being dialled while \<^verbatim>\<open>Stop\<close> ran.
\<close>
theorem stop_leaks_nothing:
  assumes "conn_reachable c s" and "isStopped s" and "taken s = {}" and "goroutine s = Done"
  shows "opened s = {}"
  using reachable_mq_inv [OF assms(1)] assms(2-4) by (auto simp: mq_inv_def)

text \<open>A dial that succeeds after \<^verbatim>\<open>Stop\<close> has taken the lock.\<close>

definition late_dial :: "choice list" where
  "late_dial = [Good, Cancel, StopLock, Good, Good, Good, Good]"

theorem stop_leaks_nothing_witness:
  "goroutine (run_sched demo_client late_dial started) = Done \<and>
   opened (run_sched demo_client late_dial started) = {}"
proof -
  let ?s = "run_sched demo_client late_dial started"
  have r: "conn_reachable demo_client ?s"
    by (rule run_sched_reachable) (rule conn_reachable.init)
  have f: "isStopped ?s" "taken ?s = {}" "goroutine ?s = Done"
    by code_simp+
  show ?thesis using stop_leaks_nothing [OF r f] f by simp
qed

text \<open>
  After \<^verbatim>\<open>Stop\<close> the client holds no connection and no channel in any reachable state, whatever the
  goroutine does next, and \<^verbatim>\<open>Produce\<close> refuses with \<^verbatim>\<open>not connected\<close>.
\<close>
theorem stopped_not_connected:
  assumes "conn_reachable c s" and "isStopped s"
  shows "mqConnect s = None \<and> mqChannel s = None \<and> Produce b s = Some NotConnected"
  using reachable_mq_inv [OF assms(1)] assms(2) by (simp add: mq_inv_def Produce_def)

definition stop_mid_channel :: "choice list" where
  "stop_mid_channel = replicate 5 Good @ [Cancel, StopLock, Good]"

theorem stopped_not_connected_witness:
  "Produce demo_broker (run_sched demo_client stop_mid_channel started) = Some NotConnected"
proof -
  let ?s = "run_sched demo_client stop_mid_channel started"
  have r: "conn_reachable demo_client ?s"
    by (rule run_sched_reachable) (rule conn_reachable.init)
  have f: "isStopped ?s"
    by code_simp
  show ?thesis using stopped_not_connected [OF r f] by simp
qed

text \<open>
  C18: The client refines the contract of a client with one connection: every run of the connection goroutine against \<^verbatim>\<open>Stop\<close>,
  seen through the connection in use, the open handles and the stop flag, is a run of \<open>slot_step\<close>; once it is stopped
  with no connection in use, none is in any later state.
\<close>
theorem mq_refines_slot:
  assumes "conn_reachable c s" and "(conn_step c)\<^sup>*\<^sup>* s s'"
  shows "slot_steps empty_slot (mq_slot s) \<and> slot_steps (mq_slot s) (mq_slot s') \<and>
         (isStopped s \<and> mqConnect s = None \<longrightarrow> isStopped s' \<and> mqConnect s' = None)"
proof -
  have "mq_slot started = empty_slot" by (simp add: mq_slot_def started_def empty_slot_def)
  then have i: "mq_inv s \<and> mq_own s" "slot_steps empty_slot (mq_slot s)"
    using mq.run_refines [OF conn_reachable_steps [OF assms(1)]] mq_inv_started mq_own_started by simp_all
  then show ?thesis
    using mq.run_refines [OF assms(2) i(1)] mq.stays_disconnected [OF assms(2) i(1)] by (simp add: mq_slot_def)
qed

theorem mq_refines_slot_witness:
  "slot_steps empty_slot (mq_slot (run_sched demo_client stop_mid_channel started)) \<and>
   isStopped (run_sched demo_client stop_mid_channel started)"
proof -
  let ?s = "run_sched demo_client stop_mid_channel started"
  have r: "conn_reachable demo_client ?s"
    by (rule run_sched_reachable) (rule conn_reachable.init)
  have "isStopped ?s" by code_simp
  then show ?thesis using mq_refines_slot [OF r rtranclp.rtrancl_refl] by blast
qed

lemma NewRabbitMQ_retry_pos: "0 < retryDelay (NewRabbitMQ pd cfg q h)"
  by (simp add: NewRabbitMQ_def Let_def second_def)

text \<open>
  C33: The reconnection delay of a client built by \<^verbatim>\<open>NewRabbitMQ\<close> is the retry delay doubled once per
  failed attempt and capped at \<^verbatim>\<open>maxReconnectDelay\<close>, spread by a factor between one half and three
  halves, whatever the rounding of the floating point sum and product: it is never more than 90 seconds however many attempts failed, and never less than half
  of the capped base rounded down.
\<close>
theorem backoff_bounds:
  assumes "c = NewRabbitMQ pd cfg q h" and "r = Fin False m e" and "fval r < 1"
      and "b = min maxReconnectDelay (retryDelay c * 2 ^ n)"
  shows "b \<le> 2 * backoffDelay r c n + 1 \<and> 2 * backoffDelay r c n \<le> 3 * b \<and>
         backoffDelay r c n \<le> 90 * second"
proof -
  have pos: "0 < retryDelay c" using assms(1) NewRabbitMQ_retry_pos by simp
  have base: "backoff_base (retryDelay c) n = int (nat b)" using backoff_base_eq [OF pos] pos assms(4) by (simp add: maxReconnectDelay_def second_def)
  have cap: "0 \<le> b" "b \<le> 60 * second" using pos assms(4) by (simp_all add: maxReconnectDelay_def second_def)
  have "nat b < 2 ^ 51" using cap by (simp add: second_def)
  from float_spread [OF this, of m e] show ?thesis
    using assms(2,3) cap unfolding backoffDelay_def base by (simp add: del: to_int.simps fmul.simps fadd.simps)
qed

theorem backoff_bounds_witness:
  "backoffDelay (Fin False 1 (- 2)) demo_client 3 \<le> 90 * second \<and> 2 * backoffDelay (Fin False 1 (- 2)) demo_client 3 \<le> 24 * second"
  using backoff_bounds [of demo_client "\<lambda>_. None" demo_config "[]" False "Fin False 1 (- 2)" 1 "- 2" "8 * second" 3]
  by (simp add: demo_client_def demo_config_def NewRabbitMQ_def parsed_def maxReconnectDelay_def second_def power_int_minus)

text \<open>
  \<^verbatim>\<open>enableConfirms\<close> only ever sets the flag \<^verbatim>\<open>confirms\<close>.  When a reconnection opens a channel on which
  \<^verbatim>\<open>Confirm\<close> fails, the flag of the previous channel still stands, and a publication that the broker
  accepts dereferences the nil confirmation instead of \<^verbatim>\<open>publishing without confirms\<close>.
\<close>
theorem stale_confirm_flag:
  "\<exists>s. conn_reachable demo_client s \<and> connected s \<and> Produce demo_broker s = Some NilPointer"
proof -
  let ?xs = "connect_ok @ [Good] @ replicate 8 Good @ [Bad, Good, Good]"
  let ?s = "run_sched demo_client ?xs started"
  have "conn_reachable demo_client ?s"
    by (rule run_sched_reachable) (rule conn_reachable.init)
  moreover have "connected ?s" "Produce demo_broker ?s = Some NilPointer"
    by code_simp+
  ultimately show ?thesis by blast
qed

text \<open>
  The connected flag outlives the connection: after \<^verbatim>\<open>Stop\<close> has closed everything and the goroutine
  has returned, \<^verbatim>\<open>IsConnected\<close> still answers true on some run.
\<close>
theorem connected_after_stop:
  "\<exists>s. conn_reachable demo_client s \<and> isStopped s \<and> goroutine s = Done \<and> opened s = {} \<and> IsConnected s"
proof -
  let ?xs = "connect_ok @ [Cancel, StopLock, StopClose 0, StopClose 1, Good]"
  let ?s = "run_sched demo_client ?xs started"
  have "conn_reachable demo_client ?s"
    by (rule run_sched_reachable) (rule conn_reachable.init)
  moreover have "isStopped ?s" "goroutine ?s = Done" "opened ?s = {}" "IsConnected ?s"
    by code_simp+
  ultimately show ?thesis by blast
qed

subsection \<open>Returned messages\<close>

text \<open>
  \<^verbatim>\<open>connect\<close> starts one more goroutine per channel, which logs what the broker returns and ends when the channel is closed.  \<open>listeners\<close> are the channels
  it was started for, and the goroutine of a channel lives while the channel is open.
\<close>

definition setupReturns :: "mq \<Rightarrow> nat set \<Rightarrow> nat set" where
  "setupReturns s listeners = (case mqChannel s of None \<Rightarrow> listeners | Some ch \<Rightarrow> insert ch listeners)"

definition returns_alive :: "mq \<Rightarrow> nat set \<Rightarrow> nat set" where
  "returns_alive s listeners = listeners \<inter> opened s"

lemma setupReturns_alive:
  "returns_alive s (setupReturns s ls) \<subseteq> returns_alive s ls \<union> set_option (mqChannel s)"
  by (auto simp: setupReturns_def returns_alive_def split: option.splits)

text \<open>A stopped client whose goroutine is done keeps none of them, on whichever channels they were started.\<close>

lemma stop_ends_returns:
  assumes "conn_reachable c s" and "isStopped s" and "goroutine s = Done" and "taken s = {}"
  shows "returns_alive s ls = {}"
  using reachable_mq_inv [OF assms(1)] assms(2-4) by (auto simp: returns_alive_def mq_inv_def)

end
