(* ===== verification/MqLife.thy ===== *)
theory MqLife
  imports RabbitMQ
begin

section \<open>Starting and stopping the RabbitMQ client again and again\<close>

text \<open>
  \<open>RabbitMQ\<close> follows the goroutine of one \<^verbatim>\<open>Start\<close>.  Here a client is started and stopped any number of times (\<^verbatim>\<open>mq/rabbitmq/rabbitMQ.go\<close>, \<^verbatim>\<open>Start\<close>,
  \<^verbatim>\<open>Stop\<close>, \<^verbatim>\<open>connectAsync\<close>): every \<^verbatim>\<open>Start\<close> makes a new context and launches a goroutine, and the goroutines share the client.  They read the
  field \<^verbatim>\<open>r.ctx\<close> each time they look, not the context they were started with; only a goroutine that waits in a \<^verbatim>\<open>select\<close> looks at the context
  that was there when the wait began.  The step relation \<open>life_step\<close> lifts \<open>go_step\<close> to the pool of goroutines.
  Shown: when every \<^verbatim>\<open>Start\<close> waits for the last goroutine, nothing leaks and a stopped client comes to rest; two runs in which it does not.
\<close>

subsection \<open>The pool\<close>

record gor =
  gpc :: pc
  gattempt :: nat
  gctx :: "nat option"

text \<open>
  \<open>core\<close> holds the shared fields; its \<open>goroutine\<close>, \<open>attempt\<close> and \<open>ctxDone\<close> are those of the goroutine that moved last and are set anew for each
  move by \<open>loaded\<close>.  \<open>rctx\<close> is \<^verbatim>\<open>r.ctx\<close> with its \<^verbatim>\<open>r.cancel\<close>, \<open>stopping\<close> counts the calls of \<^verbatim>\<open>Stop\<close> that have cancelled and not yet taken the lock.
\<close>

record life =
  core :: mq
  rctx :: "nat option"
  cancelled :: "nat set"
  nextCtx :: nat
  gos :: "gor list"
  stopping :: nat

definition new_life :: life where
  "new_life = \<lparr>core = started, rctx = None, cancelled = {}, nextCtx = 0, gos = [], stopping = 0\<rparr>"

fun in_select :: "pc \<Rightarrow> bool" where
  "in_select (Waiting w) = True"
| "in_select Backoff = True"
| "in_select _ = False"

definition ctx_done :: "life \<Rightarrow> gor \<Rightarrow> bool" where
  "ctx_done l g = (case (if in_select (gpc g) then gctx g else rctx l) of None \<Rightarrow> False | Some x \<Rightarrow> x \<in> cancelled l)"

definition loaded :: "life \<Rightarrow> gor \<Rightarrow> mq" where
  "loaded l g = (core l)\<lparr>goroutine := gpc g, attempt := gattempt g, ctxDone := ctx_done l g\<rparr>"

definition unloaded :: "life \<Rightarrow> mq \<Rightarrow> gor" where
  "unloaded l s = \<lparr>gpc = goroutine s, gattempt = attempt s, gctx = rctx l\<rparr>"

definition life_Start :: "client \<Rightarrow> life \<Rightarrow> mq_error option \<times> life" where
  "life_Start c l =
     (let l1 = l\<lparr>rctx := Some (nextCtx l), nextCtx := Suc (nextCtx l), core := (core l)\<lparr>isStopped := False\<rparr>\<rparr> in
      if \<not> Disabled (config c)
      then (if Url (config c) \<noteq> '''' then (None, l1\<lparr>gos := gos l @ [\<lparr>gpc = Loop, gattempt = 0, gctx = rctx l1\<rparr>]\<rparr>)
            else (Some EmptyUrl, l1))
      else (None, l1))"

definition Stop_cancel :: "client \<Rightarrow> life \<Rightarrow> life" where
  "Stop_cancel c l =
     l\<lparr>cancelled := cancelled l \<union> set_option (rctx l), stopping := (if Disabled (config c) then stopping l else Suc (stopping l))\<rparr>"

definition Stop_take :: "life \<Rightarrow> life" where
  "Stop_take l = l\<lparr>core := Stop_locked (core l), stopping := stopping l - 1\<rparr>"

definition Stop_hang_up :: "nat \<Rightarrow> life \<Rightarrow> life" where
  "Stop_hang_up h l = l\<lparr>core := (core l)\<lparr>taken := taken (core l) - {h}, opened := opened (core l) - {h}\<rparr>\<rparr>"

text \<open>A step of a goroutine, or one of a \<^verbatim>\<open>Stop\<close> that has cancelled the context.\<close>

inductive inner_step :: "client \<Rightarrow> life \<Rightarrow> life \<Rightarrow> bool" for c :: client where
  move: "i < length (gos l) \<Longrightarrow> go_step c (loaded l (gos l ! i)) s \<Longrightarrow>
     inner_step c l (l\<lparr>core := s, gos := (gos l)[i := unloaded l s]\<rparr>)"
| lock: "0 < stopping l \<Longrightarrow> inner_step c l (Stop_take l)"
| close: "h \<in> taken (core l) \<Longrightarrow> inner_step c l (Stop_hang_up h l)"

text \<open>Every step but a \<^verbatim>\<open>Start\<close>; \<open>parent\<close> is the end of the context the caller of \<^verbatim>\<open>Start\<close> gave.\<close>

inductive life_step :: "client \<Rightarrow> life \<Rightarrow> life \<Rightarrow> bool" for c :: client where
  inner: "inner_step c l l' \<Longrightarrow> life_step c l l'"
| parent: "x < nextCtx l \<Longrightarrow> life_step c l (l\<lparr>cancelled := insert x (cancelled l)\<rparr>)"
| cancel: "life_step c l (Stop_cancel c l)"

text \<open>No goroutine runs and no \<^verbatim>\<open>Stop\<close> is under way.\<close>

definition quiet :: "life \<Rightarrow> bool" where
  "quiet l \<longleftrightarrow> (\<forall>g \<in> set (gos l). gpc g = Done) \<and> stopping l = 0 \<and> taken (core l) = {}"

inductive life_reachable :: "client \<Rightarrow> life \<Rightarrow> bool" for c :: client where
  new: "life_reachable c new_life"
| start: "life_reachable c l \<Longrightarrow> life_reachable c (snd (life_Start c l))"
| step: "life_reachable c l \<Longrightarrow> life_step c l l' \<Longrightarrow> life_reachable c l'"

text \<open>The states of a client that is only started when it is quiet.\<close>

inductive orderly :: "client \<Rightarrow> life \<Rightarrow> bool" for c :: client where
  new: "orderly c new_life"
| start: "orderly c l \<Longrightarrow> quiet l \<Longrightarrow> orderly c (snd (life_Start c l))"
| step: "orderly c l \<Longrightarrow> life_step c l l' \<Longrightarrow> orderly c l'"

subsection \<open>One goroutine at a time\<close>

lemma go_step_keeps: "go_step c s s' \<Longrightarrow> ctxDone s' = ctxDone s \<and> taken s' = taken s \<and> isStopped s' = isStopped s"
  by (induction rule: go_step.induct) (simp_all add: mq_sections split: option.split)

lemma Done_stuck [simp]: "goroutine s = Done \<Longrightarrow> \<not> go_step c s s'"
  by (auto elim: go_step.cases)

lemma stuck_without_connection: "goroutine s = Waiting None \<Longrightarrow> \<not> ctxDone s \<Longrightarrow> \<not> go_step c s s'"
  by (auto elim: go_step.cases)

definition idle_inv :: "life \<Rightarrow> bool" where
  "idle_inv l \<longleftrightarrow> mqConnect (core l) = None \<and> mqChannel (core l) = None \<and> opened (core l) = {} \<and> taken (core l) = {}"

definition run_inv :: "life \<Rightarrow> gor \<Rightarrow> bool" where
  "run_inv l g \<longleftrightarrow> mq_inv (loaded l g) \<and> (in_select (gpc g) \<longrightarrow> gctx g = rctx l) \<and>
     (\<exists>x. rctx l = Some x \<and> x < nextCtx l \<and> (0 < stopping l \<longrightarrow> x \<in> cancelled l))"

definition active :: "client \<Rightarrow> bool" where
  "active c \<longleftrightarrow> \<not> Disabled (config c) \<and> Url (config c) \<noteq> []"

definition life_inv :: "client \<Rightarrow> life \<Rightarrow> bool" where
  "life_inv c l \<longleftrightarrow> (if gos l = [] then idle_inv l
     else active c \<and> (\<forall>g \<in> set (butlast (gos l)). gpc g = Done) \<and> run_inv l (last (gos l)))"

lemma life_inv_new: "life_inv c new_life"
  by (simp add: life_inv_def new_life_def idle_inv_def started_def)

lemma life_Start_eq:
  "snd (life_Start c l) =
     l\<lparr>rctx := Some (nextCtx l), nextCtx := Suc (nextCtx l), core := (core l)\<lparr>isStopped := False\<rparr>,
       gos := gos l @ (if active c then [\<lparr>gpc = Loop, gattempt = 0, gctx = Some (nextCtx l)\<rparr>] else [])\<rparr>"
  by (simp add: life_Start_def active_def Let_def)

lemma start_inv:
  assumes "life_inv c l" and "quiet l"
  shows "life_inv c (snd (life_Start c l))"
proof (cases "active c")
  case False
  then have "gos l = []" using assms(1) by (simp add: life_inv_def split: if_splits)
  then show ?thesis using assms(1) False by (simp add: life_inv_def idle_inv_def life_Start_eq)
next
  case True
  have all: "\<forall>g \<in> set (gos l). gpc g = Done" using assms(2) by (simp add: quiet_def)
  have "opened (core l) \<subseteq> set_option (mqConnect (core l)) \<union> set_option (mqChannel (core l))"
  proof (cases "gos l = []")
    case False
    then have "gpc (last (gos l)) = Done" using all by simp
    then show ?thesis using assms False by (simp add: life_inv_def run_inv_def loaded_def mq_inv_def quiet_def)
  qed (use assms(1) in \<open>simp add: life_inv_def idle_inv_def\<close>)
  then have "run_inv (snd (life_Start c l)) \<lparr>gpc = Loop, gattempt = 0, gctx = Some (nextCtx l)\<rparr>"
    using assms(2) True by (simp add: life_Start_eq run_inv_def loaded_def mq_inv_def quiet_def)
  then show ?thesis using True all by (simp add: life_inv_def life_Start_eq)
qed

lemma update_last: "xs \<noteq> [] \<Longrightarrow> xs[length xs - 1 := x] = butlast xs @ [x]"
  by (induction xs) (auto split: nat.split simp: neq_Nil_conv)

lemma move_inv:
  assumes "life_inv c l" and i: "i < length (gos l)" and go: "go_step c (loaded l (gos l ! i)) s"
  shows "life_inv c (l\<lparr>core := s, gos := (gos l)[i := unloaded l s]\<rparr>)"
proof -
  have ne: "gos l \<noteq> []" using i by auto
  have "goroutine (loaded l (gos l ! i)) \<noteq> Done" using go Done_stuck by metis
  then have "gpc (gos l ! i) \<noteq> Done" by (simp add: loaded_def)
  moreover have "gos l ! i \<in> set (butlast (gos l))" if "i < length (gos l) - 1"
    using that by (metis length_butlast nth_butlast nth_mem)
  ultimately have "i = length (gos l) - 1" using assms(1) i ne by (fastforce simp: life_inv_def)
  then have last: "gos l ! i = last (gos l)" and upd: "\<And>g. (gos l)[i := g] = butlast (gos l) @ [g]"
    using ne update_last [OF ne] by (simp_all add: last_conv_nth)
  have r: "run_inv l (last (gos l))" using assms(1) ne by (simp add: life_inv_def)
  note s = go_step_inv [OF go [unfolded last]] go_step_keeps [OF go [unfolded last]]
  let ?l = "l\<lparr>core := s, gos := (gos l)[i := unloaded l s]\<rparr>"
  have "ctxDone s = ctx_done l (last (gos l))" using s(2) by (simp add: loaded_def)
  also have "\<dots> = ctx_done ?l (unloaded l s)" using r by (auto simp: run_inv_def ctx_done_def unloaded_def)
  finally have "loaded ?l (unloaded l s) = s" by (cases s) (simp add: loaded_def unloaded_def)
  moreover have "mq_inv s" using s(1) r by (simp add: run_inv_def)
  ultimately have "run_inv ?l (unloaded l s)" using r by (simp add: run_inv_def unloaded_def)
  then show ?thesis using assms(1) ne by (simp add: life_inv_def upd)
qed

lemmas life_inv_defs = life_inv_def idle_inv_def run_inv_def loaded_def mq_inv_def ctx_done_def

lemma inner_inv: "inner_step c l l' \<Longrightarrow> life_inv c l \<Longrightarrow> life_inv c l'"
proof (induction rule: inner_step.induct)
  case (lock l)
  then show ?case by (auto simp: life_inv_defs Stop_take_def Stop_locked_def split: option.splits if_splits)
next
  case (close h l)
  then show ?case by (auto simp: life_inv_defs Stop_hang_up_def split: option.splits if_splits)
qed (simp add: move_inv)

lemma step_inv: "life_step c l l' \<Longrightarrow> life_inv c l \<Longrightarrow> life_inv c l'"
proof (induction rule: life_step.induct)
  case (parent x l)
  then show ?case by (auto simp: life_inv_defs split: option.splits if_splits)
next
  case (cancel l)
  then show ?case by (auto simp: life_inv_defs Stop_cancel_def split: option.splits if_splits)
qed (simp add: inner_inv)

lemma orderly_inv: "orderly c l \<Longrightarrow> life_inv c l"
  by (induction rule: orderly.induct) (auto intro: life_inv_new start_inv step_inv)

lemma finite_taken: "life_reachable c l \<Longrightarrow> finite (taken (core l))"
proof (induction rule: life_reachable.induct)
  case (step l l')
  show ?case
    using step.hyps(2) step.IH
    by (auto elim!: life_step.cases inner_step.cases dest: go_step_keeps
        simp: Stop_cancel_def Stop_take_def Stop_locked_def Stop_hang_up_def loaded_def split: option.splits)
qed (simp_all add: new_life_def started_def life_Start_eq)

lemma orderly_reachable: "orderly c l \<Longrightarrow> life_reachable c l"
  by (induction rule: orderly.induct) (auto intro: life_reachable.intros)

subsection \<open>Coming to rest\<close>

text \<open>How many steps a goroutine has left once its context is done.\<close>

fun rank :: "pc \<Rightarrow> nat" where
  "rank Dialing = 16"
| "rank (DialGot h) = 15"
| "rank ChanRead = 14"
| "rank (ChanOpening h) = 13"
| "rank (ChanGot h ch) = 12"
| "rank Confirm = 11"
| "rank (Confirming ch) = 10"
| "rank QueueRead = 9"
| "rank (Declaring ch) = 8"
| "rank ConsumerRead = 7"
| "rank (Consuming ch) = 6"
| "rank MarkConnected = 5"
| "rank AfterConnect = 4"
| "rank (Waiting w) = 3"
| "rank Backoff = 2"
| "rank Loop = 1"
| "rank Done = 0"

lemma go_step_rank: "go_step c s s' \<Longrightarrow> ctxDone s \<Longrightarrow> rank (goroutine s') < rank (goroutine s)"
  by (induction rule: go_step.induct) (simp_all add: mq_sections split: option.split)

lemma rank_bound: "rank p \<le> 16"
  by (cases p) simp_all

definition can_go :: "mq \<Rightarrow> bool" where
  "can_go s = (case goroutine s of Done \<Rightarrow> False | Waiting None \<Rightarrow> ctxDone s | _ \<Rightarrow> True)"

lemma turn_step: "can_go s \<Longrightarrow> go_step c s (turn c ok s)"
  by (cases "goroutine s") (auto simp: can_go_def intro: go_step.intros split: option.splits)

lemma done_can_go: "ctxDone s \<Longrightarrow> goroutine s \<noteq> Done \<Longrightarrow> can_go s"
  by (auto simp: can_go_def split: pc.split option.split)

definition steps_left :: "life \<Rightarrow> nat" where
  "steps_left l = sum_list (map (rank \<circ> gpc) (gos l)) + 3 * stopping l + card (taken (core l))"

lemma rank_update:
  "i < length gs \<Longrightarrow> rank (gpc g) < rank (gpc (gs ! i)) \<Longrightarrow> sum_list (map (rank \<circ> gpc) (gs[i := g])) < sum_list (map (rank \<circ> gpc) gs)"
proof (induction gs arbitrary: i)
  case (Cons x gs)
  then show ?case by (cases i) auto
qed simp

lemma stopped_ctx:
  assumes "life_inv c l" and "isStopped (core l)" and "g \<in> set (gos l)" and "gpc g \<noteq> Done"
  shows "ctx_done l g"
proof -
  have "gos l \<noteq> []" using assms(3) by auto
  then have "set (gos l) = set (butlast (gos l) @ [last (gos l)])" by (simp del: set_append)
  then have "g \<in> set (butlast (gos l)) \<or> g = last (gos l)" using assms(3) by auto
  then have "g = last (gos l)" using assms(1,4) by (auto simp: life_inv_def split: if_splits)
  then show ?thesis using assms(1,2) \<open>gos l \<noteq> []\<close> by (simp add: life_inv_def run_inv_def loaded_def mq_inv_def)
qed

lemma inner_decreases:
  assumes "inner_step c l l'" and "life_inv c l" and "isStopped (core l)" and "finite (taken (core l))"
  shows "steps_left l' < steps_left l \<and> isStopped (core l')"
  using assms
proof (induction rule: inner_step.induct)
  case (move i l s)
  let ?g = "gos l ! i"
  have "gpc ?g \<noteq> Done" using move.hyps(2) Done_stuck [of "loaded l ?g"] by (auto simp: loaded_def)
  then have "ctx_done l ?g" using stopped_ctx [OF move.prems(1,2)] move.hyps(1) by simp
  then have "rank (goroutine s) < rank (gpc ?g)" using go_step_rank [OF move.hyps(2)] by (simp add: loaded_def)
  then show ?case
    using rank_update [OF move.hyps(1), of "unloaded l s"] go_step_keeps [OF move.hyps(2)] move.prems(2)
    by (simp add: steps_left_def unloaded_def loaded_def)
next
  case (lock l)
  have "card (taken (core l) \<union> set_option (mqChannel (core l)) \<union> set_option (mqConnect (core l))) \<le> card (taken (core l)) + 1 + 1"
    by (intro order.trans [OF card_Un_le] add_mono) (cases "mqChannel (core l)"; cases "mqConnect (core l)"; simp)+
  then show ?case using lock.hyps by (simp add: steps_left_def Stop_take_def Stop_locked_def)
next
  case (close h l)
  then show ?case using card_Diff1_less [of "taken (core l)" h] by (simp add: steps_left_def Stop_hang_up_def del: card_Diff_insert)
qed

lemma at_rest:
  assumes "life_inv c l" and "isStopped (core l)" and "\<nexists>l'. inner_step c l l'"
  shows "quiet l"
  unfolding quiet_def
proof (intro conjI ballI)
  fix g assume g: "g \<in> set (gos l)"
  show "gpc g = Done"
  proof (rule ccontr)
    assume n: "gpc g \<noteq> Done"
    obtain i where i: "i < length (gos l)" "gos l ! i = g" using g by (auto simp: in_set_conv_nth)
    have "can_go (loaded l g)" using stopped_ctx [OF assms(1,2) g n] n by (intro done_can_go) (simp_all add: loaded_def)
    then show False using turn_step [of "loaded l g" c True] inner_step.move [OF i(1)] i(2) assms(3) by metis
  qed
next
  show "stopping l = 0" using assms(3) inner_step.lock by blast
  show "taken (core l) = {}" using assms(3) inner_step.close by blast
qed

lemma quiet_closed: "life_inv c l \<Longrightarrow> isStopped (core l) \<Longrightarrow> quiet l \<Longrightarrow> opened (core l) = {}"
  by (auto simp: life_inv_def idle_inv_def run_inv_def quiet_def loaded_def mq_inv_def split: if_splits)

subsection \<open>Schedules\<close>

datatype life_choice = LStart | LGo nat bool | LCancel | LTake | LHangUp nat

fun life_sched :: "client \<Rightarrow> life_choice \<Rightarrow> life \<Rightarrow> life" where
  "life_sched c LStart l = snd (life_Start c l)"
| "life_sched c (LGo i ok) l =
     (if i < length (gos l) \<and> can_go (loaded l (gos l ! i))
      then let s = turn c ok (loaded l (gos l ! i)) in l\<lparr>core := s, gos := (gos l)[i := unloaded l s]\<rparr>
      else l)"
| "life_sched c LCancel l = Stop_cancel c l"
| "life_sched c LTake l = (if 0 < stopping l then Stop_take l else l)"
| "life_sched c (LHangUp h) l = (if h \<in> taken (core l) then Stop_hang_up h l else l)"

definition run_life :: "client \<Rightarrow> life_choice list \<Rightarrow> life" where
  "run_life c xs = fold (life_sched c) xs new_life"

lemma life_sched_step: "x \<noteq> LStart \<Longrightarrow> life_sched c x l = l \<or> life_step c l (life_sched c x l)"
proof (cases x)
  case (LGo i ok)
  then show ?thesis using inner_step.move [OF _ turn_step] by (auto simp: Let_def intro: life_step.inner simp del: turn.simps)
qed (auto intro: life_step.intros inner_step.intros)

lemma run_life_reachable: "life_reachable c (run_life c xs)"
proof -
  have "life_reachable c l \<Longrightarrow> life_reachable c (fold (life_sched c) xs l)" for l
  proof (induction xs arbitrary: l)
    case (Cons x xs)
    have "life_reachable c (life_sched c x l)"
      using Cons.prems life_sched_step [of x c l] by (cases "x = LStart") (auto intro: life_reachable.start life_reachable.step)
    then show ?case using Cons.IH by simp
  qed simp
  then show ?thesis by (simp add: run_life_def life_reachable.new)
qed

text \<open>A schedule keeps to the order when each start in it finds the client quiet.\<close>

fun keeps_order :: "client \<Rightarrow> life_choice list \<Rightarrow> life \<Rightarrow> bool" where
  "keeps_order c [] l = True"
| "keeps_order c (x # xs) l = ((x = LStart \<longrightarrow> quiet l) \<and> keeps_order c xs (life_sched c x l))"

lemma run_life_orderly: "keeps_order c xs new_life \<Longrightarrow> orderly c (run_life c xs)"
proof -
  have "keeps_order c xs l \<Longrightarrow> orderly c l \<Longrightarrow> orderly c (fold (life_sched c) xs l)" for l
  proof (induction xs arbitrary: l)
    case (Cons x xs)
    have "orderly c (life_sched c x l)"
      using Cons.prems life_sched_step [of x c l] by (cases "x = LStart") (auto intro: orderly.start orderly.step)
    then show ?case using Cons.IH Cons.prems(1) by simp
  qed simp
  then show "keeps_order c xs new_life \<Longrightarrow> orderly c (run_life c xs)" by (simp add: run_life_def orderly.new)
qed

subsection \<open>Properties\<close>

text \<open>
  C2: A stopped client comes to rest with nothing open.  However often the client was started and stopped before, as long as each \<^verbatim>\<open>Start\<close> found
  the goroutine of the last one gone: once \<^verbatim>\<open>Stop\<close> has marked the client as stopped, in every interleaving of the goroutine with the calls of \<^verbatim>\<open>Stop\<close> at most
  \<open>steps_left\<close> steps remain (16 for the goroutine, three for a \<^verbatim>\<open>Stop\<close> before its lock, one for each handle to be closed), and when no step
  is left the goroutine has returned and every connection and channel ever opened is closed, also one whose dial was under way.
\<close>
theorem stopped_client_rests:
  assumes "orderly c l" and "isStopped (core l)" and "(inner_step c ^^ n) l l'"
  shows "n \<le> steps_left l \<and> ((\<nexists>l''. inner_step c l' l'') \<longrightarrow> quiet l' \<and> opened (core l') = {})"
proof -
  have "(inner_step c ^^ n) l l' \<Longrightarrow> orderly c l' \<and> isStopped (core l') \<and> n + steps_left l' \<le> steps_left l"
  proof (induction n arbitrary: l')
    case (Suc n)
    then obtain m where m: "(inner_step c ^^ n) l m" "inner_step c m l'" by auto
    note ih = Suc.IH [OF m(1)]
    then have "finite (taken (core m))" using finite_taken orderly_reachable by blast
    then have "steps_left l' < steps_left m \<and> isStopped (core l')"
      using inner_decreases [OF m(2)] orderly_inv ih by blast
    then show ?case using ih orderly.step life_step.inner [OF m(2)] by fastforce
  qed (use assms in simp)
  then have "orderly c l'" "isStopped (core l')" "n \<le> steps_left l" using assms(3) by auto
  then show ?thesis using at_rest quiet_closed orderly_inv by blast
qed

text \<open>Started, stopped while the first dial succeeds, started again once quiet, connected, and stopped.\<close>

definition two_lives :: "life_choice list" where
  "two_lives = [LStart, LGo 0 True, LCancel, LTake, LGo 0 True, LGo 0 True, LGo 0 True, LGo 0 True, LStart] @
     replicate 11 (LGo 1 True) @ [LCancel, LTake]"

theorem stopped_client_rests_witness:
  "opened (core (run_life demo_client two_lives)) = {1, 2} \<and> \<not> (\<exists>l'. (inner_step demo_client ^^ 6) (run_life demo_client two_lives) l')"
proof -
  have "keeps_order demo_client two_lives new_life" by code_simp
  then have o: "orderly demo_client (run_life demo_client two_lives)" by (rule run_life_orderly)
  have f: "isStopped (core (run_life demo_client two_lives))" "steps_left (run_life demo_client two_lives) = 5"
    "opened (core (run_life demo_client two_lives)) = {1, 2}" by code_simp+
  show ?thesis using stopped_client_rests [OF o f(1), of 6] f by auto
qed

text \<open>
  Started again while the old goroutine is still dialling, the client leaks: the old goroutine finds the new context and goes on beside the
  new one, the second connection stored overwrites the first, and a final \<^verbatim>\<open>Stop\<close> closes only the second.
\<close>
theorem overlapping_start_leaks:
  "\<exists>l. life_reachable demo_client l \<and> isStopped (core l) \<and> quiet l \<and> opened (core l) \<noteq> {}"
proof -
  let ?xs = "[LStart, LGo 0 True, LCancel, LTake, LStart, LGo 1 True, LGo 0 True, LGo 0 True, LGo 1 True, LGo 1 True, LCancel, LTake, LHangUp 1] @
    concat (replicate 4 [LGo 0 True, LGo 1 True])"
  have "isStopped (core (run_life demo_client ?xs)) \<and> quiet (run_life demo_client ?xs) \<and> opened (core (run_life demo_client ?xs)) = {0}"
    by code_simp
  then show ?thesis using run_life_reachable [of demo_client ?xs] by blast
qed

text \<open>
  Started again after a \<^verbatim>\<open>Stop\<close> that found it connected, the client may never connect: the flag \<^verbatim>\<open>connected\<close> still stands, so when the first dial
  fails the goroutine waits for the end of a connection it does not have.  Nothing but a cancelled context moves it again.
\<close>
theorem restarted_client_hangs:
  "\<exists>l. orderly demo_client l \<and> \<not> isStopped (core l) \<and> mqConnect (core l) = None \<and> (\<exists>g \<in> set (gos l). gpc g \<noteq> Done) \<and>
     \<not> (\<exists>l'. inner_step demo_client l l')"
proof -
  let ?xs = "[LStart] @ replicate 11 (LGo 0 True) @ [LCancel, LTake, LHangUp 1, LHangUp 0, LGo 0 True, LStart, LGo 1 True, LGo 1 False, LGo 1 True]"
  obtain l where l: "l = run_life demo_client ?xs" by blast
  have o: "orderly demo_client l" unfolding l by (rule run_life_orderly) code_simp
  have f: "\<not> isStopped (core l)" "mqConnect (core l) = None" "taken (core l) = {}" "stopping l = 0"
    "\<forall>g \<in> set (gos l). goroutine (loaded l g) = Done \<or> goroutine (loaded l g) = Waiting None \<and> \<not> ctxDone (loaded l g)"
    "\<exists>g \<in> set (gos l). gpc g \<noteq> Done"
    unfolding l by code_simp+
  have "\<not> go_step demo_client (loaded l g) s" if "g \<in> set (gos l)" for g s
  proof -
    have "goroutine (loaded l g) = Done \<or> goroutine (loaded l g) = Waiting None \<and> \<not> ctxDone (loaded l g)"
      using that f(5) by blast
    then show ?thesis using stuck_without_connection Done_stuck by blast
  qed
  then have "\<not> (\<exists>l'. inner_step demo_client l l')" using f(3,4) by (auto elim!: inner_step.cases)
  then show ?thesis using o f(1,2,6) by blast
qed

end
