(* ===== verification/GinMiddleware.thy ===== *)
theory GinMiddleware
  imports Prelude
begin

section \<open>Rate limiter, CORS and request log\<close>

text \<open>
  The remaining gin middlewares: \<^verbatim>\<open>rateLimiter/rateLimiter.go\<close>, \<^verbatim>\<open>cors.go\<close>, \<^verbatim>\<open>requestLog/requestLog.go\<close>, \<^verbatim>\<open>health.go\<close>.  A context is the record
  \<open>gctx\<close>, \<open>next\<close> the rest of the chain; a handler that only calls it returns whatever it returns.  The token bucket of \<^verbatim>\<open>golang.org/x/time/rate\<close> is an argument: a state type \<open>'lim\<close>, a
  constructor and the decision \<^verbatim>\<open>Allow\<close>.  As in the ban list, a handler takes the instants it reads from the clock, in order.
\<close>

record gctx =
  req_method :: string
  origin :: string
  req_body :: "byte list option"
  resp_header :: "(string, string) gomap"
  status :: "nat option"
  aborted :: bool

definition set_resp_header :: "string \<Rightarrow> string \<Rightarrow> gctx \<Rightarrow> gctx" where
  "set_resp_header k v c = c\<lparr>resp_header := fmupd k v (resp_header c)\<rparr>"

subsection \<open>CORS\<close>

definition cors_allow_headers :: string where
  "cors_allow_headers = ''X-Requested-With, Content-Type, Content-Length, Accept-Encoding, X-CSRF-Token, Authorization, token, Accept, Origin, Cache-Control, X-Requested-With, Set-Cookie''"

definition allowedOrigin :: "string \<Rightarrow> string" where
  "allowedOrigin port = ''http://localhost:'' @ port"

definition cors_grant :: "string \<Rightarrow> gctx \<Rightarrow> gctx" where
  "cors_grant port c =
     set_resp_header ''Access-Control-Allow-Methods'' ''POST, GET, PUT, DELETE''
       (set_resp_header ''Access-Control-Allow-Headers'' cors_allow_headers
         (set_resp_header ''Access-Control-Allow-Credentials'' ''true''
           (set_resp_header ''Access-Control-Max-Age'' ''86400''
             (set_resp_header ''Access-Control-Allow-Origin'' (allowedOrigin port) c))))"

definition CORSMiddleware :: "string \<Rightarrow> (gctx \<Rightarrow> gctx) \<Rightarrow> gctx \<Rightarrow> gctx" where
  "CORSMiddleware port next c =
     (if origin c = allowedOrigin port
      then let c1 = cors_grant port c in
        if req_method c1 = ''OPTIONS'' then c1\<lparr>status := Some 200, aborted := True\<rparr> else next c1
      else next c)"

definition HealthPoint :: "(gctx \<Rightarrow> 'r) \<Rightarrow> gctx \<Rightarrow> 'r" where
  "HealthPoint next c = next c"

text \<open>
  Only the one allowed origin is granted anything: for any other the rest of the chain runs on the context as it was; for this one it
  runs with the grant, except that a preflight request is answered at once.
\<close>
theorem CORS_only_allowed_origin:
  "CORSMiddleware port next c =
     (if origin c \<noteq> ''http://localhost:'' @ port then next c
      else if req_method c = ''OPTIONS'' then (cors_grant port c)\<lparr>status := Some 200, aborted := True\<rparr>
      else next (cors_grant port c))"
  by (simp add: CORSMiddleware_def allowedOrigin_def cors_grant_def set_resp_header_def Let_def)

subsection \<open>Request log\<close>

text \<open>\<open>readErr\<close>: reading the body fails after a prefix; the request then keeps its half-read body, the unread rest.\<close>

definition GetRequestLog :: "bool \<Rightarrow> nat option \<Rightarrow> (gctx \<Rightarrow> 'r) \<Rightarrow> gctx \<Rightarrow> 'r" where
  "GetRequestLog debug readErr next c =
     (if \<not> debug then next c
      else case req_body c of
        None \<Rightarrow> next c
      | Some b \<Rightarrow> (case readErr of
          Some n \<Rightarrow> next (c\<lparr>req_body := Some (drop n b)\<rparr>)
        | None \<Rightarrow> next (c\<lparr>req_body := Some (take (64 * 1024) b)\<rparr>)))"

text \<open>Up to 64 KiB the handler is transparent; a longer body reaches the next handler cut when debug logging is on.\<close>

theorem request_log_transparent:
  assumes "\<And>b. req_body c = Some b \<Longrightarrow> length b \<le> 64 * 1024"
  shows "GetRequestLog debug None next c = next c"
proof (cases "req_body c")
  case (Some b)
  then show ?thesis using assms by (cases c) (simp add: GetRequestLog_def)
qed (simp add: GetRequestLog_def)

lemma request_log_cuts_body:
  "req_body c = Some b \<Longrightarrow> GetRequestLog True None next c = next (c\<lparr>req_body := Some (take 65536 b)\<rparr>)"
  by (simp add: GetRequestLog_def)

subsection \<open>Rate limiter\<close>

definition limiterEvictThreshold :: nat where
  "limiterEvictThreshold = 1024"

definition limiterEvictInterval :: duration where
  "limiterEvictInterval = 30 * 1000000000"

definition limiterIdleTimeout :: duration where
  "limiterIdleTimeout = 5 * 60 * 1000000000"

record ConfigRateLimiter =
  Limit :: int
  Seconds :: int

record 'lim ipLimiter =
  limiter :: 'lim
  lastSeen :: time

record 'lim rate =
  newLimiter :: "int \<Rightarrow> int \<Rightarrow> 'lim"
  allow :: "time \<Rightarrow> 'lim \<Rightarrow> bool \<times> 'lim"

record 'lim rl_state =
  limits :: "(string, 'lim ipLimiter) gomap"
  lastSweep :: time

record rl_clock =
  at_seen :: time
  at_since :: time
  at_sweep :: time
  at_allow :: time

definition rl_empty :: "'lim rl_state" where
  "rl_empty = \<lparr>limits = fmempty, lastSweep = 0\<rparr>"

definition rl_sweep :: "rl_clock \<Rightarrow> 'lim rl_state \<Rightarrow> 'lim rl_state" where
  "rl_sweep k s =
     (if maplen (limits s) > limiterEvictThreshold \<and> at_since k - lastSweep s > limiterEvictInterval
      then \<lparr>limits = delete_if (\<lambda>e. at_sweep k - lastSeen e > limiterIdleTimeout) (limits s), lastSweep = at_sweep k\<rparr>
      else s)"

text \<open>The map holds a pointer to the limiter, so \<^verbatim>\<open>Allow\<close>, called after the mutex is released, changes the entry if it is still there.\<close>

definition rl_decide :: "'lim rate \<Rightarrow> ConfigRateLimiter \<Rightarrow> rl_clock \<Rightarrow> string \<Rightarrow> 'lim rl_state \<Rightarrow> bool \<times> 'lim rl_state" where
  "rl_decide r cfg k ip s =
     (let lim = (case fmlookup (limits s) ip of None \<Rightarrow> newLimiter r (Seconds cfg) (Limit cfg) | Some e \<Rightarrow> limiter e);
          s1 = rl_sweep k (s\<lparr>limits := fmupd ip \<lparr>limiter = lim, lastSeen = at_seen k\<rparr> (limits s)\<rparr>);
          (ok, lim') = allow r (at_allow k) lim
      in (ok, case fmlookup (limits s1) ip of
                None \<Rightarrow> s1
              | Some e \<Rightarrow> s1\<lparr>limits := fmupd ip (e\<lparr>limiter := lim'\<rparr>) (limits s1)\<rparr>))"

definition RateLimiter ::
    "'lim rate \<Rightarrow> ConfigRateLimiter \<Rightarrow> rl_clock \<Rightarrow> string \<Rightarrow> (gctx \<Rightarrow> gctx) \<Rightarrow> gctx \<Rightarrow> 'lim rl_state \<Rightarrow> gctx \<times> 'lim rl_state" where
  "RateLimiter r cfg k ip next c s =
     (case rl_decide r cfg k ip s of
        (True, s') \<Rightarrow> (next c, s')
      | (False, s') \<Rightarrow> (c\<lparr>status := Some 429, aborted := True\<rparr>, s'))"

subsection \<open>One bucket per address\<close>

fun rl_serve :: "'lim rate \<Rightarrow> ConfigRateLimiter \<Rightarrow> (rl_clock \<times> string) list \<Rightarrow> 'lim rl_state \<Rightarrow> (string \<times> bool) list" where
  "rl_serve r cfg [] s = []"
| "rl_serve r cfg ((k, ip) # rs) s = (let (ok, s') = rl_decide r cfg k ip s in (ip, ok) # rl_serve r cfg rs s')"

text \<open>The decisions of one limiter at given instants.\<close>

fun bucket_run :: "'lim rate \<Rightarrow> 'lim \<Rightarrow> time list \<Rightarrow> bool list" where
  "bucket_run r l [] = []"
| "bucket_run r l (t # ts) = (let (ok, l') = allow r t l in ok # bucket_run r l' ts)"

definition times_of :: "string \<Rightarrow> (rl_clock \<times> string) list \<Rightarrow> time list" where
  "times_of ip rs = map (at_allow \<circ> fst) (filter (\<lambda>x. snd x = ip) rs)"

definition decisions_of :: "string \<Rightarrow> (string \<times> bool) list \<Rightarrow> bool list" where
  "decisions_of ip ds = map snd (filter (\<lambda>x. fst x = ip) ds)"

text \<open>No sweep, of whatever request, comes more than the idle time after the address was last seen.\<close>

fun active :: "string \<Rightarrow> time option \<Rightarrow> (rl_clock \<times> string) list \<Rightarrow> bool" where
  "active ip ls [] = True"
| "active ip ls ((k, i) # rs) =
     (if i = ip then at_sweep k - at_seen k \<le> limiterIdleTimeout \<and> active ip (Some (at_seen k)) rs
      else (case ls of None \<Rightarrow> True | Some t \<Rightarrow> at_sweep k - t \<le> limiterIdleTimeout) \<and> active ip ls rs)"

definition bucket_of :: "'lim rate \<Rightarrow> ConfigRateLimiter \<Rightarrow> string \<Rightarrow> 'lim rl_state \<Rightarrow> 'lim" where
  "bucket_of r cfg ip s = (case fmlookup (limits s) ip of None \<Rightarrow> newLimiter r (Seconds cfg) (Limit cfg) | Some e \<Rightarrow> limiter e)"

lemma rl_sweep_keeps:
  "fmlookup (limits s) ip = Some e \<Longrightarrow> at_sweep k - lastSeen e \<le> limiterIdleTimeout \<Longrightarrow>
   fmlookup (limits (rl_sweep k s)) ip = Some e"
  by (simp add: rl_sweep_def)

lemma rl_sweep_none: "fmlookup (limits s) ip = None \<Longrightarrow> fmlookup (limits (rl_sweep k s)) ip = None"
  by (simp add: rl_sweep_def)

lemma rl_decide_own:
  assumes "at_sweep k - at_seen k \<le> limiterIdleTimeout" and "allow r (at_allow k) (bucket_of r cfg ip s) = (ok, l')"
  shows "\<exists>s'. rl_decide r cfg k ip s = (ok, s') \<and> fmlookup (limits s') ip = Some \<lparr>limiter = l', lastSeen = at_seen k\<rparr>"
proof -
  let ?e = "\<lparr>limiter = bucket_of r cfg ip s, lastSeen = at_seen k\<rparr>"
  let ?s = "rl_sweep k (s\<lparr>limits := fmupd ip ?e (limits s)\<rparr>)"
  have "fmlookup (limits ?s) ip = Some ?e" using assms(1) by (intro rl_sweep_keeps) simp_all
  then show ?thesis using assms(2) by (simp add: rl_decide_def bucket_of_def Let_def)
qed

lemma rl_decide_other:
  assumes "i \<noteq> ip" and "case map_option lastSeen (fmlookup (limits s) ip) of None \<Rightarrow> True | Some t \<Rightarrow> at_sweep k - t \<le> limiterIdleTimeout"
  shows "fmlookup (limits (snd (rl_decide r cfg k i s))) ip = fmlookup (limits s) ip"
proof -
  define s0 where "s0 = s\<lparr>limits := fmupd i \<lparr>limiter = bucket_of r cfg i s, lastSeen = at_seen k\<rparr> (limits s)\<rparr>"
  have "fmlookup (limits s0) ip = fmlookup (limits s) ip" using assms(1) by (simp add: s0_def)
  then have "fmlookup (limits (rl_sweep k s0)) ip = fmlookup (limits s) ip"
    using assms(2) rl_sweep_keeps [of s0 ip _ k] rl_sweep_none [of s0 ip k] by (cases "fmlookup (limits s) ip") auto
  then show ?thesis using assms(1)
    by (simp add: rl_decide_def bucket_of_def [symmetric] s0_def [symmetric] Let_def split: prod.split option.split)
qed

lemma rl_serve_bucket:
  "active ip (map_option lastSeen (fmlookup (limits s) ip)) rs \<Longrightarrow>
   decisions_of ip (rl_serve r cfg rs s) = bucket_run r (bucket_of r cfg ip s) (times_of ip rs)"
proof (induction rs arbitrary: s)
  case Nil
  then show ?case by (simp add: decisions_of_def times_of_def)
next
  case (Cons x rs)
  obtain k i where x: "x = (k, i)" by fastforce
  show ?case
  proof (cases "i = ip")
    case True
    obtain ok l' where a: "allow r (at_allow k) (bucket_of r cfg ip s) = (ok, l')" by fastforce
    have act: "at_sweep k - at_seen k \<le> limiterIdleTimeout" "active ip (Some (at_seen k)) rs" using Cons.prems x True by simp_all
    obtain s' where s': "rl_decide r cfg k ip s = (ok, s')" "fmlookup (limits s') ip = Some \<lparr>limiter = l', lastSeen = at_seen k\<rparr>"
      using rl_decide_own [OF act(1) a] by blast
    then show ?thesis using Cons.IH [of s'] act(2) x True a
      by (simp add: decisions_of_def times_of_def bucket_of_def)
  next
    case False
    obtain ok s' where s': "rl_decide r cfg k i s = (ok, s')" by fastforce
    have h: "case map_option lastSeen (fmlookup (limits s) ip) of None \<Rightarrow> True | Some t \<Rightarrow> at_sweep k - t \<le> limiterIdleTimeout"
      and act: "active ip (map_option lastSeen (fmlookup (limits s) ip)) rs"
      using Cons.prems x False by (auto split: option.splits)
    have "fmlookup (limits s') ip = fmlookup (limits s) ip" using rl_decide_other [OF False h, of r cfg] s' by simp
    then show ?thesis using Cons.IH [of s'] act x False s'
      by (simp add: decisions_of_def times_of_def bucket_of_def)
  qed
qed

text \<open>
  C35: Every address has its own token bucket, and neither the other addresses nor the sweeps touch it: in any sequence of requests,
  the decisions on one address that stays active (no sweep comes more than five minutes after its last request) are those of a single
  limiter of the configured rate and burst asked at its own request times.
\<close>
theorem rate_limit_per_address:
  assumes "active ip None rs"
  shows "decisions_of ip (rl_serve r cfg rs rl_empty) = bucket_run r (newLimiter r (Seconds cfg) (Limit cfg)) (times_of ip rs)"
  using rl_serve_bucket [of ip rl_empty rs r cfg] assms by (simp add: rl_empty_def bucket_of_def)

text \<open>A limiter that counts down, and three requests of two addresses.\<close>

definition demo_rate :: "int rate" where
  "demo_rate = \<lparr>newLimiter = (\<lambda>_ burst. burst), allow = (\<lambda>_ n. (n > 0, n - 1))\<rparr>"

definition demo_requests :: "(rl_clock \<times> string) list" where
  "demo_requests = map (\<lambda>(t, ip). (\<lparr>at_seen = t, at_since = t, at_sweep = t, at_allow = t\<rparr>, ip)) [(1, ''a''), (2, ''b''), (3, ''a'')]"

theorem rate_limit_per_address_witness:
  "decisions_of ''a'' (rl_serve demo_rate \<lparr>Limit = 1, Seconds = 1\<rparr> demo_requests rl_empty) = [True, False]"
proof -
  have "active ''a'' None demo_requests" by (simp add: demo_requests_def limiterIdleTimeout_def)
  from rate_limit_per_address [OF this, of demo_rate "\<lparr>Limit = 1, Seconds = 1\<rparr>"] show ?thesis
    by (simp add: demo_requests_def demo_rate_def times_of_def)
qed

end
