(* ===== verification/GinServer.thy ===== *)
theory GinServer
  imports GinMiddleware Fail2Ban ConnSlot GoStrconv
begin

section \<open>The gin web server\<close>

text \<open>
  \<^verbatim>\<open>web/gin/ginWeb.go\<close>.  Two parts: the chain of handlers that \<^verbatim>\<open>NewGinWeb\<close> installs, run on one request after the other, and the life of
  the HTTP server, in which \<^verbatim>\<open>Start\<close>, \<^verbatim>\<open>Stop\<close>, the listening goroutine and the goroutine that waits for the end of the context are
  interleaved.  gin itself (its recovery and logging handlers, and the answer to a request no route matches) is an argument; the
  server of \<^verbatim>\<open>net/http\<close> is modelled as far as the source uses it.  The listening server refines the contract of \<open>ConnSlot\<close>.
\<close>

subsection \<open>The handler chain\<close>

record ConfigGinWeb =
  Port :: int
  StartMode :: string
  UseLogger :: bool
  Static :: string
  ReadTimeOut :: duration
  WriteTimeOut :: duration
  cfg_Fail2Ban :: ConfigFail2Ban
  cfg_RequestLog :: bool

text \<open>A handler carries the state of its closure; what a request comes back with is a status or a panic.\<close>

datatype handler = Recovery | Logger | RequestLog | BanList Fail2Ban

datatype reply = Replied int | Panicked

record engine =
  run_mode :: string
  handlers :: "handler list"
  static_dir :: "string option"
  no_route :: "(int \<times> string) option"

record gin_lib =
  recovery :: "reply \<Rightarrow> reply"
  logger :: "reply \<Rightarrow> reply"
  default404 :: reply

definition start_mode :: "string \<Rightarrow> string" where
  "start_mode m =
     (let n = map lower_char m in if n \<noteq> ''debug'' \<and> n \<noteq> ''test'' \<and> n \<noteq> ''release'' then ''debug'' else n)"

definition install_handlers :: "ConfigGinWeb \<Rightarrow> handler list" where
  "install_handlers cfg =
     [Recovery] @ (if UseLogger cfg then [Logger] else []) @ (if cfg_RequestLog cfg then [RequestLog] else []) @
     (if Disabled (cfg_Fail2Ban cfg) = False then [BanList (newFail2Ban (cfg_Fail2Ban cfg))] else [])"

record http_server =
  addr :: string
  ReadTimeout :: duration
  ReadHeaderTimeout :: duration
  WriteTimeout :: duration
  IdleTimeout :: duration
  inShutdown :: bool
  listener :: "nat option"

record GinWeb =
  config :: ConfigGinWeb
  engine :: engine
  srv :: "http_server option"
  startOnce :: bool

definition NewGinWeb :: "ConfigGinWeb \<Rightarrow> GinWeb" where
  "NewGinWeb cfg =
     \<lparr>config = cfg,
      engine = \<lparr>run_mode = start_mode (StartMode cfg), handlers = install_handlers cfg,
                static_dir = (if Static cfg \<noteq> [] then Some (Static cfg) else None),
                no_route = (if Static cfg \<noteq> [] then Some (302, ''/'') else None)\<rparr>,
      srv = None, startOnce = False\<rparr>"

text \<open>
  \<open>routes\<close> is the table of routes, \<^const>\<open>None\<close> where no route (and no static file) takes the request, which then goes to the handler
  given to \<^verbatim>\<open>NoRoute\<close>.  A request brings its address and the readings of the clock of the ban list.
\<close>

definition dispatch :: "gin_lib \<Rightarrow> engine \<Rightarrow> (gctx \<Rightarrow> reply option) \<Rightarrow> gctx \<Rightarrow> reply" where
  "dispatch L en routes c =
     (case routes c of
        Some r \<Rightarrow> r
      | None \<Rightarrow> (case no_route en of Some (code, _) \<Rightarrow> Replied code | None \<Rightarrow> default404 L))"

record request =
  client_ip :: string
  clock :: f2b_clock
  debug :: bool
  read_err :: "nat option"
  req_ctx :: gctx

text \<open>The part of the ban list's handler after \<^verbatim>\<open>c.Next()\<close>, which a panic skips.\<close>

definition after_next :: "request \<Rightarrow> reply \<Rightarrow> Fail2Ban \<Rightarrow> Fail2Ban" where
  "after_next rq r fb =
     (case r of
        Panicked \<Rightarrow> fb
      | Replied s \<Rightarrow>
          if s = StatusNotFound
          then processStatusNotFound (incr_now (clock rq)) (incr_since (clock rq)) (add_now (clock rq)) (client_ip rq) fb
          else fb)"

fun run_chain :: "gin_lib \<Rightarrow> request \<Rightarrow> handler list \<Rightarrow> (gctx \<Rightarrow> reply) \<Rightarrow> gctx \<Rightarrow> reply \<times> handler list" where
  "run_chain L rq [] route c = (route c, [])"
| "run_chain L rq (Recovery # hs) route c =
     (let (r, hs') = run_chain L rq hs route c in (recovery L r, Recovery # hs'))"
| "run_chain L rq (Logger # hs) route c =
     (let (r, hs') = run_chain L rq hs route c in (logger L r, Logger # hs'))"
| "run_chain L rq (RequestLog # hs) route c =
     (let (r, hs') = GetRequestLog (debug rq) (read_err rq) (run_chain L rq hs route) c in (r, RequestLog # hs'))"
| "run_chain L rq (BanList fb # hs) route c =
     (let (banned, sd) = Is (is_now (clock rq)) (is_since (clock rq)) (client_ip rq) (suspended fb);
          fb1 = fb\<lparr>suspended := sd\<rparr>
      in if banned then (Replied StatusNotFound, BanList fb1 # hs)
         else let (r, hs') = run_chain L rq hs route c in (r, BanList (after_next rq r fb1) # hs'))"

definition ServeHTTP :: "gin_lib \<Rightarrow> (gctx \<Rightarrow> reply option) \<Rightarrow> request \<Rightarrow> GinWeb \<Rightarrow> reply \<times> GinWeb" where
  "ServeHTTP L routes rq gw =
     (let (r, hs) = run_chain L rq (handlers (engine gw)) (dispatch L (engine gw) routes) (req_ctx rq)
      in (r, gw\<lparr>engine := (engine gw)\<lparr>handlers := hs\<rparr>\<rparr>))"

fun serve_all :: "gin_lib \<Rightarrow> (gctx \<Rightarrow> reply option) \<Rightarrow> request list \<Rightarrow> GinWeb \<Rightarrow> reply list \<times> GinWeb" where
  "serve_all L routes [] gw = ([], gw)"
| "serve_all L routes (rq # rqs) gw =
     (let (r, gw1) = ServeHTTP L routes rq gw; (rs, gw2) = serve_all L routes rqs gw1 in (r # rs, gw2))"

subsection \<open>The chain and the ban list\<close>

text \<open>What the documentation of gin promises of its handlers.\<close>

definition lawful_gin :: "gin_lib \<Rightarrow> bool" where
  "lawful_gin L \<longleftrightarrow>
     recovery L Panicked = Replied 500 \<and> (\<forall>s. recovery L (Replied s) = Replied s) \<and> (\<forall>r. logger L r = r) \<and>
     default404 L = Replied 404"

fun status_of :: "reply \<Rightarrow> int" where
  "status_of (Replied s) = s"
| "status_of Panicked = 500"

text \<open>The context a route sees: the request log may cut the body.\<close>

definition seen :: "ConfigGinWeb \<Rightarrow> request \<Rightarrow> gctx" where
  "seen cfg rq = (if cfg_RequestLog cfg then GetRequestLog (debug rq) (read_err rq) id (req_ctx rq) else req_ctx rq)"

definition as_f2b :: "gin_lib \<Rightarrow> ConfigGinWeb \<Rightarrow> (gctx \<Rightarrow> reply option) \<Rightarrow> request \<Rightarrow> f2b_request" where
  "as_f2b L cfg routes rq =
     (clock rq, client_ip rq, status_of (dispatch L (engine (NewGinWeb cfg)) routes (seen cfg rq)))"

definition outcome_reply :: "f2b_outcome \<Rightarrow> reply" where
  "outcome_reply x = (case x of Banned \<Rightarrow> Replied StatusNotFound | Forwarded s \<Rightarrow> Replied s)"

definition with_bans :: "Fail2Ban \<Rightarrow> GinWeb \<Rightarrow> GinWeb" where
  "with_bans fb gw =
     gw\<lparr>engine := (engine gw)\<lparr>handlers := map (\<lambda>h. case h of BanList _ \<Rightarrow> BanList fb | _ \<Rightarrow> h) (handlers (engine gw))\<rparr>\<rparr>"

lemma request_log_next: "GetRequestLog d e next c = next (GetRequestLog d e id c)"
  by (simp add: GetRequestLog_def split: option.split)

lemma ban_handler:
  "run_chain L rq [BanList fb] route c =
     (let (x, fb') = GetFail2Ban (clock rq) (client_ip rq) (status_of (route c)) fb
      in (if x = Banned then Replied StatusNotFound else route c, [BanList fb']))"
  by (cases "route c") (auto simp: GetFail2Ban_def after_next_def StatusNotFound_def Let_def split: prod.split)

lemma recovered: "lawful_gin L \<Longrightarrow> recovery L r = Replied (status_of r)"
  by (cases r) (simp_all add: lawful_gin_def)

lemma dispatch_with_bans [simp]: "dispatch L (engine (with_bans fb gw)) = dispatch L (engine gw)"
  by (intro ext) (simp add: dispatch_def with_bans_def split: option.split)

lemma with_bans_again:
  "(with_bans fb gw)\<lparr>engine := (engine (with_bans fb gw))\<lparr>handlers := handlers (engine (with_bans fb' gw))\<rparr>\<rparr> = with_bans fb' gw"
  by (simp add: with_bans_def)

lemma served_once:
  assumes "lawful_gin L" and "\<not> Disabled (cfg_Fail2Ban cfg)"
  shows "ServeHTTP L routes rq (with_bans fb (NewGinWeb cfg)) =
    (let (x, fb') = (case as_f2b L cfg routes rq of (ts, ip, s) \<Rightarrow> GetFail2Ban ts ip s fb)
     in (outcome_reply x, with_bans fb' (NewGinWeb cfg)))"
proof -
  obtain x fb' where g: "GetFail2Ban (clock rq) (client_ip rq)
      (status_of (dispatch L (engine (NewGinWeb cfg)) routes (seen cfg rq))) fb = (x, fb')" by fastforce
  then have x: "x = Banned \<or> x = Forwarded (status_of (dispatch L (engine (NewGinWeb cfg)) routes (seen cfg rq)))"
    by (auto simp: GetFail2Ban_def Let_def split: prod.splits if_splits)
  let ?rt = "dispatch L (engine (NewGinWeb cfg)) routes"
  have last: "run_chain L rq [BanList fb] ?rt (seen cfg rq) = (if x = Banned then Replied StatusNotFound else ?rt (seen cfg rq), [BanList fb'])"
    using g by (simp add: ban_handler del: run_chain.simps)
  have rec: "recovery L (if x = Banned then Replied StatusNotFound else ?rt (seen cfg rq)) = outcome_reply x"
    using x assms(1) by (auto simp: recovered outcome_reply_def StatusNotFound_def)
  have log: "logger L r = r" for r using assms(1) by (simp add: lawful_gin_def)
  have "run_chain L rq (handlers (engine (with_bans fb (NewGinWeb cfg)))) ?rt (req_ctx rq) =
      (outcome_reply x, handlers (engine (with_bans fb' (NewGinWeb cfg))))"
    using assms(2) last rec
    by (cases "UseLogger cfg"; cases "cfg_RequestLog cfg")
       (simp_all add: with_bans_def NewGinWeb_def install_handlers_def request_log_next [of _ _ "run_chain _ _ _ _"] seen_def log
         del: run_chain.simps(5))
  then show ?thesis using g by (simp add: ServeHTTP_def as_f2b_def with_bans_again)
qed

lemma served_all:
  assumes "lawful_gin L" and "\<not> Disabled (cfg_Fail2Ban cfg)"
  shows "serve_all L routes rqs (with_bans fb (NewGinWeb cfg)) =
    (let (xs, fb') = serve (map (as_f2b L cfg routes) rqs) fb in (map (outcome_reply \<circ> snd) xs, with_bans fb' (NewGinWeb cfg)))"
proof (induction rqs arbitrary: fb)
  case (Cons rq rqs)
  obtain ts ip s where r: "as_f2b L cfg routes rq = (ts, ip, s)" by (cases "as_f2b L cfg routes rq") auto
  obtain x fb1 where g: "GetFail2Ban ts ip s fb = (x, fb1)" by fastforce
  show ?case using served_once [OF assms, of routes rq fb] Cons.IH [of fb1] r g by (simp add: Let_def split: prod.split)
qed (simp add: Let_def)

lemma with_bans_new:
  "Disabled (cfg_Fail2Ban cfg) = False \<Longrightarrow> with_bans (newFail2Ban (cfg_Fail2Ban cfg)) (NewGinWeb cfg) = NewGinWeb cfg"
  by (simp add: with_bans_def NewGinWeb_def install_handlers_def)

subsection \<open>Start, Stop and the goroutines\<close>

text \<open>
  \<open>lpc\<close> is where the listening goroutine is inside \<^verbatim>\<open>ListenAndServe\<close>: it has yet to look at the shutdown flag, to bind the address, to
  register the listener (which fails once the server is shut down), it accepts connections, or it is gone.  \<open>wpc\<close> says whether the other
  goroutine still waits for the context.  \<open>bound\<close> are the open listening sockets.
\<close>

datatype listen_pc = LNone | LEnter | LBind | LTrack nat | LServe nat | LGone
datatype watch_pc = WNone | WWait | WGone

record web =
  gw :: GinWeb
  lpc :: listen_pc
  wpc :: watch_pc
  bound :: "nat set"

definition new_web :: "ConfigGinWeb \<Rightarrow> web" where
  "new_web cfg = \<lparr>gw = NewGinWeb cfg, lpc = LNone, wpc = WNone, bound = {}\<rparr>"

definition Start :: "web \<Rightarrow> web" where
  "Start w =
     (if startOnce (gw w) then w
      else w\<lparr>gw := (gw w)\<lparr>startOnce := True,
               srv := Some \<lparr>addr = '':'' @ Itoa (Port (config (gw w))), ReadTimeout = ReadTimeOut (config (gw w)),
                 ReadHeaderTimeout = 10 * 1000000000, WriteTimeout = WriteTimeOut (config (gw w)), IdleTimeout = 60 * 1000000000,
                 inShutdown = False, listener = None\<rparr>\<rparr>,
             lpc := LEnter, wpc := WWait\<rparr>)"

definition set_srv :: "http_server \<Rightarrow> web \<Rightarrow> web" where
  "set_srv v w = w\<lparr>gw := (gw w)\<lparr>srv := Some v\<rparr>\<rparr>"

text \<open>\<^verbatim>\<open>http.Server.Shutdown\<close>: the flag is set and the registered listener closed, under one mutex.\<close>

definition Shutdown :: "http_server \<Rightarrow> web \<Rightarrow> web" where
  "Shutdown v w = (set_srv (v\<lparr>inShutdown := True, listener := None\<rparr>) w)\<lparr>bound := bound w - set_option (listener v)\<rparr>"

text \<open>\<open>shutErr\<close> is what \<^verbatim>\<open>Shutdown\<close> returns, an error when connections are still busy after the time allowed.\<close>

definition Stop :: "string option \<Rightarrow> web \<Rightarrow> string option \<times> web" where
  "Stop shutErr w = (case srv (gw w) of None \<Rightarrow> (None, w) | Some v \<Rightarrow> (shutErr, Shutdown v w))"

definition ctx_done :: "web \<Rightarrow> web option" where
  "ctx_done w =
     (case (wpc w, srv (gw w)) of (WWait, Some v) \<Rightarrow> Some ((Shutdown v w)\<lparr>wpc := WGone\<rparr>) | _ \<Rightarrow> None)"

text \<open>One step of \<^verbatim>\<open>ListenAndServe\<close>; \<open>sock\<close> is what binding the address gives.  A serving goroutine leaves when accepting fails.\<close>

definition listen_step :: "nat option \<Rightarrow> web \<Rightarrow> web option" where
  "listen_step sock w =
     (case srv (gw w) of
        None \<Rightarrow> None
      | Some v \<Rightarrow>
          (case lpc w of
             LEnter \<Rightarrow> Some (w\<lparr>lpc := if inShutdown v then LGone else LBind\<rparr>)
           | LBind \<Rightarrow> (case sock of
               None \<Rightarrow> Some (w\<lparr>lpc := LGone\<rparr>)
             | Some h \<Rightarrow> Some (w\<lparr>bound := insert h (bound w), lpc := LTrack h\<rparr>))
           | LTrack h \<Rightarrow>
               if inShutdown v then Some (w\<lparr>bound := bound w - {h}, lpc := LGone\<rparr>)
               else Some ((set_srv (v\<lparr>listener := Some h\<rparr>) w)\<lparr>lpc := LServe h\<rparr>)
           | LServe h \<Rightarrow> Some ((set_srv (v\<lparr>listener := None\<rparr>) w)\<lparr>bound := bound w - {h}, lpc := LGone\<rparr>)
           | _ \<Rightarrow> None))"

inductive web_step :: "web \<Rightarrow> web \<Rightarrow> bool" where
  start: "web_step w (Start w)"
| stop: "web_step w (snd (Stop shutErr w))"
| ctx_end: "ctx_done w = Some w' \<Longrightarrow> web_step w w'"
| listen: "listen_step sock w = Some w' \<Longrightarrow> web_step w w'"

abbreviation web_steps :: "web \<Rightarrow> web \<Rightarrow> bool" where
  "web_steps \<equiv> web_step\<^sup>*\<^sup>*"

definition is_shut :: "web \<Rightarrow> bool" where
  "is_shut w \<longleftrightarrow> (case srv (gw w) of None \<Rightarrow> False | Some v \<Rightarrow> inShutdown v)"

text \<open>The listener the server accepts connections on.\<close>

definition accepting :: "web \<Rightarrow> nat option" where
  "accepting w = (case srv (gw w) of None \<Rightarrow> None | Some v \<Rightarrow> listener v)"

definition web_slot :: "web \<Rightarrow> slot" where
  "web_slot w = \<lparr>cur = accepting w, live = bound w, shut = is_shut w\<rparr>"

definition web_inv :: "web \<Rightarrow> bool" where
  "web_inv w \<longleftrightarrow>
     (case srv (gw w) of
        None \<Rightarrow> lpc w = LNone \<and> bound w = {} \<and> \<not> startOnce (gw w)
      | Some v \<Rightarrow> startOnce (gw w) \<and>
          (case lpc w of
             LNone \<Rightarrow> False
           | LTrack h \<Rightarrow> listener v = None \<and> bound w = {h}
           | LServe h \<Rightarrow> if inShutdown v then listener v = None \<and> bound w = {} else listener v = Some h \<and> bound w = {h}
           | _ \<Rightarrow> listener v = None \<and> bound w = {}))"

lemmas web_defs =
  web_inv_def web_slot_def accepting_def is_shut_def Start_def Stop_def Shutdown_def set_srv_def

lemma web_inv_wpc [simp]: "web_inv (w\<lparr>wpc := x\<rparr>) = web_inv w"
  by (simp add: web_inv_def cong: option.case_cong listen_pc.case_cong)

lemma server_Start_inv: "web_inv w \<Longrightarrow> web_inv (Start w)"
  by (auto simp: web_inv_def Start_def split: option.splits)

lemma Shutdown_inv: "web_inv w \<Longrightarrow> srv (gw w) = Some v \<Longrightarrow> web_inv (Shutdown v w)"
  by (cases "lpc w") (auto simp: web_inv_def Shutdown_def set_srv_def split: if_splits)

lemma server_Stop_inv: "web_inv w \<Longrightarrow> web_inv (snd (Stop e w))"
  by (simp add: Stop_def Shutdown_inv split: option.split)

lemma ctx_done_inv:
  assumes "web_inv w" and "ctx_done w = Some w'"
  shows "web_inv w'"
proof -
  obtain v where v: "srv (gw w) = Some v" "w' = (Shutdown v w)\<lparr>wpc := WGone\<rparr>"
    using assms(2) by (auto simp: ctx_done_def split: watch_pc.splits option.splits)
  then show ?thesis using Shutdown_inv [OF assms(1) v(1)] by simp
qed

lemma listen_step_inv:
  assumes "web_inv w" and "listen_step sock w = Some w'"
  shows "web_inv w'"
proof -
  obtain v where "srv (gw w) = Some v" using assms(2) by (auto simp: listen_step_def split: option.splits)
  then show ?thesis using assms
    by (cases "lpc w") (auto simp: web_inv_def listen_step_def set_srv_def split: if_splits option.splits)
qed

lemma web_step_inv: "web_inv w \<Longrightarrow> web_step w w' \<Longrightarrow> web_inv w'"
  by (erule web_step.cases) (auto intro: server_Start_inv server_Stop_inv ctx_done_inv listen_step_inv)

lemma shutdown_view:
  assumes "web_inv w" and "srv (gw w) = Some v"
  shows "slot_steps (web_slot w) (web_slot (Shutdown v w))"
proof -
  have "slot_steps (web_slot w) \<lparr>cur = None, live = bound w, shut = is_shut w\<rparr>"
    unfolding web_slot_def by (rule slot_moves(3))
  also have "slot_steps \<dots> \<lparr>cur = None, live = bound w - set_option (listener v), shut = is_shut w\<rparr>"
    using hang_up_all [of "set_option (listener v)" "\<lparr>cur = None, live = bound w, shut = is_shut w\<rparr>"] by simp
  also have "slot_steps \<dots> \<lparr>cur = None, live = bound w - set_option (listener v), shut = True\<rparr>" by (rule slot_moves(5))
  finally show ?thesis by (simp add: web_slot_def accepting_def is_shut_def Shutdown_def set_srv_def)
qed

lemma start_view: "web_inv w \<Longrightarrow> web_slot (Start w) = web_slot w"
  by (auto simp: web_defs split: option.splits)

lemma listen_view:
  assumes "web_inv w" and "listen_step sock w = Some w'"
  shows "slot_steps (web_slot w) (web_slot w')"
proof -
  obtain v where v: "srv (gw w) = Some v" using assms(2) by (auto simp: listen_step_def split: option.splits)
  show ?thesis
  proof (cases "lpc w")
    case (LTrack h)
    then show ?thesis using assms v slot_moves(2) [of h "{h}"] slot_moves(4) [of None h "{h}" True]
      by (auto simp: web_defs listen_step_def split: if_splits)
  next
    case (LServe h)
    then show ?thesis using assms v slot_moves(3) [of "Some h" "{h}" False] slot_moves(4) [of None h "{h}" False]
      by (auto simp: web_defs listen_step_def split: if_splits intro: rtranclp_trans)
  next
    case LBind
    then show ?thesis using assms v slot_moves(1) [of _ "{}" None "inShutdown v"]
      by (auto simp: web_defs listen_step_def split: option.splits)
  qed (use assms v in \<open>auto simp: web_defs listen_step_def split: if_splits\<close>)
qed

lemma web_step_view:
  assumes "web_inv w" and "web_step w w'"
  shows "slot_steps (web_slot w) (web_slot w')"
  using assms(2)
proof cases
  case start
  then show ?thesis using assms(1) by (simp add: start_view)
next
  case stop
  then show ?thesis using shutdown_view [OF assms(1)] by (simp add: Stop_def split: option.split)
next
  case ctx_end
  then obtain v where v: "srv (gw w) = Some v" "w' = (Shutdown v w)\<lparr>wpc := WGone\<rparr>"
    by (auto simp: ctx_done_def split: watch_pc.splits option.splits)
  have "web_slot w' = web_slot (Shutdown v w)" by (simp add: v(2) web_slot_def accepting_def is_shut_def)
  then show ?thesis using shutdown_view [OF assms(1) v(1)] by simp
next
  case listen
  then show ?thesis using listen_view [OF assms(1)] by blast
qed

interpretation server: conn_slot web_step web_inv web_slot
  by unfold_locales (fact web_step_inv, fact web_step_view)

lemma web_inv_new: "web_inv (new_web cfg)"
  by (simp add: web_inv_def new_web_def NewGinWeb_def)

lemma shut_accepts_nothing: "web_inv w \<Longrightarrow> is_shut w \<Longrightarrow> accepting w = None"
  by (auto simp: web_defs split: option.splits listen_pc.splits if_splits)

lemma gone_nothing_bound: "web_inv w \<Longrightarrow> lpc w = LGone \<Longrightarrow> bound w = {}"
  by (auto simp: web_inv_def split: option.splits)

lemma shut_leaves:
  assumes "web_inv w" and "is_shut w"
  shows "\<exists>w'. web_steps w w' \<and> lpc w' = LGone"
proof -
  obtain v where v: "srv (gw w) = Some v" "inShutdown v" using assms(2) by (auto simp: is_shut_def split: option.splits)
  show ?thesis
  proof (cases "lpc w = LGone")
    case False
    then have "\<exists>w'. listen_step None w = Some w' \<and> lpc w' = LGone"
      using assms(1) v by (auto simp: web_inv_def listen_step_def split: listen_pc.splits)
    then show ?thesis using web_step.listen by blast
  qed blast
qed

subsection \<open>Properties\<close>

text \<open>
  C20: The server with its whole chain (recovery, and logging and request log as configured) bans as the ban list alone does: any
  sequence of requests is answered as by the ban list fed with the answers of the routes, a panicking route counting as status 500, and
  leaves its state in the chain.  So every theorem on the ban list holds for the server.
\<close>
theorem server_runs_ban_list:
  assumes "lawful_gin L" and "Disabled (cfg_Fail2Ban cfg) = False"
  shows "serve_all L routes rqs (NewGinWeb cfg) =
    (let (xs, fb) = serve (map (as_f2b L cfg routes) rqs) (newFail2Ban (cfg_Fail2Ban cfg))
     in (map (outcome_reply \<circ> snd) xs, with_bans fb (NewGinWeb cfg)))"
  using served_all [OF assms(1), of cfg routes rqs "newFail2Ban (cfg_Fail2Ban cfg)"] assms(2) by (simp add: with_bans_new)

definition demo_gin :: gin_lib where
  "demo_gin = \<lparr>recovery = (\<lambda>r. Replied (status_of r)), logger = (\<lambda>r. r), default404 = Replied 404\<rparr>"

definition demo_web_config :: ConfigGinWeb where
  "demo_web_config = \<lparr>Port = 8080, StartMode = ''Release'', UseLogger = True, Static = [], ReadTimeOut = 10, WriteTimeOut = 10,
     cfg_Fail2Ban = \<lparr>Disabled = False, cfg_LogBannedPath = False, WatchPeriod = 60, WatchCount = 1, BanPeriod = 900\<rparr>, cfg_RequestLog = True\<rparr>"

definition demo_probe :: "time \<Rightarrow> request" where
  "demo_probe t = \<lparr>client_ip = ''10.0.0.1'', clock = \<lparr>is_now = t, is_since = t, incr_now = t, incr_since = t, add_now = t\<rparr>, debug = True,
     read_err = None, req_ctx = \<lparr>req_method = ''GET'', origin = [], req_body = None, resp_header = fmempty, status = None, aborted = False\<rparr>\<rparr>"

text \<open>A probe is answered 404 and bans its address.\<close>

theorem server_runs_ban_list_witness:
  "fst (serve_all demo_gin (\<lambda>_. None) [demo_probe 1] (NewGinWeb demo_web_config)) = [Replied 404] \<and>
   sd_items (suspended (snd (serve (map (as_f2b demo_gin demo_web_config (\<lambda>_. None)) [demo_probe 1])
     (newFail2Ban (cfg_Fail2Ban demo_web_config))))) = fmupd ''10.0.0.1'' 901 fmempty"
proof -
  have L: "lawful_gin demo_gin" "Disabled (cfg_Fail2Ban demo_web_config) = False"
    by (simp_all add: lawful_gin_def demo_gin_def demo_web_config_def)
  show ?thesis using server_runs_ban_list [OF L, of "\<lambda>_. None" "[demo_probe 1]"]
    by (simp add: as_f2b_def demo_probe_def demo_web_config_def demo_gin_def dispatch_def NewGinWeb_def f2b_defs outcome_reply_def)
qed

text \<open>
  C19: Every run of the server refines the one-connection contract: from the new server to any reachable state, and on from there, what
  it listens on changes as the contract allows.  Once it is shut down, by \<^verbatim>\<open>Stop\<close> or by the end of the context, even before its
  goroutine has bound the address, it accepts no connection any more whatever is called afterwards, the listening
  goroutine can always leave, and when it has left no socket stays bound.
\<close>
theorem server_stopped_for_good:
  assumes "web_steps (new_web cfg) w" and "web_steps w w'"
  shows "slot_steps empty_slot (web_slot w) \<and> slot_steps (web_slot w) (web_slot w') \<and>
         (is_shut w \<longrightarrow> is_shut w' \<and> accepting w' = None \<and> (\<exists>w''. web_steps w' w'' \<and> lpc w'' = LGone)) \<and>
         (lpc w' = LGone \<longrightarrow> bound w' = {})"
proof -
  have "web_slot (new_web cfg) = empty_slot"
    by (simp add: web_slot_def accepting_def is_shut_def new_web_def NewGinWeb_def empty_slot_def)
  then have w: "web_inv w" "slot_steps empty_slot (web_slot w)" using server.run_refines [OF assms(1) web_inv_new] by simp_all
  have w': "web_inv w'" "slot_steps (web_slot w) (web_slot w')" using server.run_refines [OF assms(2) w(1)] by simp_all
  have "is_shut w'" "accepting w' = None" if "is_shut w"
    using server.stays_disconnected [OF assms(2) w(1)] that shut_accepts_nothing [OF w(1)] by (simp_all add: web_slot_def)
  then show ?thesis using w w' shut_leaves [OF w'(1)] gone_nothing_bound by blast
qed

theorem server_stopped_for_good_witness:
  "slot_steps empty_slot (web_slot (Start (new_web demo_web_config))) \<and>
   (\<exists>w. web_steps (new_web demo_web_config) w \<and> lpc w = LEnter \<and> is_shut w \<and> accepting (Start w) = None)"
proof -
  let ?s = "Start (new_web demo_web_config)"
  let ?w = "snd (Stop None ?s)"
  have rs: "web_steps (new_web demo_web_config) ?s" and rw: "web_steps ?s ?w" by (meson r_into_rtranclp web_step.start web_step.stop)+
  then have r: "web_steps (new_web demo_web_config) ?w" by simp
  have s: "is_shut ?w" "lpc ?w = LEnter" by (simp_all add: web_defs new_web_def NewGinWeb_def)
  have "web_steps ?w (Start ?w)" by (meson r_into_rtranclp web_step.start)
  from server_stopped_for_good [OF r this] server_stopped_for_good [OF rs rw] show ?thesis using r s by blast
qed

text \<open>
  Two consequences.  \<^verbatim>\<open>Start\<close> on a server that was started before does nothing and reports success.  With a static directory a request
  that nothing matches is redirected, so it never counts as not found and the ban list sees no probe.
\<close>

lemma start_again_ignored: "startOnce (gw w) \<Longrightarrow> Start w = w"
  by (simp add: Start_def)

lemma static_hides_probes:
  "Static cfg \<noteq> [] \<Longrightarrow> routes (seen cfg rq) = None \<Longrightarrow> as_f2b L cfg routes rq = (clock rq, client_ip rq, 302)"
  by (simp add: as_f2b_def dispatch_def NewGinWeb_def)

end
