(* ===== verification/ServiceSet.thy ===== *)
theory ServiceSet
  imports AppController SqlServices Postgres BBolt Otel MailSender Smsc MqLife GinServer
begin

section \<open>Services under the controller\<close>

text \<open>
  The services of the library as the controller of \<^verbatim>\<open>app/v3\<close> runs them: each is a \<open>Service\<close> on a world that holds their states.  The goroutines of the
  message queue client, of the web server and of PostgreSQL (listener, pings, restarts) run in the background: before every call the controller makes, and inside
  the \<^verbatim>\<open>Stop\<close> of the message queue between its sections, any number of their steps is taken, as the world's own list \<open>w_bg\<close> says.
  The locale \<open>service_set\<close> is what the controller needs of a family of services to leave nothing open: they keep apart, \<^verbatim>\<open>Stop\<close> leaves a service clean, and,
  for the services called tidy, so does a failed \<^verbatim>\<open>Start\<close>.  It is interpreted on the nine services.  A \<^verbatim>\<open>Stop\<close> of PostgreSQL does not end a restart that is
  asleep or about to begin, which opens the pool again: of PostgreSQL nothing is promised when one was (\<open>late\<close>).
\<close>

subsection \<open>The contract\<close>

text \<open>\<open>idle\<close>: not started yet; \<open>clean\<close>: nothing open that nobody will close.\<close>

locale service_set =
  fixes svc :: "'i \<Rightarrow> 'w AppController.Service" and idle :: "'i \<Rightarrow> 'w \<Rightarrow> bool" and clean :: "'i \<Rightarrow> 'w \<Rightarrow> bool"
    and wf :: "'w \<Rightarrow> bool" and tidy :: "'i \<Rightarrow> bool"
  assumes idle_clean: "idle i w \<Longrightarrow> wf w \<Longrightarrow> clean i w"
    and start_wf: "wf w \<Longrightarrow> idle i w \<Longrightarrow> wf (snd (svc_Start (svc i) w))"
    and start_idle: "j \<noteq> i \<Longrightarrow> wf w \<Longrightarrow> idle j w \<Longrightarrow> idle j (snd (svc_Start (svc i) w))"
    and start_fails: "tidy i \<Longrightarrow> wf w \<Longrightarrow> idle i w \<Longrightarrow> fst (svc_Start (svc i) w) \<noteq> None \<Longrightarrow> clean i (snd (svc_Start (svc i) w))"
    and stop_wf: "wf w \<Longrightarrow> wf (snd (svc_Stop (svc i) w))"
    and stop_other: "j \<noteq> i \<Longrightarrow> wf w \<Longrightarrow> clean j w \<Longrightarrow> clean j (snd (svc_Stop (svc i) w))"
    and stop_own: "wf w \<Longrightarrow> clean i (snd (svc_Stop (svc i) w))"
begin

lemma stop_clean: "wf w \<Longrightarrow> i = k \<or> clean i w \<Longrightarrow> clean i (snd (svc_Stop (svc k) w))"
  using stop_own stop_other by (cases "i = k") auto

lemma stop_started_clean:
  "wf w \<Longrightarrow> wf (stop_started (map svc is) w) \<and> (\<forall>i. i \<in> set is \<or> clean i w \<longrightarrow> clean i (stop_started (map svc is) w))"
proof (induction "is" arbitrary: w)
  case (Cons k ks)
  then show ?case using Cons.IH [OF stop_wf [OF Cons.prems], of k] stop_clean [OF Cons.prems] by auto
qed simp

lemma deinit_loop_clean:
  "wf w \<Longrightarrow> wf (deinit_loop (map (Some \<circ> svc) is) w) \<and> (\<forall>i. i \<in> set is \<or> clean i w \<longrightarrow> clean i (deinit_loop (map (Some \<circ> svc) is) w))"
proof (induction "is" arbitrary: w)
  case (Cons k ks)
  then show ?case using Cons.IH [OF stop_wf [OF Cons.prems], of k] stop_clean [OF Cons.prems] by auto
qed simp

lemma init_loop_clean:
  assumes "init_loop (map svc up) (map svc is) w = outcome.Panicked err w'" and "wf w" and "distinct (up @ is)"
    and "\<And>i. i \<notin> set up \<Longrightarrow> idle i w"
  shows "wf w' \<and> (\<exists>f \<in> set is. \<forall>i. i \<noteq> f \<or> tidy i \<longrightarrow> clean i w')"
  using assms
proof (induction "is" arbitrary: up w)
  case (Cons k ks)
  have k: "idle k w" using Cons.prems(3,4) by simp
  obtain r w1 where s: "svc_Start (svc k) w = (r, w1)" by fastforce
  have wf1: "wf w1" using start_wf [OF Cons.prems(2) k] s by simp
  have other: "idle i w1" if "i \<noteq> k" "idle i w" for i using start_idle [OF that(1) Cons.prems(2) that(2)] s by simp
  show ?case
  proof (cases r)
    case None
    have "init_loop (map svc (up @ [k])) (map svc ks) w1 = outcome.Panicked err w'" using Cons.prems(1) s None by simp
    moreover have "idle i w1" if "i \<notin> set (up @ [k])" for i using that other Cons.prems(4) by simp
    ultimately have "wf w' \<and> (\<exists>f \<in> set ks. \<forall>i. i \<noteq> f \<or> tidy i \<longrightarrow> clean i w')"
      using Cons.IH [of "up @ [k]" w1] wf1 Cons.prems(3) by simp
    then show ?thesis by auto
  next
    case (Some e)
    then have w': "w' = stop_started (map svc (rev up)) w1" using Cons.prems(1) s by (simp add: rev_map)
    have st: "clean i w'" if "i \<in> set up \<or> clean i w1" for i
      using stop_started_clean [OF wf1, of "rev up"] that unfolding w' by auto
    have "clean k w1" if "tidy k" using start_fails [OF that Cons.prems(2) k] s Some by simp
    moreover have "i \<in> set up \<or> clean i w1" if "i \<noteq> k" for i using that other Cons.prems(4) idle_clean [OF _ wf1] by blast
    ultimately have "clean i w'" if "i \<noteq> k \<or> tidy i" for i using st that by (cases "i = k") auto
    then show ?thesis using stop_started_clean [OF wf1, of "rev up"] unfolding w' by auto
  qed
qed simp

lemma init_loop_finished:
  assumes "init_loop (map svc up) (map svc is) w = outcome.Finished w'" and "wf w" and "distinct (up @ is)"
    and "\<And>i. i \<notin> set up \<Longrightarrow> idle i w"
  shows "wf w' \<and> (\<forall>i. i \<notin> set (up @ is) \<longrightarrow> idle i w')"
  using assms
proof (induction "is" arbitrary: up w)
  case (Cons k ks)
  have k: "idle k w" using Cons.prems(3,4) by simp
  obtain w1 where s: "svc_Start (svc k) w = (None, w1)" using Cons.prems(1) by (auto split: prod.splits option.splits)
  have "init_loop (map svc (up @ [k])) (map svc ks) w1 = outcome.Finished w'" using Cons.prems(1) s by simp
  moreover have "idle i w1" if "i \<notin> set (up @ [k])" for i
    using that start_idle [of i k w] s Cons.prems(2,4) by simp
  moreover have "wf w1" using start_wf [OF Cons.prems(2) k] s by simp
  ultimately have "wf w' \<and> (\<forall>i. i \<notin> set ((up @ [k]) @ ks) \<longrightarrow> idle i w')"
    using Cons.IH [of "up @ [k]" w1] Cons.prems(3) by simp
  then show ?case by simp
qed simp

end

subsection \<open>The services of the library\<close>

datatype service_id = SqlServer | Oracle | PostgreSql | KeyValue | Telemetry | Mail | SmsCentre | MessageQueue | WebServer

text \<open>A step of a goroutine in the background.\<close>

datatype bg_event = MqGo nat bool | WebListen "nat option" | WebCtxDone | PgGo pg_event

record 'tx app_world =
  w_ms :: MsSQL
  w_ora :: OracleSQL
  w_pg :: pg_live
  w_bb :: "'tx BBolt"
  w_otel :: Otello
  w_mail :: "MailSender \<times> MailSender.world"
  w_sms :: SMSCenter
  w_mq :: life
  w_web :: web
  w_bg :: "bg_event list list"

text \<open>What the drivers and libraries answer; \<open>a_mq\<close> is the message queue client as \<^verbatim>\<open>NewRabbitMQ\<close> built it.\<close>

record 'tx answers =
  a_sql :: driver
  a_ora :: driver
  a_url :: url_builder
  a_pg :: pg_env
  a_bolt :: "'tx bolt_env"
  a_otel :: otel_env
  a_mail :: mail_env
  a_sms :: "unit gosmpp"
  a_select :: "string list \<Rightarrow> string option"
  a_mq :: RabbitMQ.client
  a_shutErr :: "string option"
  err_text :: "sql_error \<Rightarrow> string"
  mail_text :: "send_error \<Rightarrow> string"
  mq_text :: "mq_error \<Rightarrow> string"

definition join_errors :: "string list \<Rightarrow> string option" where
  "join_errors es = (if es = [] then None else Some (concat es))"

fun bg_exec :: "'tx answers \<Rightarrow> bg_event \<Rightarrow> 'tx app_world \<Rightarrow> 'tx app_world" where
  "bg_exec a (MqGo i ok) w = w\<lparr>w_mq := life_sched (a_mq a) (LGo i ok) (w_mq w)\<rparr>"
| "bg_exec a (WebListen sock) w = w\<lparr>w_web := (case listen_step sock (w_web w) of None \<Rightarrow> w_web w | Some v \<Rightarrow> v)\<rparr>"
| "bg_exec a WebCtxDone w = w\<lparr>w_web := (case GinServer.ctx_done (w_web w) of None \<Rightarrow> w_web w | Some v \<Rightarrow> v)\<rparr>"
| "bg_exec a (PgGo e) w = w\<lparr>w_pg := pg_bg e (w_pg w)\<rparr>"

definition background :: "'tx answers \<Rightarrow> 'tx app_world \<Rightarrow> 'tx app_world" where
  "background a w = (case w_bg w of [] \<Rightarrow> w | es # ess \<Rightarrow> fold (bg_exec a) es (w\<lparr>w_bg := ess\<rparr>))"

text \<open>\<^verbatim>\<open>Stop\<close> of the message queue client: cancel, take the handles out under the lock, close them.\<close>

definition mq_hang_up :: "life \<Rightarrow> life" where
  "mq_hang_up l = l\<lparr>core := (core l)\<lparr>opened := RabbitMQ.opened (core l) - taken (core l), taken := {}\<rparr>\<rparr>"

definition mq_Stop :: "'tx answers \<Rightarrow> 'tx app_world \<Rightarrow> 'tx app_world" where
  "mq_Stop a w =
     (let w1 = w\<lparr>w_mq := Stop_cancel (a_mq a) (w_mq w)\<rparr> in
      if RabbitMQ.Disabled (RabbitMQ.config (a_mq a)) then w1
      else let w2 = background a w1; w3 = background a (w2\<lparr>w_mq := Stop_take (w_mq w2)\<rparr>) in w3\<lparr>w_mq := mq_hang_up (w_mq w3)\<rparr>)"

fun raw_service :: "'tx answers \<Rightarrow> service_id \<Rightarrow> 'tx app_world AppController.Service" where
  "raw_service a SqlServer =
     \<lparr>GetName = ''MsSql'',
      svc_Start = (\<lambda>w. let (e, s) = ms_Start (a_sql a) (w_ms w) in (map_option (err_text a) e, w\<lparr>w_ms := s\<rparr>)),
      svc_Stop = (\<lambda>w. let (e, s) = ms_Stop (a_sql a) (w_ms w) in (map_option (err_text a) e, w\<lparr>w_ms := s\<rparr>))\<rparr>"
| "raw_service a Oracle =
     \<lparr>GetName = ''OracleSQL'',
      svc_Start = (\<lambda>w. let (e, s) = ora_Start (a_url a) (a_ora a) (w_ora w) in (map_option (err_text a) e, w\<lparr>w_ora := s\<rparr>)),
      svc_Stop = (\<lambda>w. let (e, s) = ora_Stop (a_ora a) (w_ora w) in (map_option (err_text a) e, w\<lparr>w_ora := s\<rparr>))\<rparr>"
| "raw_service a PostgreSql =
     \<lparr>GetName = ''PostgreSQL'',
      svc_Start = (\<lambda>w. let (e, s) = live_Start (a_pg a) (w_pg w) in (e, w\<lparr>w_pg := s\<rparr>)),
      svc_Stop = (\<lambda>w. (None, w\<lparr>w_pg := live_Stop (w_pg w)\<rparr>))\<rparr>"
| "raw_service a KeyValue =
     \<lparr>GetName = ''BBolt'',
      svc_Start = (\<lambda>w. let (e, s) = BBolt.Start (a_bolt a) (w_bb w) in (e, w\<lparr>w_bb := s\<rparr>)),
      svc_Stop = (\<lambda>w. let (e, s) = BBolt.Stop (a_bolt a) (w_bb w) in (e, w\<lparr>w_bb := s\<rparr>))\<rparr>"
| "raw_service a Telemetry =
     \<lparr>GetName = ''otel'',
      svc_Start = (\<lambda>w. let (e, s) = Otel.Start (a_otel a) (w_otel w) in (e, w\<lparr>w_otel := s\<rparr>)),
      svc_Stop = (\<lambda>w. let (es, s) = Otel.Stop (a_otel a) (w_otel w) in (join_errors es, w\<lparr>w_otel := s\<rparr>))\<rparr>"
| "raw_service a Mail =
     \<lparr>GetName = ''MailSender'',
      svc_Start = (\<lambda>w. let (e, m) = MailSender.Start (fst (w_mail w)) in (map_option (mail_text a) e, w\<lparr>w_mail := (m, snd (w_mail w))\<rparr>)),
      svc_Stop = (\<lambda>w. let (e, mw) = MailSender.Stop (a_mail a) (w_mail w) in (e, w\<lparr>w_mail := mw\<rparr>))\<rparr>"
| "raw_service a SmsCentre =
     \<lparr>GetName = ''SMSCenter'',
      svc_Start = (\<lambda>w. let (e, s, _) = Smsc.Start (a_sms a) (w_sms w) () in (e, w\<lparr>w_sms := s\<rparr>)),
      svc_Stop = (\<lambda>w. let (e, s, _) = Smsc.Stop (a_sms a) (w_sms w) () in (e, w\<lparr>w_sms := s\<rparr>))\<rparr>"
| "raw_service a MessageQueue =
     \<lparr>GetName = ''RabbitMQ'',
      svc_Start = (\<lambda>w. let (e, l) = life_Start (a_mq a) (w_mq w) in (map_option (mq_text a) e, w\<lparr>w_mq := l\<rparr>)),
      svc_Stop = (\<lambda>w. (None, mq_Stop a w))\<rparr>"
| "raw_service a WebServer =
     \<lparr>GetName = ''GinWeb'',
      svc_Start = (\<lambda>w. (None, w\<lparr>w_web := GinServer.Start (w_web w)\<rparr>)),
      svc_Stop = (\<lambda>w. let (e, v) = GinServer.Stop (a_shutErr a) (w_web w) in (e, w\<lparr>w_web := v\<rparr>))\<rparr>"

definition lib_service :: "'tx answers \<Rightarrow> service_id \<Rightarrow> 'tx app_world AppController.Service" where
  "lib_service a i =
     (let s = raw_service a i in s\<lparr>svc_Start := (\<lambda>w. svc_Start s (background a w)), svc_Stop := (\<lambda>w. svc_Stop s (background a w))\<rparr>)"

text \<open>
  What a service has open.  A connection the goroutine of the message queue holds in a local variable, and a socket the web server has
  bound and not registered, are not counted: the goroutine closes them in its next steps.
\<close>

fun owned :: "service_id \<Rightarrow> 'tx app_world \<Rightarrow> nat set" where
  "owned SqlServer w = SqlServices.opened (w_ms w)"
| "owned Oracle w = ora_opened (w_ora w)"
| "owned PostgreSql w = Postgres.opened (pg_core (w_pg w))"
| "owned KeyValue w = bopened (w_bb w)"
| "owned Telemetry w = o_opened (w_otel w) \<union> running (w_otel w)"
| "owned Mail w = MailSender.opened (snd (w_mail w))"
| "owned SmsCentre w = sessions (w_sms w)"
| "owned MessageQueue w = RabbitMQ.opened (core (w_mq w)) - (\<Union>g \<in> set (gos (w_mq w)). RabbitMQ.held (gpc g))"
| "owned WebServer w = bound (w_web w) - (case lpc (w_web w) of LTrack h \<Rightarrow> {h} | _ \<Rightarrow> {})"

fun idle_service :: "service_id \<Rightarrow> 'tx app_world \<Rightarrow> bool" where
  "idle_service MessageQueue w \<longleftrightarrow> gos (w_mq w) = []"
| "idle_service WebServer w \<longleftrightarrow> srv (gw (w_web w)) = None"
| "idle_service PostgreSql w \<longleftrightarrow> still (w_pg w)"
| "idle_service i w \<longleftrightarrow> owned i w = {}"

fun clean_service :: "service_id \<Rightarrow> 'tx app_world \<Rightarrow> bool" where
  "clean_service MessageQueue w \<longleftrightarrow> gos (w_mq w) = [] \<or> isStopped (core (w_mq w))"
| "clean_service WebServer w \<longleftrightarrow> srv (gw (w_web w)) = None \<or> is_shut (w_web w)"
| "clean_service PostgreSql w \<longleftrightarrow> late (w_pg w) \<or> still (w_pg w)"
| "clean_service i w \<longleftrightarrow> owned i w = {}"

definition otel_wf :: "Otello \<Rightarrow> bool" where
  "otel_wf s \<longleftrightarrow> o_opened s = set_option (Otel.conn s) \<and>
     running s \<subseteq> set_option (tracerProvider s) \<union> set_option (loggerProvider s) \<union>
       (if WithoutPrometheus (Otel.config s) then {} else set_option (meterProvider s))"

definition mq_wf :: "'tx answers \<Rightarrow> life \<Rightarrow> bool" where
  "mq_wf a l \<longleftrightarrow> life_inv (a_mq a) l \<and> stopping l = 0 \<and> taken (core l) = {}"

definition world_wf :: "'tx answers \<Rightarrow> 'tx app_world \<Rightarrow> bool" where
  "world_wf a w \<longleftrightarrow>
     SqlServices.opened (w_ms w) = set_option (db (w_ms w)) \<and> ora_opened (w_ora w) = set_option (connection (w_ora w)) \<and>
     Postgres.pool_inv (pg_core (w_pg w)) \<and> bopened (w_bb w) = set_option (bdb (w_bb w)) \<and> otel_wf (w_otel w) \<and>
     sender_ok (w_mail w) \<and> one_session (w_sms w) \<and> mq_wf a (w_mq w) \<and> web_inv (w_web w)"

text \<open>The services whose failed start leaves nothing open.\<close>

definition tidy_service :: "service_id \<Rightarrow> bool" where
  "tidy_service i \<longleftrightarrow> i \<in> {SqlServer, KeyValue, Mail, MessageQueue, WebServer}"

lemma ms_keeps:
  assumes "SqlServices.opened s = set_option (db s)"
  shows "SqlServices.opened (snd (ms_Start d s)) = set_option (db (snd (ms_Start d s)))"
    "SqlServices.opened (snd (ms_Stop d s)) = {}" "db (snd (ms_Stop d s)) = None"
    "db s = None \<Longrightarrow> fst (ms_Start d s) \<noteq> None \<Longrightarrow> SqlServices.opened (snd (ms_Start d s)) = {}"
  using assms by (auto simp: ms_Start_def ms_Stop_def Let_def split: option.splits)

lemma ora_keeps:
  assumes "ora_opened s = set_option (connection s)"
  shows "connection s = None \<Longrightarrow> ora_opened (snd (ora_doStart u d s)) = set_option (connection (snd (ora_doStart u d s)))"
    "ora_opened (snd (ora_doStop d s)) = {}" "connection (snd (ora_doStop d s)) = None"
  using assms by (auto simp: ora_doStart_def ora_doStop_def Let_def split: option.splits)

lemma bb_keeps:
  assumes "bopened s = set_option (bdb s)"
  shows "bopened (snd (BBolt.Start e s)) = set_option (bdb (snd (BBolt.Start e s)))"
    "bopened (snd (BBolt.Stop e s)) = {}" "bdb (snd (BBolt.Stop e s)) = None"
    "bdb s = None \<Longrightarrow> fst (BBolt.Start e s) \<noteq> None \<Longrightarrow> bopened (snd (BBolt.Start e s)) = {}"
  using assms by (auto simp: BBolt.Start_def BBolt.Stop_def split: option.splits sum.splits)

lemma otel_keeps:
  assumes "otel_wf s"
  shows "running s = {} \<Longrightarrow> otel_wf (snd (Otel.Start e s))" "otel_wf (snd (Otel.Stop e s))"
    "o_opened (snd (Otel.Stop e s)) = {}" "running (snd (Otel.Stop e s)) = {}"
  using assms by (auto simp: otel_wf_def otel_defs split: option.splits if_splits)


lemma mail_keeps:
  assumes "sender_ok mw"
  shows "sender_ok (snd (MailSender.Start (fst mw)), snd mw)"
    "sender_ok (snd (MailSender.Stop e mw))" "MailSender.opened (snd (snd (MailSender.Stop e mw))) = {}"
  using assms by (auto simp: sender_ok_def conn_ok_def MailSender.Start_def MailSender.Stop_def Let_def case_prod_beta split: option.splits sum.splits)

lemma sms_keeps:
  assumes "one_session s"
  shows "sessions s = {} \<Longrightarrow> one_session (fst (snd (Smsc.Start g s w)))"
    "one_session (fst (snd (Smsc.Stop g s w)))" "sessions (fst (snd (Smsc.Stop g s w))) = {}"
  using start_session [of s g w] stop_session [OF assms, of g w] by (simp_all add: Smsc.Start_def Smsc.Stop_def one_session_def)

subsection \<open>The goroutines in the background\<close>

definition same_mq :: "life \<Rightarrow> life \<Rightarrow> bool" where
  "same_mq l l' \<longleftrightarrow> (gos l' = [] \<longleftrightarrow> gos l = []) \<and> isStopped (core l') = isStopped (core l) \<and> taken (core l') = taken (core l) \<and>
     stopping l' = stopping l"

lemma mq_go_keeps:
  assumes "life_inv c l"
  shows "life_inv c (life_sched c (LGo i ok) l) \<and> same_mq l (life_sched c (LGo i ok) l)"
proof (cases "i < length (gos l) \<and> can_go (loaded l (gos l ! i))")
  case True
  let ?s = "turn c ok (loaded l (gos l ! i))"
  have go: "go_step c (loaded l (gos l ! i)) ?s" using turn_step True by blast
  have eq: "life_sched c (LGo i ok) l = l\<lparr>core := ?s, gos := (gos l)[i := unloaded l ?s]\<rparr>"
    using True by (simp add: Let_def del: turn.simps)
  show ?thesis
    unfolding eq using move_inv [OF assms _ go] True go_step_keeps [OF go] by (simp add: same_mq_def loaded_def del: turn.simps)
qed (use assms in \<open>auto simp: same_mq_def simp del: turn.simps\<close>)

lemma listen_keeps:
  assumes "web_inv v" and "listen_step sock v = Some v'"
  shows "web_inv v' \<and> srv (gw v') \<noteq> None \<and> (is_shut v \<longrightarrow> is_shut v') \<and> srv (gw v) \<noteq> None"
  using listen_step_inv [OF assms] assms(2)
  by (auto simp: listen_step_def is_shut_def set_srv_def split: option.splits listen_pc.splits if_splits)

lemma ctx_done_keeps:
  assumes "web_inv v" and "GinServer.ctx_done v = Some v'"
  shows "web_inv v' \<and> srv (gw v') \<noteq> None \<and> is_shut v' \<and> srv (gw v) \<noteq> None"
  using ctx_done_inv [OF assms] assms(2)
  by (auto simp: GinServer.ctx_done_def is_shut_def Shutdown_def set_srv_def split: option.splits watch_pc.splits)

text \<open>Two worlds that differ by steps in the background only.\<close>

definition same_others :: "'tx app_world \<Rightarrow> 'tx app_world \<Rightarrow> bool" where
  "same_others w w' \<longleftrightarrow>
     w_ms w' = w_ms w \<and> w_ora w' = w_ora w \<and> w_bb w' = w_bb w \<and> w_otel w' = w_otel w \<and> w_mail w' = w_mail w \<and> w_sms w' = w_sms w \<and>
     (web_inv (w_web w) \<longrightarrow> web_inv (w_web w') \<and> (srv (gw (w_web w')) = None \<longleftrightarrow> srv (gw (w_web w)) = None) \<and>
        (is_shut (w_web w) \<longrightarrow> is_shut (w_web w'))) \<and>
     (Postgres.pool_inv (pg_core (w_pg w)) \<longrightarrow> Postgres.pool_inv (pg_core (w_pg w'))) \<and> (still (w_pg w) \<longrightarrow> still (w_pg w')) \<and> late (w_pg w') = late (w_pg w)"

definition bg_rel :: "'tx answers \<Rightarrow> 'tx app_world \<Rightarrow> 'tx app_world \<Rightarrow> bool" where
  "bg_rel a w w' \<longleftrightarrow> same_others w w' \<and>
     (life_inv (a_mq a) (w_mq w) \<longrightarrow> life_inv (a_mq a) (w_mq w') \<and> same_mq (w_mq w) (w_mq w'))"

lemma bg_rel_refl: "bg_rel a w w"
  by (simp add: bg_rel_def same_others_def same_mq_def)

lemma bg_rel_trans: "bg_rel a w w' \<Longrightarrow> bg_rel a w' w'' \<Longrightarrow> bg_rel a w w''"
  by (auto simp: bg_rel_def same_others_def same_mq_def)

lemma bg_exec_rel: "bg_rel a w (bg_exec a e w)"
proof (cases e)
  case (MqGo i ok)
  then show ?thesis using mq_go_keeps [of "a_mq a" "w_mq w" i ok] by (simp add: bg_rel_def same_others_def del: life_sched.simps)
next
  case (WebListen sock)
  then show ?thesis
    using listen_keeps [of "w_web w" sock] by (auto simp: bg_rel_def same_others_def same_mq_def split: option.split)
next
  case WebCtxDone
  then show ?thesis
    using ctx_done_keeps [of "w_web w"] by (auto simp: bg_rel_def same_others_def same_mq_def split: option.split)
next
  case (PgGo e)
  then show ?thesis
    using pg_bg_pool [of "w_pg w" e] pg_bg_still [of "w_pg w" e] pg_bg_late [of e "w_pg w"]
    by (simp add: bg_rel_def same_others_def same_mq_def del: pg_bg.simps)
qed

lemma bg_fold_rel: "bg_rel a w (fold (bg_exec a) es w)"
proof (induction es arbitrary: w)
  case (Cons e es)
  show ?case using bg_rel_trans [OF bg_exec_rel Cons.IH] by simp
qed (simp add: bg_rel_refl)

lemma background_rel: "bg_rel a w (background a w)"
proof (cases "w_bg w")
  case (Cons es ess)
  have "bg_rel a w (w\<lparr>w_bg := ess\<rparr>)" by (simp add: bg_rel_def same_others_def same_mq_def)
  from bg_rel_trans [OF this bg_fold_rel] show ?thesis using Cons by (simp add: background_def)
qed (simp add: background_def bg_rel_refl)

lemma bg_wf: "bg_rel a w w' \<Longrightarrow> world_wf a w \<Longrightarrow> world_wf a w'"
  by (simp add: bg_rel_def same_others_def world_wf_def mq_wf_def same_mq_def)

lemma bg_idle: "bg_rel a w w' \<Longrightarrow> world_wf a w \<Longrightarrow> idle_service i w \<Longrightarrow> idle_service i w'"
  by (cases i) (auto simp: bg_rel_def same_others_def world_wf_def mq_wf_def same_mq_def)

lemma bg_clean: "bg_rel a w w' \<Longrightarrow> world_wf a w \<Longrightarrow> clean_service i w \<Longrightarrow> clean_service i w'"
  by (cases i) (auto simp: bg_rel_def same_others_def world_wf_def mq_wf_def same_mq_def)

subsection \<open>The laws\<close>

lemma mq_start_keeps:
  assumes "mq_wf a l" and "gos l = []"
  shows "mq_wf a (snd (life_Start (a_mq a) l))" "fst (life_Start (a_mq a) l) \<noteq> None \<Longrightarrow> gos (snd (life_Start (a_mq a) l)) = []"
proof -
  have "quiet l" using assms by (simp add: quiet_def mq_wf_def)
  then show "mq_wf a (snd (life_Start (a_mq a) l))" using start_inv [of "a_mq a" l] assms(1) by (simp add: mq_wf_def life_Start_eq)
qed (use assms(2) in \<open>simp add: life_Start_def Let_def split: if_splits\<close>)

lemma hang_up_inv: "life_inv c l \<Longrightarrow> life_inv c (mq_hang_up l)"
  by (auto simp: life_inv_defs mq_hang_up_def split: option.splits if_splits)

lemma others_trans: "same_others w w' \<Longrightarrow> same_others w' w'' \<Longrightarrow> same_others w w''"
  by (auto simp: same_others_def)

lemma others_mq [simp]: "same_others w (w'\<lparr>w_mq := l\<rparr>) = same_others w w'" "same_others (w\<lparr>w_mq := l\<rparr>) w' = same_others w w'"
  by (simp_all add: same_others_def)

lemma mq_Stop_keeps:
  assumes "mq_wf a (w_mq w)"
  shows "same_others w (mq_Stop a w) \<and> mq_wf a (w_mq (mq_Stop a w)) \<and> (gos (w_mq (mq_Stop a w)) = [] \<or> isStopped (core (w_mq (mq_Stop a w))))"
proof -
  let ?l = "w_mq w" and ?l1 = "Stop_cancel (a_mq a) (w_mq w)"
  let ?w1 = "w\<lparr>w_mq := ?l1\<rparr>"
  have i1: "life_inv (a_mq a) ?l1" using step_inv [OF life_step.cancel] assms by (simp add: mq_wf_def)
  show ?thesis
  proof (cases "RabbitMQ.Disabled (RabbitMQ.config (a_mq a))")
    case True
    then have "gos ?l = []" using assms by (simp add: mq_wf_def life_inv_def active_def split: if_splits)
    then have "stopping ?l1 = 0" "taken (core ?l1) = {}" "gos ?l1 = []" using True assms by (simp_all add: mq_wf_def Stop_cancel_def)
    then show ?thesis using True i1 bg_rel_refl [of a w] by (simp add: mq_Stop_def mq_wf_def bg_rel_def)
  next
    case False
    let ?w2 = "background a ?w1"
    let ?w3 = "background a (?w2\<lparr>w_mq := Stop_take (w_mq ?w2)\<rparr>)"
    have st: "mq_Stop a w = ?w3\<lparr>w_mq := mq_hang_up (w_mq ?w3)\<rparr>" using False by (simp add: mq_Stop_def Let_def)
    have r2: "life_inv (a_mq a) (w_mq ?w2)" "stopping (w_mq ?w2) = 1" "same_others w ?w2"
      using background_rel [of a ?w1] i1 False assms by (simp_all add: bg_rel_def same_mq_def mq_wf_def Stop_cancel_def)
    have "life_inv (a_mq a) (Stop_take (w_mq ?w2))" using inner_inv [OF inner_step.lock] r2 by simp
    then have r3: "life_inv (a_mq a) (w_mq ?w3)" "stopping (w_mq ?w3) = 0" "isStopped (core (w_mq ?w3))" "same_others w ?w3"
      using background_rel [of a "?w2\<lparr>w_mq := Stop_take (w_mq ?w2)\<rparr>"] r2(2) others_trans [OF r2(3)]
      by (simp_all add: bg_rel_def same_mq_def Stop_take_def Stop_locked_def)
    show ?thesis unfolding st using r3 hang_up_inv [OF r3(1)] by (simp add: mq_wf_def mq_hang_up_def)
  qed
qed

lemma web_Start_keeps:
  "web_inv v \<Longrightarrow> web_inv (GinServer.Start v)" "web_inv (w_web w) \<Longrightarrow> web_inv (snd (GinServer.Stop e (w_web w))) \<and>
     (srv (gw (snd (GinServer.Stop e (w_web w)))) = None \<or> is_shut (snd (GinServer.Stop e (w_web w))))"
  using server_Start_inv [of v] server_Stop_inv [of "w_web w" e]
  by (simp_all add: GinServer.Stop_def is_shut_def Shutdown_def set_srv_def split: option.split)

lemmas lib_keeps = ms_keeps ora_keeps live_Start_keeps live_Stop_keeps bb_keeps otel_keeps mail_keeps sms_keeps mq_start_keeps web_Start_keeps

lemma raw_start_wf:
  "world_wf a w \<Longrightarrow> idle_service i w \<Longrightarrow> world_wf a (snd (svc_Start (raw_service a i) w))"
  by (cases i) (simp_all add: world_wf_def lib_keeps split_beta Let_def)

lemma raw_start_idle:
  "j \<noteq> i \<Longrightarrow> idle_service j w \<Longrightarrow> idle_service j (snd (svc_Start (raw_service a i) w))"
  by (cases i; cases j; simp add: split_beta Let_def)

lemma raw_start_fails:
  "tidy_service i \<Longrightarrow> world_wf a w \<Longrightarrow> idle_service i w \<Longrightarrow> fst (svc_Start (raw_service a i) w) \<noteq> None \<Longrightarrow>
   clean_service i (snd (svc_Start (raw_service a i) w))"
  by (cases i) (auto simp: tidy_service_def world_wf_def ms_keeps(4) bb_keeps(4) mq_start_keeps(2) split_beta Let_def)

lemma others_wf: "same_others w w' \<Longrightarrow> world_wf a w \<Longrightarrow> mq_wf a (w_mq w') \<Longrightarrow> world_wf a w'"
  by (simp add: same_others_def world_wf_def)

lemma others_clean: "same_others w w' \<Longrightarrow> i \<noteq> MessageQueue \<Longrightarrow> world_wf a w \<Longrightarrow> clean_service i w \<Longrightarrow> clean_service i w'"
  by (cases i) (auto simp: same_others_def world_wf_def)

lemma raw_stop_wf: "world_wf a w \<Longrightarrow> world_wf a (snd (svc_Stop (raw_service a i) w))"
proof (cases i)
  case MessageQueue
  assume "world_wf a w"
  then show ?thesis using MessageQueue mq_Stop_keeps [of a w] others_wf [of w "mq_Stop a w" a] by (simp add: world_wf_def)
qed (simp_all add: world_wf_def lib_keeps split_beta Let_def)

lemma raw_stop_other:
  assumes "j \<noteq> i" and "world_wf a w" and "clean_service j w"
  shows "clean_service j (snd (svc_Stop (raw_service a i) w))"
proof (cases i)
  case MessageQueue
  then show ?thesis using mq_Stop_keeps [of a w] others_clean [of w "mq_Stop a w" j a] assms by (simp add: world_wf_def)
qed (use assms in \<open>cases j; simp add: split_beta Let_def\<close>)+

lemma raw_stop_own: "world_wf a w \<Longrightarrow> clean_service i (snd (svc_Stop (raw_service a i) w))"
  by (cases i) (simp_all add: world_wf_def lib_keeps mq_Stop_keeps split_beta Let_def)

lemma clean_owned:
  assumes "world_wf a w" and "clean_service i w"
  shows "owned i w = {} \<or> i = PostgreSql \<and> late (w_pg w)"
proof (cases i)
  case MessageQueue
  show ?thesis
  proof (cases "gos (w_mq w) = []")
    case True
    then show ?thesis using MessageQueue assms by (simp add: world_wf_def mq_wf_def life_inv_def idle_inv_def)
  next
    case False
    then have "isStopped (core (w_mq w))" "mq_wf a (w_mq w)" using MessageQueue assms by (auto simp: world_wf_def)
    then have "RabbitMQ.opened (core (w_mq w)) \<subseteq> RabbitMQ.held (gpc (last (gos (w_mq w))))"
      using False by (auto simp: mq_wf_def life_inv_def run_inv_def loaded_def mq_inv_def)
    then show ?thesis using last_in_set [OF False] MessageQueue by auto
  qed
next
  case WebServer
  then show ?thesis
    using assms by (auto simp: world_wf_def web_inv_def is_shut_def split: option.splits listen_pc.splits if_splits)
next
  case PostgreSql
  then show ?thesis using assms by (auto simp: world_wf_def Postgres.pool_inv_def still_def)
qed (use assms in simp_all)

lemma idle_clean_service: "idle_service i w \<Longrightarrow> clean_service i w"
  by (cases i) simp_all

interpretation lib: service_set "lib_service a" idle_service clean_service "world_wf a" tidy_service for a
proof unfold_locales
  fix i j w
  note bg = background_rel [of a w]
  show "idle_service i w \<Longrightarrow> world_wf a w \<Longrightarrow> clean_service i w" by (rule idle_clean_service)
  show "world_wf a w \<Longrightarrow> idle_service i w \<Longrightarrow> world_wf a (snd (svc_Start (lib_service a i) w))"
    using bg_wf [OF bg] bg_idle [OF bg] by (simp add: lib_service_def Let_def raw_start_wf)
  show "j \<noteq> i \<Longrightarrow> world_wf a w \<Longrightarrow> idle_service j w \<Longrightarrow> idle_service j (snd (svc_Start (lib_service a i) w))"
    using bg_idle [OF bg] by (simp add: lib_service_def Let_def raw_start_idle)
  show "tidy_service i \<Longrightarrow> world_wf a w \<Longrightarrow> idle_service i w \<Longrightarrow> fst (svc_Start (lib_service a i) w) \<noteq> None \<Longrightarrow>
      clean_service i (snd (svc_Start (lib_service a i) w))"
    using bg_wf [OF bg] bg_idle [OF bg] by (simp add: lib_service_def Let_def raw_start_fails)
  show "world_wf a w \<Longrightarrow> world_wf a (snd (svc_Stop (lib_service a i) w))"
    using bg_wf [OF bg] by (simp add: lib_service_def Let_def raw_stop_wf)
  show "j \<noteq> i \<Longrightarrow> world_wf a w \<Longrightarrow> clean_service j w \<Longrightarrow> clean_service j (snd (svc_Stop (lib_service a i) w))"
    using bg_wf [OF bg] bg_clean [OF bg] by (simp add: lib_service_def Let_def raw_stop_other)
  show "world_wf a w \<Longrightarrow> clean_service i (snd (svc_Stop (lib_service a i) w))"
    using bg_wf [OF bg] by (simp add: lib_service_def Let_def raw_stop_own)
qed

subsection \<open>Properties\<close>

record 'tx configs =
  c_ms :: ConfigMSDB
  c_ora :: ConfigOracleDB
  c_pg :: ConfigPostgreSQL
  c_notify :: string
  c_file :: string
  c_tx :: 'tx
  c_otel :: ConfigOtello
  c_mail :: ConfigMailSender
  c_sms :: ConfigSMSC
  c_web :: ConfigGinWeb

text \<open>\<open>ess\<close> are the steps the goroutines will take in the background.\<close>

definition new_world :: "'tx configs \<Rightarrow> (string \<Rightarrow> duration option) \<Rightarrow> bg_event list list \<Rightarrow> 'tx app_world" where
  "new_world cf pd ess =
     \<lparr>w_ms = NewMsSQL (c_ms cf), w_ora = NewOracleDB (c_ora cf), w_pg = new_live (c_pg cf) (c_notify cf), w_bb = NewBBolt (c_file cf) (c_tx cf),
      w_otel = NewOtello (c_otel cf), w_mail = new_mail (c_mail cf),
      w_sms = NewSMSCenter pd (c_sms cf), w_mq = new_life, w_web = new_web (c_web cf), w_bg = ess\<rparr>"

text \<open>What the application does at each tick: it sends mails and short messages, if it has the services for it.\<close>

definition send_mail :: "'tx answers \<Rightarrow> string \<times> string \<times> string \<times> string \<times> string \<Rightarrow> 'tx app_world \<Rightarrow> 'tx app_world" where
  "send_mail a m w = (case m of (f, t, txt, subj, ty) \<Rightarrow> w\<lparr>w_mail := snd (MailSender.SendMessage (a_mail a) f t txt subj ty (w_mail w))\<rparr>)"

definition send_sms :: "'tx answers \<Rightarrow> string \<times> string \<times> string \<Rightarrow> 'tx app_world \<Rightarrow> 'tx app_world" where
  "send_sms a m w = (case m of (f, t, txt) \<Rightarrow> w\<lparr>w_sms := fst (snd (Smsc.SendMessage (a_select a) (a_sms a) f t txt (w_sms w) ()))\<rparr>)"

definition work ::
    "'tx answers \<Rightarrow> service_id list \<Rightarrow> (string \<times> string \<times> string \<times> string \<times> string) list \<Rightarrow> (string \<times> string \<times> string) list \<Rightarrow>
     'tx app_world \<Rightarrow> 'tx app_world" where
  "work a is mails smss w =
     fold (send_sms a) (if SmsCentre \<in> set is then smss else []) (fold (send_mail a) (if Mail \<in> set is then mails else []) (background a w))"

text \<open>An application that starts and stops the services \<open>is\<close>.\<close>

definition lib_app ::
    "'tx answers \<Rightarrow> service_id list \<Rightarrow> duration \<Rightarrow> (string \<times> string \<times> string \<times> string \<times> string) list \<Rightarrow> (string \<times> string \<times> string) list \<Rightarrow>
     'tx app_world Application" where
  "lib_app a is d mails smss =
     \<lparr>app_Start = (\<lambda>w. (map (lib_service a) is, w)), app_Stop = (\<lambda>w. (map (Some \<circ> lib_service a) is, w)),
      OnAppBeforeInitServices = None, OnAppAfterInitServices = None, GetProcessingFunc = Some (\<lambda>w. ((Some (work a is mails smss), d), w)),
      OnAppRecover = None\<rparr>"

lemmas new_services = NewMsSQL_def NewOracleDB_def new_live_still NewBBolt_def NewOtello_def NewSMSCenter_def

lemma new_world_wf: "world_wf a (new_world cf pd ess)"
proof -
  have "mq_wf a new_life" using life_inv_new by (simp add: mq_wf_def new_life_def started_def)
  then show ?thesis
    by (simp add: world_wf_def new_world_def otel_wf_def new_services new_mail_ok one_session_def web_inv_new)
qed

lemma new_world_idle: "idle_service i (new_world cf pd ess)"
  by (cases i) (simp_all add: new_world_def new_services new_mail_ok new_life_def new_web_def NewGinWeb_def)

lemma send_mail_keeps:
  "world_wf a w \<Longrightarrow> world_wf a (send_mail a m w)" "i \<noteq> Mail \<Longrightarrow> idle_service i w \<Longrightarrow> idle_service i (send_mail a m w)"
  using SendMessage_ok [of "fst (w_mail w)" "snd (w_mail w)" "a_mail a"]
  by (cases m, simp add: send_mail_def world_wf_def) (cases m; cases i; simp add: send_mail_def)

lemma send_sms_keeps:
  "world_wf a w \<Longrightarrow> world_wf a (send_sms a m w)" "i \<noteq> SmsCentre \<Longrightarrow> idle_service i w \<Longrightarrow> idle_service i (send_sms a m w)"
  using SendMessage_one_session [of "w_sms w" "a_select a" "a_sms a"]
  by (cases m, simp add: send_sms_def world_wf_def) (cases m; cases i; simp add: send_sms_def)

text \<open>Only the services \<open>is\<close> are used.\<close>

definition uses :: "'tx answers \<Rightarrow> service_id list \<Rightarrow> 'tx app_world \<Rightarrow> 'tx app_world \<Rightarrow> bool" where
  "uses a is w w' \<longleftrightarrow> (world_wf a w \<longrightarrow> world_wf a w' \<and> (\<forall>i. i \<notin> set is \<longrightarrow> idle_service i w \<longrightarrow> idle_service i w'))"

lemma uses_trans: "uses a is w w' \<Longrightarrow> uses a is w' w'' \<Longrightarrow> uses a is w w''"
  by (simp add: uses_def)

lemma uses_fold: "(\<And>m w. m \<in> set ms \<Longrightarrow> uses a is w (f m w)) \<Longrightarrow> uses a is w (fold f ms w)"
proof (induction ms arbitrary: w)
  case (Cons m ms)
  then show ?case using uses_trans [of a "is" w "f m w"] by simp
qed (simp add: uses_def)

lemma uses_one:
  assumes "k \<in> set is" and "world_wf a w \<Longrightarrow> world_wf a w'" and "\<And>i. i \<noteq> k \<Longrightarrow> idle_service i w \<Longrightarrow> idle_service i w'"
  shows "uses a is w w'"
  unfolding uses_def using assms by metis

lemma uses_mail: "uses a is w (fold (send_mail a) (if Mail \<in> set is then mails else []) w)"
  by (rule uses_fold) (auto split: if_splits intro!: uses_one [where k = Mail] send_mail_keeps)

lemma uses_sms: "uses a is w (fold (send_sms a) (if SmsCentre \<in> set is then smss else []) w)"
  by (rule uses_fold) (auto split: if_splits intro!: uses_one [where k = SmsCentre] send_sms_keeps)

lemma work_keeps: "uses a is w (work a is mails smss w)"
proof -
  have "uses a is w (background a w)" using bg_wf [OF background_rel] bg_idle [OF background_rel] by (auto simp: uses_def)
  from uses_trans [OF uses_trans [OF this uses_mail] uses_sms] show ?thesis by (simp add: work_def)
qed

lemma tick_loop_keeps: "tick_loop (work a is mails smss) es w = Some w' \<Longrightarrow> uses a is w w'"
proof (induction "work a is mails smss" es w rule: tick_loop.induct)
  case (2 es w)
  then show ?case using uses_trans [OF work_keeps] by (metis tick_loop.simps(2))
qed (auto simp: uses_def)

text \<open>A clean service has nothing open, now and after any steps in the background.\<close>

lemma clean_stays:
  assumes "world_wf a w" and "clean_service i w"
  shows "owned i (fold (bg_exec a) bs w) = {} \<or> i = PostgreSql \<and> late (w_pg w)"
proof -
  have "late (w_pg (fold (bg_exec a) bs w)) = late (w_pg w)" using bg_fold_rel [of a w bs] by (simp add: bg_rel_def same_others_def)
  then show ?thesis using clean_owned [OF bg_wf [OF bg_fold_rel assms(1)] bg_clean [OF bg_fold_rel assms], of bs] by simp
qed

text \<open>
  C7: An application of the library's services leaves nothing open.  Whatever the drivers and libraries answer, in whatever order the services are
  started, whatever the goroutines of the message queue, of the web server and of PostgreSQL (listener, pings, restarts) do meanwhile, and whatever is sent at each tick:
  when the run ends, every connection, pool, file, provider, session and socket is closed but those a goroutine of the first two is about to close, and so it stays
  whatever the goroutines do next; when a start fails, the same holds of every service except possibly the failing one, and of that one too if it is tidy.  The exception is
  PostgreSQL when, at the moment it was stopped, a restart was asleep or a ping had already found its pool: such a restart opens a pool again
  (\<open>stop_during_restart_revives\<close>).
\<close>
theorem controller_leaves_nothing_open:
  assumes "distinct is"
  shows "case Run (NewAppControllerV3 (lib_app a is d mails smss)) es (new_world cf pd ess) of
      Returned w \<Rightarrow> \<forall>i bs. owned i (fold (bg_exec a) bs w) = {} \<or> i = PostgreSql \<and> late (w_pg w)
    | Crashed err w \<Rightarrow> \<exists>f \<in> set is. \<forall>i bs. i \<noteq> f \<or> tidy_service i \<longrightarrow> owned i (fold (bg_exec a) bs w) = {} \<or> i = PostgreSql \<and> late (w_pg w)
    | Recovered w \<Rightarrow> False
    | Running \<Rightarrow> True"
proof -
  let ?w = "new_world cf pd ess"
  let ?v = "NewAppControllerV3 (lib_app a is d mails smss)"
  have init: "initServices ?v ?w = init_loop [] (map (lib_service a) is) ?w"
    by (simp add: initServices_def NewAppControllerV3_def lib_app_def)
  show ?thesis
  proof (cases "init_loop [] (map (lib_service a) is) ?w")
    case (Finished w1)
    let ?v' = "?v\<lparr>processingFunc := Some (work a is mails smss), processingDuration := d, quit := Some 0\<rparr>"
    have w1: "world_wf a w1" "\<And>i. i \<notin> set is \<Longrightarrow> idle_service i w1"
      using lib.init_loop_finished [of a "[]" "is" ?w w1] Finished assms by (simp_all add: new_world_wf new_world_idle)
    have run: "Run ?v es ?w = (case doProcess ?v' es w1 of None \<Rightarrow> Running | Some w2 \<Rightarrow> Returned (deinit_loop (map (Some \<circ> lib_service a) is) w2))"
      using Finished init by (simp add: Run_def load_config_def call_hook_def set_processing_def deInitServices_def
          NewAppControllerV3_def lib_app_def Let_def cong: option.case_cong)
    show ?thesis
    proof (cases "doProcess ?v' es w1")
      case (Some w2)
      have "tick_loop (work a is mails smss) es w1 = Some w2 \<or> w2 = w1" using Some by (auto simp: doProcess_def split: if_splits)
      then have "uses a is w1 w2" using tick_loop_keeps [of a "is" mails smss es w1 w2] by (auto simp: uses_def)
      then have w2: "world_wf a w2" "\<And>i. i \<notin> set is \<Longrightarrow> clean_service i w2" using w1 idle_clean_service by (auto simp: uses_def)
      then show ?thesis using run Some lib.deinit_loop_clean [OF w2(1), of "is"] clean_stays by (simp add: run) blast
    qed (simp add: run)
  next
    case (Panicked err w1)
    then have "world_wf a w1 \<and> (\<exists>f \<in> set is. \<forall>i. i \<noteq> f \<or> tidy_service i \<longrightarrow> clean_service i w1)"
      using lib.init_loop_clean [of a "[]" "is" ?w err w1] assms by (simp add: new_world_wf new_world_idle)
    then have "\<exists>f \<in> set is. \<forall>i bs. i \<noteq> f \<or> tidy_service i \<longrightarrow> owned i (fold (bg_exec a) bs w1) = {} \<or> i = PostgreSql \<and> late (w_pg w1)"
      using clean_stays by blast
    then show ?thesis
      using Panicked init by (simp add: Run_def load_config_def call_hook_def raise_def NewAppControllerV3_def lib_app_def)
  qed
qed

definition demo_sms :: "unit gosmpp" where
  "demo_sms = \<lparr>newSession = (\<lambda>_ w. ((Some 0, None), w)), closeSession = (\<lambda>_ w. (None, w)), setAddress = (\<lambda>_. None),
     isGSM7 = (\<lambda>_. True), setLongMessage = (\<lambda>_ _. None), splitParts = (\<lambda>t _. Inr [t]), submit = (\<lambda>_ _ w. ((None, []), w)), wait_for = (\<lambda>_ w. ([], w))\<rparr>"

definition demo_answers :: "sql_error option \<Rightarrow> unit answers" where
  "demo_answers ping =
     \<lparr>a_sql = \<lparr>sqlOpen = None, pings = (\<lambda>_. None), closeErr = None\<rparr>, a_ora = \<lparr>sqlOpen = None, pings = (\<lambda>_. ping), closeErr = None\<rparr>,
      a_url = (\<lambda>_ _ _ _ _ _. ''url''),
      a_pg = \<lparr>parseConfig = (\<lambda>_. Inl ''no dsn''), newWithConfig = (\<lambda>_. None), acquire = None, exec = (\<lambda>_. None), pingErr = None\<rparr>,
      a_bolt = \<lparr>boltOpen = (\<lambda>_. Inr ()), boltClose = None\<rparr>,
      a_otel = \<lparr>labels = [], newClient = (\<lambda>_ _. None), closeConn = None, resourceNew = None, traceExporter = None, logExporter = None, metricExporter = None,
        shutdownErr = (\<lambda>_. None)\<rparr>,
      a_mail = demo_mail_env, a_sms = demo_sms, a_select = first_ready, a_mq = demo_client, a_shutErr = None,
      err_text = (\<lambda>_. ''sql''), mail_text = (\<lambda>_. ''mail''), mq_text = (\<lambda>_. ''mq'')\<rparr>"

text \<open>The message queue connects before the web server starts, which binds its address before the first tick; then the application is told to quit.\<close>

definition demo_bg :: "bg_event list list" where
  "demo_bg = [[], replicate 11 (MqGo 0 True), [WebListen None, WebListen (Some 7), WebListen None]]"

lemma init_loop_ok: "(\<And>v w. v \<in> set vs \<Longrightarrow> fst (svc_Start v w) = None) \<Longrightarrow> \<exists>w'. init_loop up vs w = Finished w'"
proof (induction vs arbitrary: up w)
  case (Cons v vs)
  then obtain w1 where "svc_Start v w = (None, w1)" by (metis list.set_intros(1) prod.collapse)
  moreover obtain w' where "init_loop (up @ [v]) vs w1 = Finished w'" using Cons by (meson list.set_intros(2))
  ultimately have "init_loop up (v # vs) w = Finished w'" by simp
  then show ?case ..
qed simp

lemma demo_starts:
  assumes "i \<in> {MessageQueue, WebServer}"
  shows "fst (svc_Start (lib_service (demo_answers None) i) w) = None"
proof -
  have "fst (life_Start (a_mq (demo_answers None)) l) = None" for l
    by (simp add: demo_answers_def life_Start_def demo_client_def demo_config_def NewRabbitMQ_def Let_def)
  then show ?thesis using assms by (auto simp: lib_service_def Let_def case_prod_beta)
qed

theorem controller_leaves_nothing_open_witness:
  "\<forall>cf pd. \<exists>w. Run (NewAppControllerV3 (lib_app (demo_answers None) [MessageQueue, WebServer] 1 [] [])) [Tick, Quit] (new_world cf pd demo_bg) =
     Returned w \<and> owned MessageQueue w = {} \<and> owned WebServer w = {}"
proof (intro allI)
  fix cf pd
  let ?is = "[MessageQueue, WebServer]"
  let ?r = "Run (NewAppControllerV3 (lib_app (demo_answers None) ?is 1 [] [])) [Tick, Quit] (new_world cf pd demo_bg)"
  obtain w1 where "init_loop [] (map (lib_service (demo_answers None)) ?is) (new_world cf pd demo_bg) = Finished w1"
    using init_loop_ok [of "map (lib_service (demo_answers None)) ?is"] demo_starts by fastforce
  then obtain w where w: "?r = Returned w" by (simp add: app_defs lib_app_def)
  have "distinct ?is" by simp
  from controller_leaves_nothing_open [OF this, of "demo_answers None" 1 "[]" "[]" "[Tick, Quit]" cf pd demo_bg]
  have "\<forall>i. owned i (fold (bg_exec (demo_answers None)) [] w) = {} \<or> i = PostgreSql \<and> late (w_pg w)" unfolding w by (simp only: run_result.case) blast
  then have "owned MessageQueue w = {}" "owned WebServer w = {}" by (metis fold_simps(1) service_id.distinct)+
  then show "\<exists>w. ?r = Returned w \<and> owned MessageQueue w = {} \<and> owned WebServer w = {}" using w by blast
qed

text \<open>The controller does not stop the service whose start failed: an Oracle service that was opened and then not reached stays open.\<close>

lemma failed_oracle_start_leaks:
  assumes "\<not> InitWithoutPing (c_ora cf)"
  shows "\<exists>w. Run (NewAppControllerV3 (lib_app (demo_answers (Some e)) [Oracle] d [] [])) [] (new_world cf pd []) = Crashed ''sql'' w \<and>
    owned Oracle w \<noteq> {}"
  using assms by (simp add: app_defs lib_app_def lib_service_def background_def demo_answers_def new_world_def NewOracleDB_def ora_doStart_def Let_def)

end
