(* ===== verification/MqWorkers.thy ===== *)
theory MqWorkers
  imports RabbitMQ
begin

section \<open>The workers of the consumers\<close>

text \<open>
  The goroutines that \<^verbatim>\<open>initConsumer\<close> of \<^verbatim>\<open>mq/rabbitmq/rabbitMQ.go\<close> starts after each connection: one dispatcher that moves deliveries into a
  buffered channel and closes it at the end, and as many workers as configured, which take a delivery, run the consumer function and settle
  it.  The dispatcher does not get the channel of deliveries it is started for: when it begins to run it reads the field \<^verbatim>\<open>r.mqMessages\<close>,
  which may by then have been set to nil by a lost connection or \<^verbatim>\<open>Stop\<close>, or to the channel of a newer connection.  So the model has all consumers
  of a client (\<open>pools\<close>), all channels of deliveries (\<open>chans\<close>, by number) and the shared field.  All steps interleave freely.  \<open>arrived\<close> and
  \<open>handled\<close> are ghosts: what the broker delivered on a channel, and what the workers of a consumer did, in order.
\<close>

datatype 'm worker_state = Waiting | Busy 'm | Left

text \<open>A dispatcher that has not begun, one that ranges over a channel or over nil, and one that has ended.\<close>

datatype dispatcher = DNew | Ranging "nat option" | Gone nat

record 'm chan =
  queued :: "'m list"
  ended :: bool
  arrived :: "'m list"

record 'm pool =
  disp :: dispatcher
  hand :: "'m option"
  workCh :: "'m list"
  workCh_closed :: bool
  workers :: "'m worker_state list"
  handled :: "('m \<times> settlement) list"

record 'm hub =
  chans :: "'m chan list"
  messages :: "nat option"
  pools :: "'m pool list"

definition new_hub :: "'m hub" where
  "new_hub = \<lparr>chans = [], messages = None, pools = []\<rparr>"

definition new_pool :: "int \<Rightarrow> 'm pool" where
  "new_pool concurrencyCount =
     \<lparr>disp = DNew, hand = None, workCh = [], workCh_closed = False,
      workers = replicate (nat (if concurrencyCount < 1 then 1 else concurrencyCount)) Waiting, handled = []\<rparr>"

definition set_pool :: "nat \<Rightarrow> 'm pool \<Rightarrow> 'm hub \<Rightarrow> 'm hub" where
  "set_pool i p h = h\<lparr>pools := (pools h)[i := p]\<rparr>"

definition set_chan :: "nat \<Rightarrow> 'm chan \<Rightarrow> 'm hub \<Rightarrow> 'm hub" where
  "set_chan k c h = h\<lparr>chans := (chans h)[k := c]\<rparr>"

text \<open>
  What happens from outside: a connection stores its channel of deliveries and starts its goroutines (the end of \<^verbatim>\<open>initConsumer\<close>), the field is set to nil
  (\<^verbatim>\<open>closeConnLocked\<close>, \<^verbatim>\<open>Stop\<close>), the broker delivers, a channel is closed.  What dispatcher \<open>i\<close> does, and what worker \<open>j\<close> of consumer \<open>i\<close> does.
\<close>

datatype 'm outside = Consume int | ClearMessages | Deliver nat 'm | EndOfDeliveries nat
datatype disp_event = Begin | Fetch | Hand | CloseWork
datatype worker_event = Pick | Finish "bool option" | Leave
datatype 'm hub_event = Outside "'m outside" | Disp nat disp_event | Work nat nat worker_event

definition outside_step :: "'m outside \<Rightarrow> 'm hub \<Rightarrow> 'm hub option" where
  "outside_step e h =
     (case e of
        Consume n \<Rightarrow>
          Some (h\<lparr>chans := chans h @ [\<lparr>queued = [], ended = False, arrived = []\<rparr>], messages := Some (length (chans h)),
                  pools := pools h @ [new_pool n]\<rparr>)
      | ClearMessages \<Rightarrow> Some (h\<lparr>messages := None\<rparr>)
      | Deliver k m \<Rightarrow>
          (if k < length (chans h) \<and> \<not> ended (chans h ! k)
           then Some (set_chan k ((chans h ! k)\<lparr>queued := queued (chans h ! k) @ [m], arrived := arrived (chans h ! k) @ [m]\<rparr>) h)
           else None)
      | EndOfDeliveries k \<Rightarrow>
          if k < length (chans h) \<and> \<not> ended (chans h ! k) then Some (set_chan k ((chans h ! k)\<lparr>ended := True\<rparr>) h) else None)"

text \<open>The buffer has one place per worker; a send on the full channel waits.  A range over nil waits for ever.\<close>

definition dispatcher_step :: "nat \<Rightarrow> disp_event \<Rightarrow> 'm hub \<Rightarrow> 'm hub option" where
  "dispatcher_step i e h =
     (let p = pools h ! i in
      case e of
        Begin \<Rightarrow> if disp p = DNew then Some (set_pool i (p\<lparr>disp := Ranging (messages h)\<rparr>) h) else None
      | Fetch \<Rightarrow>
          (case (disp p, hand p) of
             (Ranging (Some k), None) \<Rightarrow>
               (case queued (chans h ! k) of
                  m # ms \<Rightarrow> Some (set_pool i (p\<lparr>hand := Some m\<rparr>) (set_chan k ((chans h ! k)\<lparr>queued := ms\<rparr>) h))
                | [] \<Rightarrow> None)
           | _ \<Rightarrow> None)
      | Hand \<Rightarrow>
          (case hand p of
             Some m \<Rightarrow>
               if length (workCh p) < length (workers p) then Some (set_pool i (p\<lparr>hand := None, workCh := workCh p @ [m]\<rparr>) h) else None
           | None \<Rightarrow> None)
      | CloseWork \<Rightarrow>
          (case (disp p, hand p) of
             (Ranging (Some k), None) \<Rightarrow>
               if ended (chans h ! k) \<and> queued (chans h ! k) = []
               then Some (set_pool i (p\<lparr>disp := Gone k, workCh_closed := True\<rparr>) h) else None
           | _ \<Rightarrow> None))"

definition worker_step :: "nat \<Rightarrow> worker_event \<Rightarrow> 'm pool \<Rightarrow> 'm pool option" where
  "worker_step j e p =
     (if j \<ge> length (workers p) then None
      else case (workers p ! j, e) of
        (Waiting, Pick) \<Rightarrow> (case workCh p of
            m # ms \<Rightarrow> Some (p\<lparr>workCh := ms, workers := (workers p)[j := Busy m]\<rparr>)
          | [] \<Rightarrow> None)
      | (Waiting, Leave) \<Rightarrow> if workCh p = [] \<and> workCh_closed p then Some (p\<lparr>workers := (workers p)[j := Left]\<rparr>) else None
      | (Busy m, Finish res) \<Rightarrow> Some (p\<lparr>workers := (workers p)[j := Waiting], handled := handled p @ [(m, worker res)]\<rparr>)
      | _ \<Rightarrow> None)"

fun hub_exec :: "'m hub_event \<Rightarrow> 'm hub \<Rightarrow> 'm hub option" where
  "hub_exec (Outside e) h = outside_step e h"
| "hub_exec (Disp i e) h = (if i < length (pools h) then dispatcher_step i e h else None)"
| "hub_exec (Work i j e) h =
     (if i < length (pools h) then map_option (\<lambda>p. set_pool i p h) (worker_step j e (pools h ! i)) else None)"

fun internal :: "'m hub_event \<Rightarrow> bool" where
  "internal (Outside e) = False"
| "internal _ = True"

fun run_hub :: "'m hub_event list \<Rightarrow> 'm hub \<Rightarrow> 'm hub option" where
  "run_hub [] h = Some h"
| "run_hub (e # es) h = (case hub_exec e h of None \<Rightarrow> None | Some h' \<Rightarrow> run_hub es h')"

subsection \<open>Sums over lists that change in one place\<close>

lemma sum_list_change:
  fixes f :: "'a \<Rightarrow> 'b::comm_monoid_add"
  shows "i < length xs \<Longrightarrow> sum_list (map f (xs[i := x])) + f (xs ! i) = sum_list (map f xs) + f x"
proof (induction xs arbitrary: i)
  case (Cons y ys)
  show ?case
  proof (cases i)
    case (Suc n)
    then have "sum_list (map f (ys[n := x])) + f (ys ! n) = sum_list (map f ys) + f x" using Cons by simp
    then show ?thesis using Suc by (simp add: add.assoc)
  qed (simp add: ac_simps)
qed simp

lemma sum_list_add:
  fixes f :: "'a \<Rightarrow> 'b::cancel_comm_monoid_add"
  assumes "i < length xs" and "f x = f (xs ! i) + d"
  shows "sum_list (map f (xs[i := x])) = sum_list (map f xs) + d"
  using sum_list_change [OF assms(1), of f x] assms(2) by (metis add.assoc add.commute add_right_imp_eq)

lemma sum_list_same:
  fixes f :: "'a \<Rightarrow> 'b::cancel_comm_monoid_add"
  shows "i < length xs \<Longrightarrow> f x = f (xs ! i) \<Longrightarrow> sum_list (map f (xs[i := x])) = sum_list (map f xs)"
  using sum_list_add [of i xs f x 0] by simp

subsection \<open>Invariant\<close>

fun channel_of :: "dispatcher \<Rightarrow> nat option" where
  "channel_of DNew = None"
| "channel_of (Ranging k) = k"
| "channel_of (Gone k) = Some k"

fun load_of :: "'m worker_state \<Rightarrow> 'm multiset" where
  "load_of (Busy m) = {#m#}"
| "load_of _ = {#}"

definition handed :: "'m option \<Rightarrow> 'm multiset" where
  "handed h = (case h of None \<Rightarrow> {#} | Some m \<Rightarrow> {#m#})"

definition done_by :: "'m pool \<Rightarrow> 'm multiset" where
  "done_by p = mset (map fst (handled p))"

text \<open>Everything a consumer has taken from its channel.\<close>

definition load :: "'m pool \<Rightarrow> 'm multiset" where
  "load p = handed (hand p) + mset (workCh p) + sum_list (map load_of (workers p)) + done_by p"

text \<open>What the consumers that read channel \<open>k\<close> have of it, counted by \<open>f\<close>.\<close>

definition share :: "('m pool \<Rightarrow> 'm multiset) \<Rightarrow> nat \<Rightarrow> 'm pool \<Rightarrow> 'm multiset" where
  "share f k p = (if channel_of (disp p) = Some k then f p else {#})"

definition of_channel :: "('m pool \<Rightarrow> 'm multiset) \<Rightarrow> nat \<Rightarrow> 'm hub \<Rightarrow> 'm multiset" where
  "of_channel f k h = sum_list (map (share f k) (pools h))"

definition pool_inv :: "'m pool \<Rightarrow> bool" where
  "pool_inv p \<longleftrightarrow>
     workers p \<noteq> [] \<and>
     (workCh_closed p \<longleftrightarrow> (\<exists>k. disp p = Gone k)) \<and> (workCh_closed p \<longrightarrow> hand p = None) \<and>
     (Left \<in> set (workers p) \<longrightarrow> workCh_closed p \<and> workCh p = []) \<and>
     (channel_of (disp p) = None \<longrightarrow> hand p = None \<and> workCh p = [] \<and> handled p = [] \<and> set (workers p) = {Waiting})"

definition pool_placed :: "'m hub \<Rightarrow> 'm pool \<Rightarrow> bool" where
  "pool_placed h p \<longleftrightarrow>
     pool_inv p \<and> (\<forall>k. channel_of (disp p) = Some k \<longrightarrow> k < length (chans h)) \<and>
     (\<forall>k. disp p = Gone k \<longrightarrow> ended (chans h ! k) \<and> queued (chans h ! k) = [])"

definition hub_inv :: "'m hub \<Rightarrow> bool" where
  "hub_inv h \<longleftrightarrow>
     (\<forall>p\<in>set (pools h). pool_placed h p) \<and> (\<forall>k. messages h = Some k \<longrightarrow> k < length (chans h)) \<and>
     (\<forall>k<length (chans h). mset (arrived (chans h ! k)) = mset (queued (chans h ! k)) + of_channel load k h)"

lemma hub_inv_new: "hub_inv new_hub"
  by (simp add: hub_inv_def new_hub_def)

lemma left_update: "Left \<in> set (ws[j := w]) \<Longrightarrow> w \<noteq> Left \<Longrightarrow> Left \<in> set ws"
  by (metis insert_iff set_update_subset_insert subsetD)

lemma workers_load:
  "j < length (workers p) \<Longrightarrow> workers p ! j = w \<Longrightarrow>
   sum_list (map load_of ((workers p)[j := w'])) + load_of w = sum_list (map load_of (workers p)) + load_of w'"
  using sum_list_change [of j "workers p" load_of w'] by simp

lemma worker_step_pool:
  assumes "worker_step j e p = Some p'" and "pool_inv p"
  shows "pool_inv p' \<and> load p' = load p \<and> disp p' = disp p"
proof -
  have j: "j < length (workers p)" using assms(1) by (auto simp: worker_step_def split: if_splits)
  then have w: "workers p ! j \<in> set (workers p)" by simp
  note upd = workers_load [OF j refl]
  show ?thesis
  proof (cases "workers p ! j")
    case Waiting
    show ?thesis using assms j w Waiting upd [of Left] upd [of "Busy (hd (workCh p))"] left_update [of "workers p" j "Busy (hd (workCh p))"]
      by (cases e) (auto simp: worker_step_def pool_inv_def load_def done_by_def split: if_splits list.splits)
  next
    case (Busy m)
    show ?thesis using assms j w Busy upd [of Waiting] left_update [of "workers p" j Waiting]
      by (cases e) (auto simp: worker_step_def pool_inv_def load_def done_by_def ac_simps)
  next
    case Left
    then show ?thesis using assms j by (cases e) (auto simp: worker_step_def)
  qed
qed

lemma of_channel_unread: "(\<forall>p\<in>set (pools h). channel_of (disp p) \<noteq> Some k) \<Longrightarrow> of_channel f k h = {#}"
proof -
  have "(\<forall>p\<in>set ps. channel_of (disp p) \<noteq> Some k) \<Longrightarrow> sum_list (map (share f k) ps) = {#}" for ps
    by (induction ps) (simp_all add: share_def)
  then show "(\<forall>p\<in>set (pools h). channel_of (disp p) \<noteq> Some k) \<Longrightarrow> of_channel f k h = {#}" by (simp add: of_channel_def)
qed

text \<open>A consumer changes on its own, keeping what it has taken.\<close>

lemma of_channel_set_pool:
  assumes "i < length (pools h)" and "\<And>k. share f k p = share f k (pools h ! i)"
  shows "of_channel f k (set_pool i p h) = of_channel f k h"
  using sum_list_same [OF assms(1), of "share f k" p] assms(2) by (simp add: of_channel_def set_pool_def)

lemma set_pool_inv:
  assumes "hub_inv h" and "i < length (pools h)" and "pool_placed h p" and "\<And>k. share load k p = share load k (pools h ! i)"
  shows "hub_inv (set_pool i p h)"
proof -
  have "pool_placed (set_pool i p h) q \<longleftrightarrow> pool_placed h q" for q by (simp add: pool_placed_def set_pool_def)
  moreover have "q = p \<or> q \<in> set (pools h)" if "q \<in> set (pools (set_pool i p h))" for q
    using that set_update_subset_insert [of "pools h" i p] by (auto simp: set_pool_def)
  ultimately show ?thesis using assms(1,3) of_channel_set_pool [OF assms(2,4)]
    by (auto simp: hub_inv_def set_pool_def)
qed

lemma outside_step_inv:
  assumes "hub_inv h" and "outside_step e h = Some h'"
  shows "hub_inv h'"
proof (cases e)
  case (Consume n)
  have new: "pool_placed h' (new_pool n)" and none: "share load k (new_pool n) = {#}" for k
    by (auto simp: pool_placed_def pool_inv_def new_pool_def share_def)
  have h': "h' = h\<lparr>chans := chans h @ [\<lparr>queued = [], ended = False, arrived = []\<rparr>], messages := Some (length (chans h)),
      pools := pools h @ [new_pool n]\<rparr>"
    using assms(2) Consume by (simp add: outside_step_def)
  have old: "pool_placed h' p" if "p \<in> set (pools h)" for p
    using assms(1) that by (fastforce simp: hub_inv_def pool_placed_def h' nth_append)
  have unread: "of_channel load (length (chans h)) h = {#}"
    using assms(1) by (intro of_channel_unread) (fastforce simp: hub_inv_def pool_placed_def)
  show ?thesis using assms(1) new old none unread by (auto simp: hub_inv_def h' of_channel_def nth_append less_Suc_eq)
qed (use assms in \<open>auto simp: outside_step_def hub_inv_def pool_placed_def set_chan_def nth_list_update of_channel_def split: if_splits\<close>)

lemma placed: "hub_inv h \<Longrightarrow> i < length (pools h) \<Longrightarrow> pool_placed h (pools h ! i)"
  by (simp add: hub_inv_def)

text \<open>The dispatcher takes a delivery from its channel.\<close>

lemma fetch_inv:
  assumes "hub_inv h" and i: "i < length (pools h)" and p: "disp (pools h ! i) = Ranging (Some k)" "hand (pools h ! i) = None"
    and q: "queued (chans h ! k) = m # ms"
  shows "hub_inv (set_pool i ((pools h ! i)\<lparr>hand := Some m\<rparr>) (set_chan k ((chans h ! k)\<lparr>queued := ms\<rparr>) h))" (is "hub_inv ?h'")
proof -
  let ?p = "(pools h ! i)\<lparr>hand := Some m\<rparr>"
  have pl: "pool_placed h (pools h ! i)" using placed [OF assms(1) i] .
  then have k: "k < length (chans h)" using p by (simp add: pool_placed_def)
  have part: "share load k' ?p = share load k' (pools h ! i) + (if k' = k then {#m#} else {#})" for k'
    using p by (simp add: share_def load_def handed_def done_by_def)
  have sum: "of_channel load k' ?h' = of_channel load k' h + (if k' = k then {#m#} else {#})" for k'
    using sum_list_add [OF i, of "share load k'" ?p, OF part] by (simp add: of_channel_def set_pool_def set_chan_def)
  have "pool_placed ?h' ?p" using pl p by (auto simp: pool_placed_def pool_inv_def set_pool_def set_chan_def)
  moreover have "pool_placed ?h' q" if "q \<in> set (pools h)" for q
  proof -
    have pq: "pool_placed h q" using assms(1) that by (simp add: hub_inv_def)
    then have "disp q \<noteq> Gone k" using q by (auto simp: pool_placed_def)
    then show ?thesis using pq by (auto simp: pool_placed_def set_pool_def set_chan_def nth_list_update_neq)
  qed
  ultimately have "\<forall>q\<in>set (pools ?h'). pool_placed ?h' q"
    using set_update_subset_insert [of "pools h" i ?p] by (auto simp: set_pool_def set_chan_def)
  moreover have "mset (arrived (chans ?h' ! k')) = mset (queued (chans ?h' ! k')) + of_channel load k' ?h'" if "k' < length (chans h)" for k'
    using assms(1) that k q unfolding sum by (auto simp: hub_inv_def set_pool_def set_chan_def nth_list_update)
  ultimately show ?thesis using assms(1) by (simp add: hub_inv_def set_pool_def set_chan_def)
qed

lemma begin_inv:
  assumes "hub_inv h" and i: "i < length (pools h)" and p: "disp (pools h ! i) = DNew"
  shows "hub_inv (set_pool i ((pools h ! i)\<lparr>disp := Ranging (messages h)\<rparr>) h)"
proof (rule set_pool_inv [OF assms(1) i])
  have pl: "pool_placed h (pools h ! i)" using placed [OF assms(1) i] .
  have "\<forall>w\<in>set ws. w = Waiting \<Longrightarrow> sum_list (map load_of ws) = {#}" for ws :: "'a worker_state list" by (induction ws) auto
  then have ws: "set ws = {Waiting} \<Longrightarrow> sum_list (map load_of ws) = {#}" for ws :: "'a worker_state list" by blast
  show "pool_placed h ((pools h ! i)\<lparr>disp := Ranging (messages h)\<rparr>)"
    using pl p assms(1) by (auto simp: pool_placed_def pool_inv_def hub_inv_def)
  show "share load k ((pools h ! i)\<lparr>disp := Ranging (messages h)\<rparr>) = share load k (pools h ! i)" for k
    using pl p ws [of "workers (pools h ! i)"] by (simp add: share_def load_def pool_placed_def pool_inv_def handed_def done_by_def)
qed

lemma dispatcher_step_inv:
  assumes "hub_inv h" and "i < length (pools h)" and "dispatcher_step i e h = Some h'"
  shows "hub_inv h'"
proof (cases e)
  case Hand
  then obtain m where "hand (pools h ! i) = Some m" "h' = set_pool i ((pools h ! i)\<lparr>hand := None, workCh := workCh (pools h ! i) @ [m]\<rparr>) h"
    using assms(3) by (auto simp: dispatcher_step_def Let_def split: option.splits if_splits)
  then show ?thesis using placed [OF assms(1,2)]
    by (auto simp: pool_placed_def pool_inv_def share_def load_def handed_def done_by_def intro!: set_pool_inv [OF assms(1,2)])
next
  case CloseWork
  then obtain k where "disp (pools h ! i) = Ranging (Some k)" "hand (pools h ! i) = None" "ended (chans h ! k)" "queued (chans h ! k) = []"
      "h' = set_pool i ((pools h ! i)\<lparr>disp := Gone k, workCh_closed := True\<rparr>) h"
    using assms(3) by (auto simp: dispatcher_step_def Let_def split: option.splits if_splits dispatcher.splits)
  then show ?thesis using placed [OF assms(1,2)]
    by (auto simp: pool_placed_def pool_inv_def share_def load_def handed_def done_by_def intro!: set_pool_inv [OF assms(1,2)])
qed (use assms begin_inv fetch_inv in \<open>auto simp: dispatcher_step_def Let_def split: option.splits if_splits dispatcher.splits list.splits\<close>)

lemma hub_exec_inv [inv_intros]:
  assumes "hub_inv h" and "hub_exec e h = Some h'"
  shows "hub_inv h'"
proof (cases e)
  case (Work i j w)
  then obtain p where p: "i < length (pools h)" "worker_step j w (pools h ! i) = Some p" "h' = set_pool i p h"
    using assms(2) by (auto split: if_splits)
  then show ?thesis using worker_step_pool [OF p(2)] placed [OF assms(1) p(1)]
    by (auto simp: pool_placed_def share_def intro!: set_pool_inv [OF assms(1)])
qed (use assms outside_step_inv dispatcher_step_inv in \<open>auto split: if_splits\<close>)

lemma run_hub_inv: "hub_inv h \<Longrightarrow> run_hub es h = Some h' \<Longrightarrow> hub_inv h'"
  by (induction es arbitrary: h) (auto intro: hub_exec_inv split: option.splits)

subsection \<open>Progress\<close>

fun worker_left :: "'m worker_state \<Rightarrow> nat" where
  "worker_left (Busy m) = 2"
| "worker_left Waiting = 1"
| "worker_left Left = 0"

fun disp_left :: "dispatcher \<Rightarrow> nat" where
  "disp_left DNew = 2"
| "disp_left (Ranging k) = 1"
| "disp_left (Gone k) = 0"

definition pool_left :: "'m pool \<Rightarrow> nat" where
  "pool_left p = disp_left (disp p) + (case hand p of None \<Rightarrow> 0 | Some _ \<Rightarrow> 3) + 2 * length (workCh p) + sum_list (map worker_left (workers p))"

text \<open>An upper bound of the steps the goroutines can still take on their own.\<close>

definition hub_measure :: "'m hub \<Rightarrow> nat" where
  "hub_measure h = 4 * sum_list (map (\<lambda>c. length (queued c)) (chans h)) + sum_list (map pool_left (pools h))"

lemma worker_step_left:
  assumes "worker_step j e p = Some p'"
  shows "pool_left p' < pool_left p"
proof -
  have j: "j < length (workers p)" using assms by (auto simp: worker_step_def split: if_splits)
  note upd = sum_list_change [OF j, of worker_left]
  show ?thesis
  proof (cases "workers p ! j")
    case Waiting
    then show ?thesis using assms j upd [of Left] upd [of "Busy (hd (workCh p))"]
      by (cases e) (auto simp: worker_step_def pool_left_def split: if_splits list.splits)
  next
    case (Busy m)
    then show ?thesis using assms j upd [of Waiting] by (cases e) (auto simp: worker_step_def pool_left_def)
  next
    case Left
    then show ?thesis using assms j by (cases e) (auto simp: worker_step_def)
  qed
qed

lemma set_pool_measure:
  assumes "i < length (pools h)" and "pool_left p < pool_left (pools h ! i)"
  shows "hub_measure (set_pool i p h) < hub_measure h"
  using sum_list_change [OF assms(1), of pool_left p] assms(2) by (simp add: hub_measure_def set_pool_def)

lemma fetch_measure:
  assumes "i < length (pools h)" and "k < length (chans h)" and "queued (chans h ! k) = m # ms" and "hand (pools h ! i) = None"
  shows "hub_measure (set_pool i ((pools h ! i)\<lparr>hand := Some m\<rparr>) (set_chan k ((chans h ! k)\<lparr>queued := ms\<rparr>) h)) < hub_measure h"
  using sum_list_change [OF assms(1), of pool_left "(pools h ! i)\<lparr>hand := Some m\<rparr>"]
    sum_list_change [OF assms(2), of "\<lambda>c. length (queued c)" "(chans h ! k)\<lparr>queued := ms\<rparr>"] assms(3,4)
  by (simp add: hub_measure_def set_pool_def set_chan_def pool_left_def)

definition feed :: "'m hub \<Rightarrow> ('m list \<times> bool) list" where
  "feed h = map (\<lambda>c. (arrived c, ended c)) (chans h)"

lemma feed_set [simp]:
  "feed (set_pool i p h) = feed h" "feed (set_chan k ((chans h ! k)\<lparr>queued := ms\<rparr>) h) = feed h"
  by (simp_all add: feed_def set_pool_def set_chan_def map_update list_update_same_conv)
     (metis (no_types, lifting) chan.select_convs chan.update_convs list_update_id map_update)

lemma dispatcher_step_measure:
  assumes "hub_inv h" and i: "i < length (pools h)" and s: "dispatcher_step i e h = Some h'"
  shows "hub_measure h' < hub_measure h \<and> feed h' = feed h"
proof (cases e)
  case Fetch
  then obtain k m ms where "disp (pools h ! i) = Ranging (Some k)" "hand (pools h ! i) = None" "queued (chans h ! k) = m # ms"
      "h' = set_pool i ((pools h ! i)\<lparr>hand := Some m\<rparr>) (set_chan k ((chans h ! k)\<lparr>queued := ms\<rparr>) h)"
    using s by (auto simp: dispatcher_step_def Let_def split: option.splits dispatcher.splits list.splits)
  then show ?thesis using fetch_measure [OF i] placed [OF assms(1) i] by (simp add: pool_placed_def)
qed (use s in \<open>auto simp: dispatcher_step_def Let_def pool_left_def intro!: set_pool_measure [OF i] split: option.splits dispatcher.splits if_splits\<close>)

lemma internal_measure:
  assumes "hub_inv h" and "internal e" and "hub_exec e h = Some h'"
  shows "hub_measure h' < hub_measure h \<and> feed h' = feed h"
  using assms
  by (cases e) (auto intro: dispatcher_step_measure set_pool_measure worker_step_left simp: dispatcher_step_measure split: if_splits)

lemma internal_run:
  "hub_inv h \<Longrightarrow> list_all internal es \<Longrightarrow> run_hub es h = Some h' \<Longrightarrow> length es + hub_measure h' \<le> hub_measure h \<and> feed h' = feed h"
proof (induction es arbitrary: h)
  case (Cons e es)
  then obtain h1 where h1: "hub_exec e h = Some h1" "run_hub es h1 = Some h'" by (auto split: option.splits)
  then have "hub_measure h1 < hub_measure h" "feed h1 = feed h" "hub_inv h1"
    using Cons.prems internal_measure [of h e h1] hub_exec_inv by auto
  then show ?case using Cons.IH [of h1] Cons.prems(2) h1(2) by simp
qed simp

text \<open>A client whose goroutines cannot move on their own.\<close>

definition resting :: "'m hub \<Rightarrow> bool" where
  "resting h \<longleftrightarrow> (\<forall>e. internal e \<longrightarrow> hub_exec e h = None)"

lemma resting_worker: "resting h \<Longrightarrow> i < length (pools h) \<Longrightarrow> worker_step j e (pools h ! i) = None"
  unfolding resting_def by (drule spec [of _ "Work i j e"]) simp

lemma resting_dispatcher: "resting h \<Longrightarrow> i < length (pools h) \<Longrightarrow> dispatcher_step i e h = None"
  unfolding resting_def by (drule spec [of _ "Disp i e"]) simp

text \<open>No worker is busy, nothing is in the buffer or in the hand of the dispatcher.\<close>

lemma resting_pool:
  assumes "resting h" and "hub_inv h" and i: "i < length (pools h)"
  shows "\<forall>w\<in>set (workers (pools h ! i)). w = (if workCh_closed (pools h ! i) then Left else Waiting)"
    and "workCh (pools h ! i) = []" and "hand (pools h ! i) = None"
proof -
  let ?p = "pools h ! i"
  have inv: "pool_inv ?p" using placed [OF assms(2) i] by (simp add: pool_placed_def)
  note step = resting_worker [OF assms(1) i]
  have busy: "workers ?p ! j \<noteq> Busy m" if "j < length (workers ?p)" for j m
    using step [of j "Finish None"] that by (auto simp: worker_step_def)
  have pick: "workCh ?p = []" if "j < length (workers ?p)" "workers ?p ! j = Waiting" for j
    using step [of j Pick] that by (auto simp: worker_step_def split: list.splits)
  have leave: "\<not> workCh_closed ?p" if "j < length (workers ?p)" "workers ?p ! j = Waiting" for j
    using step [of j Leave] pick [OF that] that by (auto simp: worker_step_def split: if_splits)
  have left: "workCh_closed ?p \<and> workCh ?p = []" if "Left \<in> set (workers ?p)" using inv that by (auto simp: pool_inv_def)
  have "w = (if workCh_closed ?p then Left else Waiting)" if w: "w \<in> set (workers ?p)" for w
  proof -
    obtain j where "j < length (workers ?p)" "workers ?p ! j = w" using w by (auto simp: in_set_conv_nth)
    then show ?thesis using busy leave left w by (metis worker_state.exhaust)
  qed
  then show "\<forall>w\<in>set (workers ?p). w = (if workCh_closed ?p then Left else Waiting)" by blast
  have ne: "workers ?p \<noteq> []" using inv by (simp add: pool_inv_def)
  then show q: "workCh ?p = []" using busy [of 0] pick [of 0] left nth_mem [of 0 "workers ?p"] by (cases "workers ?p ! 0") auto
  show "hand ?p = None" using resting_dispatcher [OF assms(1) i, of Hand] q ne
    by (auto simp: dispatcher_step_def Let_def split: option.splits)
qed

lemma resting_load:
  assumes "resting h" and "hub_inv h" and "p \<in> set (pools h)"
  shows "load p = done_by p"
proof -
  obtain i where i: "i < length (pools h)" "p = pools h ! i" using assms(3) by (auto simp: in_set_conv_nth)
  have "\<forall>w\<in>set ws. load_of w = {#} \<Longrightarrow> sum_list (map load_of ws) = {#}" for ws :: "'a worker_state list" by (induction ws) auto
  moreover have "\<forall>w\<in>set (workers p). load_of w = {#}" using resting_pool(1) [OF assms(1,2) i(1)] i(2) by (metis load_of.simps(2,3))
  ultimately show ?thesis using resting_pool(2,3) [OF assms(1,2) i(1)] i(2) by (simp add: load_def handed_def)
qed

text \<open>A channel that a dispatcher reads is empty, and the dispatcher of a closed one has ended.\<close>

lemma resting_channel:
  assumes "resting h" and "hub_inv h" and i: "i < length (pools h)" and k: "channel_of (disp (pools h ! i)) = Some k"
  shows "queued (chans h ! k) = []" and "ended (chans h ! k) \<longleftrightarrow> disp (pools h ! i) = Gone k"
proof -
  have n: "hand (pools h ! i) = None" using resting_pool(3) [OF assms(1-3)] .
  have g: "disp (pools h ! i) = Gone k \<Longrightarrow> ended (chans h ! k) \<and> queued (chans h ! k) = []" 
    using placed [OF assms(2) i] by (simp add: pool_placed_def)
  have "queued (chans h ! k) = [] \<and> \<not> ended (chans h ! k)" if "disp (pools h ! i) = Ranging (Some k)"
    using resting_dispatcher [OF assms(1) i, of Fetch] resting_dispatcher [OF assms(1) i, of CloseWork] n that
    by (auto simp: dispatcher_step_def Let_def split: list.splits if_splits)
  with g show "queued (chans h ! k) = []" "ended (chans h ! k) \<longleftrightarrow> disp (pools h ! i) = Gone k"
    using k by (cases "disp (pools h ! i)"; auto)+
qed

lemma resting_begun: "resting h \<Longrightarrow> i < length (pools h) \<Longrightarrow> disp (pools h ! i) \<noteq> DNew"
  using resting_dispatcher [of h i Begin] by (auto simp: dispatcher_step_def)

lemma resting_counts:
  assumes "resting h" and "hub_inv h" and k: "k < length (chans h)"
  shows "if \<exists>p\<in>set (pools h). channel_of (disp p) = Some k
         then queued (chans h ! k) = [] \<and> of_channel done_by k h = mset (arrived (chans h ! k))
         else mset (queued (chans h ! k)) = mset (arrived (chans h ! k)) \<and> of_channel done_by k h = {#}"
proof -
  have "map (share load k) (pools h) = map (share done_by k) (pools h)"
    using resting_load [OF assms(1,2)] by (simp add: share_def)
  then have eq: "of_channel load k h = of_channel done_by k h" unfolding of_channel_def by (rule arg_cong)
  have c: "mset (arrived (chans h ! k)) = mset (queued (chans h ! k)) + of_channel done_by k h"
    using assms(2) k eq by (simp add: hub_inv_def)
  show ?thesis
  proof (cases "\<exists>p\<in>set (pools h). channel_of (disp p) = Some k")
    case True
    then show ?thesis using c resting_channel(1) [OF assms(1,2)] by (auto simp: in_set_conv_nth)
  next
    case False
    then have "of_channel done_by k h = {#}" by (intro of_channel_unread) blast
    then show ?thesis using c False by simp
  qed
qed

subsection \<open>Properties\<close>

text \<open>
  C9: The consumers of a client, over all its connections, lose and repeat nothing of the channels they read, and end.  In every interleaving of
  reconnections, the broker, dispatchers and workers, the goroutines can take only a bounded number of steps on their own.  When none of
  them can move any more, every dispatcher has read the field \<^verbatim>\<open>r.mqMessages\<close>; of a channel that some dispatcher read, every delivery that
  arrived was handled exactly once; of a channel that none read, for the field had changed before, every delivery is
  still unread.  All workers of a consumer have left if the channel its dispatcher read was closed, and wait if it is open; if the
  dispatcher read nil they wait for ever.  This supposes that the consumer function returns or panics.
\<close>
theorem workers_drain:
  assumes "run_hub es new_hub = Some h" and "list_all internal es'" and "run_hub es' h = Some h'"
  shows "length es' \<le> hub_measure h \<and>
    (resting h' \<longrightarrow>
       (\<forall>k<length (chans h').
          if \<exists>p\<in>set (pools h'). channel_of (disp p) = Some k
          then queued (chans h' ! k) = [] \<and> of_channel done_by k h' = mset (arrived (chans h ! k))
          else mset (queued (chans h' ! k)) = mset (arrived (chans h ! k)) \<and> of_channel done_by k h' = {#}) \<and>
       (\<forall>p\<in>set (pools h'). disp p \<noteq> DNew \<and> set (workers p) =
          {case channel_of (disp p) of None \<Rightarrow> Waiting | Some k \<Rightarrow> if ended (chans h ! k) then Left else Waiting}))"
proof -
  have h: "hub_inv h" using run_hub_inv [OF hub_inv_new assms(1)] .
  then have inv: "hub_inv h'" using run_hub_inv assms(3) by blast
  have m: "length es' \<le> hub_measure h" and f: "feed h' = feed h" using internal_run [OF h assms(2,3)] by simp_all
  from f have len: "length (chans h') = length (chans h)" by (metis feed_def length_map)
  have same: "arrived (chans h' ! k) = arrived (chans h ! k)" "ended (chans h' ! k) = ended (chans h ! k)" if "k < length (chans h')" for k
    using arg_cong [OF f, of "\<lambda>l. l ! k"] that len by (simp_all add: feed_def)
  have w: "disp p \<noteq> DNew \<and> set (workers p) =
      {case channel_of (disp p) of None \<Rightarrow> Waiting | Some k \<Rightarrow> if ended (chans h ! k) then Left else Waiting}"
    if r: "resting h'" and p: "p \<in> set (pools h')" for p
  proof -
    obtain i where i: "i < length (pools h')" "p = pools h' ! i" using p by (auto simp: in_set_conv_nth)
    have pl: "pool_placed h' p" using inv p by (simp add: hub_inv_def)
    have "set (workers p) = {if workCh_closed p then Left else Waiting}"
      using resting_pool(1) [OF r inv i(1)] pl i(2) by (cases "workers p") (auto simp: pool_placed_def pool_inv_def)
    moreover have "workCh_closed p \<longleftrightarrow> (case channel_of (disp p) of None \<Rightarrow> False | Some k \<Rightarrow> ended (chans h ! k))"
      using pl resting_channel(2) [OF r inv i(1)] same(2) i(2)
      by (cases "disp p") (auto simp: pool_placed_def pool_inv_def split: option.split)
    ultimately show ?thesis using resting_begun [OF r i(1)] i(2) by (auto split: option.split)
  qed
  show ?thesis using m w resting_counts [OF _ inv] same(1) by (simp split: if_splits)
qed

text \<open>Two workers; the second delivery makes the consumer panic and stays unsettled.\<close>

definition demo_hub_events :: "nat hub_event list" where
  "demo_hub_events = [Outside (Consume 2), Disp 0 Begin, Outside (Deliver 0 7), Disp 0 Fetch, Outside (Deliver 0 8), Disp 0 Hand, Work 0 1 Pick,
     Disp 0 Fetch, Outside (EndOfDeliveries 0)]"

definition demo_drain :: "nat hub_event list" where
  "demo_drain = [Disp 0 Hand, Work 0 0 Pick, Work 0 1 (Finish (Some True)), Disp 0 CloseWork, Work 0 0 (Finish None), Work 0 0 Leave,
     Work 0 1 Leave]"

lemmas hub_run_simps =
  new_hub_def new_pool_def outside_step_def dispatcher_step_def worker_step_def set_pool_def set_chan_def worker_def numeral_2_eq_2 Let_def

theorem workers_drain_witness:
  "\<exists>h h'. run_hub demo_hub_events new_hub = Some h \<and> run_hub demo_drain h = Some h' \<and>
     length demo_drain \<le> hub_measure h \<and> map handled (pools h') = [[(7, AckMsg), (8, Unsettled)]] \<and> map (set \<circ> workers) (pools h') = [{Left}]"
proof -
  obtain h where h: "run_hub demo_hub_events new_hub = Some h"
    by (simp add: demo_hub_events_def hub_run_simps)
  obtain h' where h': "run_hub demo_drain h = Some h'" "map handled (pools h') = [[(7, AckMsg), (8, Unsettled)]]"
      "map (set \<circ> workers) (pools h') = [{Left}]"
    using h by (auto simp: demo_hub_events_def demo_drain_def hub_run_simps)
  have i: "list_all internal demo_drain" by (simp add: demo_drain_def)
  have "length demo_drain \<le> hub_measure h" using conjunct1 [OF workers_drain [OF h i h'(1)]] .
  then show ?thesis using h h' by (intro exI [of _ h] exI [of _ h'] conjI)
qed

text \<open>
  The field is not always the channel the dispatcher was started for.  If the connection is lost before the dispatcher begins it ranges over nil: it
  and its worker stay for ever and the delivery is not read.  If a new connection was made meanwhile, both dispatchers read the new channel, and
  the delivery of the old one is not read either.
\<close>
theorem dispatcher_reads_nil:
  "\<exists>h. run_hub [Outside (Consume 1), Outside (Deliver 0 (7 :: nat)), Outside ClearMessages, Outside (EndOfDeliveries 0), Disp 0 Begin] new_hub = Some h \<and>
     resting h \<and> map queued (chans h) = [[7]] \<and> map workers (pools h) = [[Waiting]] \<and> map disp (pools h) = [Ranging None]"
proof -
  have "resting h" if "pools h = [\<lparr>disp = Ranging None, hand = None, workCh = [], workCh_closed = False, workers = [Waiting], handled = []\<rparr>]"
    for h :: "nat hub"
  proof -
    have "hub_exec e h = None" if "internal e" for e
      using \<open>pools h = _\<close> that by (cases e) (auto simp: dispatcher_step_def worker_step_def Let_def not_le split: disp_event.split worker_event.split)
    then show ?thesis by (simp add: resting_def)
  qed
  then show ?thesis by (auto simp: hub_run_simps)
qed

theorem dispatcher_reads_newer:
  "\<exists>h. run_hub [Outside (Consume 1), Outside (Deliver 0 (7 :: nat)), Outside ClearMessages, Outside (EndOfDeliveries 0), Outside (Consume 1),
       Disp 0 Begin, Disp 1 Begin] new_hub = Some h \<and>
     map queued (chans h) = [[7], []] \<and> map disp (pools h) = [Ranging (Some 1), Ranging (Some 1)]"
  by (simp add: hub_run_simps)

end
