(* ===== verification/SmsStore.thy ===== *)
theory SmsStore
  imports Smsc
begin

section \<open>The request store of the SMS centre\<close>

text \<open>
  \<^verbatim>\<open>smsc/CustomStore.go\<close>: requests kept by sequence number in a \<^verbatim>\<open>bigcache\<close>, serialised with \<^verbatim>\<open>gob\<close>.  The
  cache is a parameter, a record of functions on a world \<^typ>\<open>'w\<close>; so are the codecs of the PDU and
  of \<^verbatim>\<open>gob\<close>.  The context of a call is the error of a cancelled context, or none.
\<close>

record 'w bigcache =
  bc_Set :: "string \<Rightarrow> byte list \<Rightarrow> 'w \<Rightarrow> string option \<times> 'w"
  bc_Get :: "string \<Rightarrow> 'w \<Rightarrow> string + byte list"
  bc_Delete :: "string \<Rightarrow> 'w \<Rightarrow> string option \<times> 'w"
  bc_Reset :: "'w \<Rightarrow> string option \<times> 'w"
  bc_Len :: "'w \<Rightarrow> int"
  bc_Values :: "'w \<Rightarrow> (string + byte list) list"
  bc_Close :: "'w \<Rightarrow> string option \<times> 'w"

text \<open>\<^verbatim>\<open>bigcache.New\<close> may fail; the store is then nil.\<close>

type_synonym 'w CustomStore = "'w bigcache option"

definition NewCustomStore :: "string + 'w bigcache \<Rightarrow> 'w CustomStore" where
  "NewCustomStore made = (case made of Inl err \<Rightarrow> None | Inr cache \<Rightarrow> Some cache)"

record requestGob =
  Pdu :: "byte list"
  TimeSent :: time

record 'p request =
  req_PDU :: 'p
  req_TimeSent :: time

record 'p codecs =
  marshal :: "'p \<Rightarrow> byte list"
  parse :: "byte list \<Rightarrow> string + 'p"
  gobEncode :: "requestGob \<Rightarrow> string + byte list"
  gobDecode :: "byte list \<Rightarrow> string + requestGob"
  sequenceNumber :: "'p \<Rightarrow> int"

definition not_initialized :: string where
  "not_initialized = ''custom store is not initialized''"

definition serialize :: "'p codecs \<Rightarrow> 'p request \<Rightarrow> string + byte list" where
  "serialize c r =
     (case gobEncode c \<lparr>Pdu = marshal c (req_PDU r), TimeSent = req_TimeSent r\<rparr> of
        Inl _ \<Rightarrow> Inl ''serialization failed'' | Inr b \<Rightarrow> Inr b)"

definition deserialize :: "'p codecs \<Rightarrow> byte list \<Rightarrow> string + 'p request" where
  "deserialize c b =
     (case gobDecode c b of
        Inl _ \<Rightarrow> Inl ''deserialization failed''
      | Inr r \<Rightarrow> (case parse c (Pdu r) of
          Inl e \<Rightarrow> Inl e
        | Inr p \<Rightarrow> Inr \<lparr>req_PDU = p, req_TimeSent = TimeSent r\<rparr>))"

definition Set :: "'p codecs \<Rightarrow> 'w CustomStore \<Rightarrow> string option \<Rightarrow> 'p request \<Rightarrow> 'w \<Rightarrow> string option \<times> 'w" where
  "Set c st ctx r w =
     (case ctx of Some e \<Rightarrow> (Some e, w) | None \<Rightarrow>
      (case st of None \<Rightarrow> (Some not_initialized, w) | Some bc \<Rightarrow>
       (case serialize c r of
          Inl e \<Rightarrow> (Some e, w)
        | Inr b \<Rightarrow> bc_Set bc (Itoa (sequenceNumber c (req_PDU r))) b w)))"

definition Get :: "'p codecs \<Rightarrow> 'w CustomStore \<Rightarrow> string option \<Rightarrow> int \<Rightarrow> 'w \<Rightarrow> 'p request option" where
  "Get c st ctx n w =
     (case ctx of Some e \<Rightarrow> None | None \<Rightarrow>
      (case st of None \<Rightarrow> None | Some bc \<Rightarrow>
       (case bc_Get bc (Itoa n) w of
          Inl _ \<Rightarrow> None
        | Inr b \<Rightarrow> (case deserialize c b of Inl _ \<Rightarrow> None | Inr r \<Rightarrow> Some r))))"

text \<open>\<^verbatim>\<open>List\<close> appends the zero request, \<^const>\<open>None\<close> here, for a value that does not deserialise.\<close>

fun list_values :: "'p codecs \<Rightarrow> (string + byte list) list \<Rightarrow> 'p request option list" where
  "list_values c [] = []"
| "list_values c (Inl _ # _) = []"
| "list_values c (Inr b # vs) =
     (case deserialize c b of Inl _ \<Rightarrow> None | Inr r \<Rightarrow> Some r) # list_values c vs"

definition List_all :: "'p codecs \<Rightarrow> 'w CustomStore \<Rightarrow> string option \<Rightarrow> 'w \<Rightarrow> 'p request option list" where
  "List_all c st ctx w =
     (case ctx of Some e \<Rightarrow> [] | None \<Rightarrow>
      (case st of None \<Rightarrow> [] | Some bc \<Rightarrow> list_values c (bc_Values bc w)))"

definition Delete :: "'w CustomStore \<Rightarrow> string option \<Rightarrow> int \<Rightarrow> 'w \<Rightarrow> string option \<times> 'w" where
  "Delete st ctx n w =
     (case ctx of Some e \<Rightarrow> (Some e, w) | None \<Rightarrow>
      (case st of None \<Rightarrow> (Some not_initialized, w) | Some bc \<Rightarrow> bc_Delete bc (Itoa n) w))"

definition Clear :: "'w CustomStore \<Rightarrow> string option \<Rightarrow> 'w \<Rightarrow> string option \<times> 'w" where
  "Clear st ctx w =
     (case ctx of Some e \<Rightarrow> (Some e, w) | None \<Rightarrow>
      (case st of None \<Rightarrow> (Some not_initialized, w) | Some bc \<Rightarrow> bc_Reset bc w))"

definition Length :: "'w CustomStore \<Rightarrow> string option \<Rightarrow> 'w \<Rightarrow> int \<times> string option" where
  "Length st ctx w =
     (case ctx of Some e \<Rightarrow> (0, Some e) | None \<Rightarrow>
      (case st of None \<Rightarrow> (0, Some not_initialized) | Some bc \<Rightarrow> (bc_Len bc w, None)))"

definition Close :: "'w CustomStore \<Rightarrow> 'w \<Rightarrow> string option \<times> 'w" where
  "Close st w = (case st of None \<Rightarrow> (None, w) | Some bc \<Rightarrow> bc_Close bc w)"

subsection \<open>What the store relies on\<close>

text \<open>
  The codecs invert each other, and a successful \<^verbatim>\<open>Set\<close> of the cache is read back; an entry under another
  key is untouched or, when it shared the shard slot, gone.
\<close>

definition lawful_codecs :: "'p codecs \<Rightarrow> bool" where
  "lawful_codecs c \<longleftrightarrow>
     (\<forall>p. parse c (marshal c p) = Inr p) \<and> (\<forall>x b. gobEncode c x = Inr b \<longrightarrow> gobDecode c b = Inr x)"

definition lawful_cache :: "'w bigcache \<Rightarrow> bool" where
  "lawful_cache bc \<longleftrightarrow>
     (\<forall>k b w w'. bc_Set bc k b w = (None, w') \<longrightarrow>
        bc_Get bc k w' = Inr b \<and>
        (\<forall>k'. k' \<noteq> k \<longrightarrow> bc_Get bc k' w' = bc_Get bc k' w \<or> isl (bc_Get bc k' w')))"

lemma serialize_roundtrip:
  "lawful_codecs c \<Longrightarrow> serialize c r = Inr b \<Longrightarrow> deserialize c b = Inr r"
  by (auto simp: lawful_codecs_def serialize_def deserialize_def split: sum.splits)

subsection \<open>Properties\<close>

text \<open>
  A request that \<^verbatim>\<open>Set\<close> accepted is returned by \<^verbatim>\<open>Get\<close> under its sequence number, with its PDU and its time,
  and for every other sequence number \<^verbatim>\<open>Get\<close> answers as before or reports nothing: it never returns this
  request in another's place.
\<close>
theorem store_roundtrip:
  assumes "lawful_codecs c" and "lawful_cache bc" and "Set c (Some bc) None r w = (None, w')"
  shows "Get c (Some bc) None (sequenceNumber c (req_PDU r)) w' = Some r \<and>
         (\<forall>n. n = sequenceNumber c (req_PDU r) \<or>
              Get c (Some bc) None n w' = Get c (Some bc) None n w \<or> Get c (Some bc) None n w' = None)"
proof -
  obtain b where b: "serialize c r = Inr b"
    and set: "bc_Set bc (Itoa (sequenceNumber c (req_PDU r))) b w = (None, w')"
    using assms(3) by (auto simp: Set_def split: sum.splits)
  note law = assms(2) [unfolded lawful_cache_def, rule_format, OF set]
  have other: "Get c (Some bc) None n w' = Get c (Some bc) None n w \<or> Get c (Some bc) None n w' = None"
    if "n \<noteq> sequenceNumber c (req_PDU r)" for n
  proof -
    have "Itoa n \<noteq> Itoa (sequenceNumber c (req_PDU r))" using that by simp
    then have "bc_Get bc (Itoa n) w' = bc_Get bc (Itoa n) w \<or> isl (bc_Get bc (Itoa n) w')"
      using law by blast
    then show ?thesis by (auto simp: Get_def isl_def)
  qed
  show ?thesis
  proof (intro conjI allI)
    show "Get c (Some bc) None (sequenceNumber c (req_PDU r)) w' = Some r"
      using law [THEN conjunct1] serialize_roundtrip [OF assms(1) b] by (simp add: Get_def)
  qed (use other in metis)
qed

text \<open>A cache that is a plain function, and codecs that keep one byte per field.\<close>

definition demo_cache :: "(string \<Rightarrow> byte list option) bigcache" where
  "demo_cache =
     \<lparr>bc_Set = (\<lambda>k b w. (None, w(k := Some b))),
      bc_Get = (\<lambda>k w. case w k of None \<Rightarrow> Inl ''not found'' | Some b \<Rightarrow> Inr b),
      bc_Delete = (\<lambda>k w. (None, w(k := None))), bc_Reset = (\<lambda>w. (None, \<lambda>_. None)), bc_Len = (\<lambda>w. 0),
      bc_Values = (\<lambda>w. []), bc_Close = (\<lambda>w. (None, w))\<rparr>"

definition demo_codecs :: "byte codecs" where
  "demo_codecs =
     \<lparr>marshal = (\<lambda>p. [p]), parse = (\<lambda>bs. case bs of [p] \<Rightarrow> Inr p | _ \<Rightarrow> Inl ''malformed''),
      gobEncode = (\<lambda>x. if TimeSent x = 0 then Inr (Pdu x) else Inl ''too big''),
      gobDecode = (\<lambda>bs. Inr \<lparr>Pdu = bs, TimeSent = 0\<rparr>),
      sequenceNumber = uint\<rparr>"

theorem store_roundtrip_witness:
  "Get demo_codecs (Some demo_cache) None 5
     (snd (Set demo_codecs (Some demo_cache) None \<lparr>req_PDU = 5, req_TimeSent = 0\<rparr> (\<lambda>_. None)))
   = Some \<lparr>req_PDU = 5, req_TimeSent = 0\<rparr>"
proof -
  let ?r = "\<lparr>req_PDU = 5, req_TimeSent = 0\<rparr> :: byte request"
  have c: "lawful_codecs demo_codecs" by (auto simp: lawful_codecs_def demo_codecs_def split: if_splits)
  have b: "lawful_cache demo_cache" by (auto simp: lawful_cache_def demo_cache_def)
  obtain w' where w': "Set demo_codecs (Some demo_cache) None ?r (\<lambda>_. None) = (None, w')"
    by (simp add: Set_def serialize_def demo_codecs_def demo_cache_def)
  have "sequenceNumber demo_codecs (req_PDU ?r) = 5" by (simp add: demo_codecs_def)
  then show ?thesis using store_roundtrip [OF c b w'] w' by simp
qed

end
