(* ===== verification/TcHttp.thy ===== *)
theory TcHttp
  imports GoStrconv
begin

section \<open>The token request of the chat client\<close>

text \<open>
  \<^verbatim>\<open>tc/tcClientSender/tcClientHTTP.go\<close> with its records from \<^verbatim>\<open>tc/dts.go\<close>: the host of the server, the redaction of tokens in logged
  bodies (the regular expression as a matcher) and the token request with its retries.
\<close>

record AuthTokenResponse =
  AccessToken :: string
  TokenType :: string
  ExpiresAt :: int

record ConfigTcClient =
  Server :: string
  User :: string
  Password :: string
  ShowAnswers :: bool
  InsecureSkipVerify :: bool

subsection \<open>HTTP\<close>

fun is_prefix :: "string \<Rightarrow> string \<Rightarrow> bool" where
  "is_prefix [] t = True"
| "is_prefix (c # s) [] = False"
| "is_prefix (c # s) (d # t) \<longleftrightarrow> c = d \<and> is_prefix s t"

fun after_scheme :: "string \<Rightarrow> string option" where
  "after_scheme [] = None"
| "after_scheme (c # s) = (if is_prefix ''://'' (c # s) then Some (drop 3 (c # s)) else after_scheme s)"

definition trim_slash :: "string \<Rightarrow> string" where
  "trim_slash s = (if s \<noteq> [] \<and> last s = CHR ''/'' then butlast s else s)"

definition serverHost :: "string \<Rightarrow> string" where
  "serverHost server = trim_slash (case after_scheme server of Some s \<Rightarrow> s | None \<Rightarrow> server)"

text \<open>
  The regular expression \<^verbatim>\<open>"access_token"\s*:\s*"[^"]*"\<close> at the beginning of a text: what follows the match.  Blanks are
  the bytes \<^verbatim>\<open>\s\<close> stands for.
\<close>

definition quote :: char where
  "quote = CHR 0x22"

definition blank :: "char \<Rightarrow> bool" where
  "blank c \<longleftrightarrow> c \<in> {CHR 0x09, CHR 0x0A, CHR 0x0C, CHR 0x0D, CHR '' ''}"

definition token_key :: string where
  "token_key = quote # ''access_token'' @ [quote]"

definition match_value :: "string \<Rightarrow> string option" where
  "match_value s =
     (case dropWhile blank s of
        q # t \<Rightarrow> if q = quote then (case dropWhile (\<lambda>c. c \<noteq> quote) t of [] \<Rightarrow> None | _ # rest \<Rightarrow> Some rest) else None
      | [] \<Rightarrow> None)"

definition match_token :: "string \<Rightarrow> string option" where
  "match_token s =
     (if is_prefix token_key s
      then (case dropWhile blank (drop (length token_key) s) of
              c # t \<Rightarrow> if c = CHR '':'' then match_value t else None
            | [] \<Rightarrow> None)
      else None)"

definition redacted :: string where
  "redacted = token_key @ '':'' @ quote # ''<redacted>'' @ [quote]"

lemma length_dropWhile_less: "dropWhile P s = x # t \<Longrightarrow> length t < length s"
  by (metis length_Cons length_dropWhile_le less_Suc_eq_le order.strict_trans2 lessI)

lemma match_value_shorter: "match_value s = Some r \<Longrightarrow> length r < length s"
  by (auto simp: match_value_def split: list.splits if_splits dest!: length_dropWhile_less)

lemma match_token_shorter: "match_token s = Some r \<Longrightarrow> length r < length s"
  by (auto simp: match_token_def split: list.splits if_splits dest!: match_value_shorter length_dropWhile_less)

text \<open>\<^verbatim>\<open>tokenFieldRe.ReplaceAllString\<close>.\<close>

function redact :: "string \<Rightarrow> string" where
  "redact s =
     (case match_token s of
        Some rest \<Rightarrow> redacted @ redact rest
      | None \<Rightarrow> (case s of [] \<Rightarrow> [] | c # t \<Rightarrow> c # redact t))"
  by pat_completeness auto
termination by (relation "measure length") (auto dest: match_token_shorter)

declare redact.simps [simp del]

definition safeTokenBody :: "string \<Rightarrow> string" where
  "safeTokenBody b = (let s = redact b in if length s > 256 then take 256 s else s)"

text \<open>
  The token request: \<open>httpDo n\<close> is the answer of \<^verbatim>\<open>httpClient.Do\<close> at attempt \<open>n\<close>, an error or the status and what reading and
  decoding the body give; the second component is the time slept.
\<close>

record token_reply =
  statusCode :: int
  body :: "string + string"

function token_attempts :: "(nat \<Rightarrow> string + token_reply) \<Rightarrow> nat \<Rightarrow> (string + token_reply) \<times> duration" where
  "token_attempts httpDo attempt =
     (case httpDo attempt of
        Inr r \<Rightarrow> (Inr r, 0)
      | Inl e \<Rightarrow>
          if attempt + 1 \<ge> 3 then (Inl e, 0)
          else let (r, t) = token_attempts httpDo (attempt + 1) in (r, (int attempt + 1) * 1000000000 + t))"
  by pat_completeness auto
termination by (relation "measure (\<lambda>(_, n). 3 - n)") auto

declare token_attempts.simps [simp del]

definition getAuthorizationToken ::
    "(nat \<Rightarrow> string + token_reply) \<Rightarrow> (string \<Rightarrow> string + AuthTokenResponse) \<Rightarrow> (string + AuthTokenResponse) \<times> duration" where
  "getAuthorizationToken httpDo unmarshal =
     (let (r, t) = token_attempts httpDo 0 in
      (case r of
         Inl e \<Rightarrow> Inl e
       | Inr resp \<Rightarrow> (case body resp of
           Inl e \<Rightarrow> Inl e
         | Inr resBody \<Rightarrow>
             if statusCode resp < 200 \<or> statusCode resp > 299
             then Inl (''token request failed with status '' @ Itoa (statusCode resp))
             else unmarshal resBody), t))"

definition GetNewToken ::
    "(nat \<Rightarrow> string + token_reply) \<Rightarrow> (string \<Rightarrow> string + AuthTokenResponse) \<Rightarrow> string option \<times> string" where
  "GetNewToken httpDo unmarshal =
     (case fst (getAuthorizationToken httpDo unmarshal) of Inl e \<Rightarrow> (Some e, []) | Inr a \<Rightarrow> (None, AccessToken a))"

subsection \<open>Facts\<close>

lemma is_prefix_append [simp]: "is_prefix s (s @ t)"
  by (induction s) auto

lemma dropWhile_all_append: "\<forall>x\<in>set xs. P x \<Longrightarrow> dropWhile P (xs @ ys) = dropWhile P ys"
  by (induction xs) auto

lemma blank_simps [simp]: "\<not> blank CHR '':''" "\<not> blank quote"
  by (simp_all add: blank_def quote_def)

lemma match_field:
  assumes "\<forall>c\<in>set ws1. blank c" and "\<forall>c\<in>set ws2. blank c" and "quote \<notin> set tok"
  shows "match_token (token_key @ ws1 @ CHR '':'' # ws2 @ quote # tok @ quote # post) = Some post"
proof -
  have "dropWhile (\<lambda>c. c \<noteq> quote) (tok @ quote # post) = quote # post"
    using assms(3) by (subst dropWhile_all_append) auto
  then show ?thesis using assms(1,2)
    by (simp add: match_token_def match_value_def dropWhile_all_append)
qed

lemma redact_no_match: "(\<forall>i<length pre. match_token (drop i (pre @ s)) = None) \<Longrightarrow> redact (pre @ s) = pre @ redact s"
proof (induction pre)
  case (Cons c pre)
  have "match_token (c # pre @ s) = None" using Cons.prems by (metis append_Cons drop0 length_greater_0_conv list.distinct(1))
  moreover have "\<forall>i<length pre. match_token (drop i (pre @ s)) = None" using Cons.prems by force
  ultimately show ?case using Cons.IH by (simp add: redact.simps [of "c # pre @ s"])
qed simp

text \<open>
  C29: A complete token field of a logged response is redacted: in a body whose first token field is
  \<^verbatim>\<open>"access_token": "..."\<close>, with any blanks around the colon, a value without a quote and the closing quote there, the value is
  replaced before anything is cut off, what precedes the field is kept, the rest is redacted in the same way, and at most 256 bytes are logged.
  A field without its closing quote is not redacted (\<open>cut_body_shows_token\<close>).
\<close>
theorem token_redacted:
  assumes "\<forall>c\<in>set ws1. blank c" and "\<forall>c\<in>set ws2. blank c" and "quote \<notin> set tok"
      and "b = pre @ token_key @ ws1 @ CHR '':'' # ws2 @ quote # tok @ quote # post"
      and "\<forall>i<length pre. match_token (drop i b) = None"
  shows "safeTokenBody b = take 256 (pre @ redacted @ redact post)"
proof -
  let ?field = "token_key @ ws1 @ CHR '':'' # ws2 @ quote # tok @ quote # post"
  have "redact ?field = redacted @ redact post"
    using match_field [OF assms(1-3)] by (subst redact.simps) simp
  then show ?thesis
    using redact_no_match [of pre ?field] assms(4,5) by (simp add: safeTokenBody_def Let_def)
qed

theorem token_redacted_witness:
  "safeTokenBody (''{'' @ token_key @ '' '' @ '':'' @ '' '' @ quote # ''secret'' @ quote # ''}'') = ''{'' @ redacted @ ''}''"
proof -
  let ?b = "''{'' @ token_key @ '' '' @ CHR '':'' # '' '' @ quote # ''secret'' @ quote # ''}''"
  have m: "match_token ?b = None" by (simp add: match_token_def token_key_def quote_def)
  have r: "redact ''}'' = ''}''" by (simp add: redact.simps match_token_def token_key_def quote_def)
  have "safeTokenBody ?b = take 256 (''{'' @ redacted @ redact ''}'')"
    by (rule token_redacted [OF _ _ _ refl]) (use m in \<open>auto simp: blank_def quote_def\<close>)
  then show ?thesis using r by (simp add: redacted_def token_key_def)
qed

text \<open>
  The closing quote is needed: the expression matches nothing in a text with fewer than four quotes, so a body that was cut off within the value
  is logged as it is, with the token.
\<close>

abbreviation quotes :: "string \<Rightarrow> nat" where
  "quotes s \<equiv> length (filter ((=) quote) s)"

lemma quotes_dropWhile: "quotes (dropWhile P s) \<le> quotes s"
  by (induction s) auto

lemma match_value_quotes:
  assumes "match_value s = Some r"
  shows "2 \<le> quotes s"
proof -
  obtain t u where t: "dropWhile blank s = quote # t" and u: "dropWhile (\<lambda>c. c \<noteq> quote) t = u # r"
    using assms by (auto simp: match_value_def split: list.splits if_splits)
  have "u = quote" using hd_dropWhile [of "\<lambda>c. c \<noteq> quote" t] u by simp
  then have "1 \<le> quotes t" using quotes_dropWhile [of "\<lambda>c. c \<noteq> quote" t] u by simp
  then show ?thesis using quotes_dropWhile [of blank s] t by simp
qed

lemma is_prefix_take: "is_prefix s t \<Longrightarrow> t = s @ drop (length s) t"
  by (induction s t rule: is_prefix.induct) auto

lemma match_token_quotes:
  assumes "match_token s = Some r"
  shows "4 \<le> quotes s"
proof -
  obtain t where p: "is_prefix token_key s" and t: "dropWhile blank (drop (length token_key) s) = CHR '':'' # t"
      and v: "match_value t = Some r"
    using assms by (auto simp: match_token_def split: list.splits if_splits)
  have "quotes t \<le> quotes (drop (length token_key) s)"
    using quotes_dropWhile [of blank "drop (length token_key) s"] t by (simp split: if_splits)
  moreover have "quotes s = quotes token_key + quotes (drop (length token_key) s)"
    using is_prefix_take [OF p] by (metis filter_append length_append)
  moreover have "quotes token_key = 2" by (simp add: token_key_def quote_def)
  ultimately show ?thesis using match_value_quotes [OF v] by simp
qed

lemma redact_few_quotes: "quotes s < 4 \<Longrightarrow> redact s = s"
proof (induction s)
  case Nil
  show ?case by (simp add: redact.simps match_token_def token_key_def)
next
  case (Cons c s)
  have "match_token (c # s) = None" using match_token_quotes [of "c # s"] Cons.prems by (cases "match_token (c # s)") auto
  moreover have "redact s = s" using Cons by (auto split: if_splits)
  ultimately show ?case by (simp add: redact.simps [of "c # s"])
qed

theorem cut_body_shows_token:
  assumes "quote \<notin> set pre" and "quote \<notin> set tok"
  shows "safeTokenBody (pre @ token_key @ CHR '':'' # quote # tok) = take 256 (pre @ token_key @ CHR '':'' # quote # tok)"
proof -
  have "quotes (pre @ token_key @ CHR '':'' # quote # tok) = 3"
    using assms by (auto simp: token_key_def filter_empty_conv quote_def)
  then show ?thesis by (simp add: safeTokenBody_def redact_few_quotes Let_def)
qed

text \<open>
  The token request is made at most three times with at most three seconds of sleep in between; it answers with the first
  reply, and with an error of the transport only after three failures.
\<close>
theorem token_attempts_spec:
  "(case fst (token_attempts httpDo 0) of
      Inr r \<Rightarrow> \<exists>n<3. httpDo n = Inr r \<and> (\<forall>m<n. \<exists>e. httpDo m = Inl e)
    | Inl e \<Rightarrow> httpDo 2 = Inl e \<and> (\<forall>m<3. \<exists>e. httpDo m = Inl e)) \<and>
   0 \<le> snd (token_attempts httpDo 0) \<and> snd (token_attempts httpDo 0) \<le> 3000000000"
proof -
  have three: "(\<forall>m<3. P m) \<longleftrightarrow> P 0 \<and> P 1 \<and> P (2 :: nat)" "(\<exists>m<3. P m) \<longleftrightarrow> P 0 \<or> P 1 \<or> P (2 :: nat)" for P
    by (auto simp: numeral_3_eq_3 numeral_2_eq_2 less_Suc_eq)
  have two: "(\<forall>m<2. P m) \<longleftrightarrow> P 0 \<and> P (1 :: nat)" for P
    by (auto simp: numeral_2_eq_2 less_Suc_eq)
  show ?thesis
    by (simp add: token_attempts.simps [of httpDo 0] token_attempts.simps [of httpDo 1] token_attempts.simps [of httpDo 2]
        token_attempts.simps [of httpDo "Suc 0"] token_attempts.simps [of httpDo "Suc (Suc 0)"] three two numeral_2_eq_2 All_less_Suc split: sum.split)
qed

end
