(* ===== verification/TcClient.thy ===== *)
theory TcClient
  imports TcHttp ConnSlot GoFloat "HOL-Library.Multiset"
begin

section \<open>The chat client over a web socket\<close>

text \<open>
  \<^verbatim>\<open>tcClient.go\<close> and \<^verbatim>\<open>tcClientWS.go\<close> of \<^verbatim>\<open>tc/tcClientSender\<close>.  The client runs four kinds of goroutines beside its caller: the restart, the reader
  and the writer of a connection, and the loop that renews the token.  \<open>tc_exec\<close> runs one event, a critical section
  or a call that may block, of one of them; a value it returns is the state afterwards, \<^const>\<open>None\<close> means that the event is not
  possible.  The caller \<open>App\<close> calls \<^verbatim>\<open>Start\<close> and \<^verbatim>\<open>Stop\<close> in turn.  Connections are numbers, and the context of a
  connection has the number of the connection.  A message is its header record; its JSON text is not modelled.
  \<open>opened\<close>, \<open>wire\<close>, \<open>pushed\<close> and \<open>dropped\<close> are ghost fields.
\<close>

subsection \<open>Messages and configuration\<close>

definition MT_REQUEST :: "32 word" where
  "MT_REQUEST = 1"

record WSAuthPayload =
  aToken :: string
  aTokenType :: string
  aReceiveUnread :: bool

record WSMessageContentPayload =
  cText :: string
  cParseMode :: string

record WSMessagePayload =
  mChatId :: string
  mContent :: WSMessageContentPayload

datatype payload = AuthPayload WSAuthPayload | MessagePayload WSMessagePayload

record WSHeader =
  hType :: "32 word"
  hId :: "32 word"
  hMethod :: string
  hPayload :: payload

record tc_cfg =
  config :: ConfigTcClient

subsection \<open>The state\<close>

datatype conn_caller = InStart | InRestart nat
datatype disc_caller = InConnect conn_caller | BeforeDial nat | InStop

datatype pc =
    Idle | StartToken | StartFail | StartErr | Started | StopFlag | StopCancel | Stopped
  | RTop nat | RSleep nat | RFailed nat | REnd
  | CEnter conn_caller string | CToken conn_caller | CNewToken conn_caller | CDial conn_caller string
  | CAbort conn_caller | CDialled conn_caller nat string | CClose conn_caller nat
  | CSpawnW conn_caller string | CSpawnR conn_caller string | CPush conn_caller string
  | DLock disc_caller | DClose disc_caller nat | DWait disc_caller

text \<open>A writer that waits knows its connection and the context whose end it waits for, read when the wait began.\<close>

datatype goroutine = WNew | WRun "nat option" "nat option" | WSend "nat option" WSHeader | RNew | RRun nat

datatype loop = LTop duration | LWait duration | LFetch

datatype who = App | Restart

record tc =
  msgId :: "32 word"
  ctx :: "nat option"
  cancel :: "nat option"
  ctxDone :: "nat set"
  wsconn :: "nat option"
  started :: bool
  connecting :: bool
  restartFlag :: bool
  token :: string
  tokenIssued :: time
  tokenExpires :: "time option"
  stopped :: bool
  stopDone :: bool
  wsMsg :: "WSHeader list"
  app :: pc
  rst :: pc
  spawned :: nat
  gos :: "goroutine list"
  loops :: "loop list"
  tests :: nat
  crashed :: bool
  opened :: "nat set"
  fresh :: nat
  wire :: "(nat \<times> WSHeader) list"
  pushed :: "WSHeader list"
  dropped :: "WSHeader list"

definition NewTcClient :: tc where
  "NewTcClient =
     \<lparr>msgId = 0, ctx = None, cancel = None, ctxDone = {}, wsconn = None, started = False, connecting = False,
      restartFlag = False, token = [], tokenIssued = 0, tokenExpires = None, stopped = False, stopDone = False, wsMsg = [],
      app = Idle, rst = Idle, spawned = 0, gos = [], loops = [], tests = 0, crashed = False, opened = {}, fresh = 0, wire = [],
      pushed = [], dropped = []\<rparr>"

definition wsMsgCap :: nat where
  "wsMsgCap = 256"

definition maxRestartBackoff :: duration where
  "maxRestartBackoff = 5 * 60 * 1000000000"

definition pc_of :: "who \<Rightarrow> tc \<Rightarrow> pc" where
  "pc_of w s = (case w of App \<Rightarrow> app s | Restart \<Rightarrow> rst s)"

definition goto :: "who \<Rightarrow> pc \<Rightarrow> tc \<Rightarrow> tc" where
  "goto w p s = (case w of App \<Rightarrow> s\<lparr>app := p\<rparr> | Restart \<Rightarrow> s\<lparr>rst := p\<rparr>)"

subsection \<open>Sections of the methods\<close>

definition push :: "WSHeader \<Rightarrow> tc \<Rightarrow> tc" where
  "push m s = s\<lparr>wsMsg := wsMsg s @ [m], pushed := pushed s @ [m]\<rparr>"

text \<open>\<^verbatim>\<open>pushWSMsg\<close>: the send succeeds while the channel has room, else the time-out reports an error.\<close>

definition pushWSMsg :: "WSHeader \<Rightarrow> tc \<Rightarrow> bool \<times> tc" where
  "pushWSMsg m s = (if length (wsMsg s) < wsMsgCap then (True, push m s) else (False, s))"

definition parse_mode :: "string \<Rightarrow> string" where
  "parse_mode mode = (if mode \<noteq> ''html'' \<and> mode \<noteq> ''text'' then ''markdown'' else mode)"

definition SendMsg :: "string \<Rightarrow> string \<Rightarrow> string \<Rightarrow> tc \<Rightarrow> string option \<times> tc" where
  "SendMsg msg chatId mode s =
     (if stopped s then (Some ''tc client is stopped'', s)
      else let s1 = s\<lparr>msgId := msgId s + 1\<rparr>;
               h = \<lparr>hType = MT_REQUEST, hId = msgId s1, hMethod = ''sendMessage'',
                    hPayload = MessagePayload \<lparr>mChatId = chatId,
                      mContent = \<lparr>cText = msg, cParseMode = parse_mode mode\<rparr>\<rparr>\<rparr>
           in case pushWSMsg h s1 of
                (True, s2) \<Rightarrow> (None, s2)
              | (False, s2) \<Rightarrow> (Some ''ws message queue is full'', s2))"

definition Start_begin :: "tc \<Rightarrow> tc" where
  "Start_begin s =
     (if started s then s\<lparr>app := StartErr\<rparr> else s\<lparr>started := True, stopped := False, app := StartToken\<rparr>)"

definition set_token :: "time \<Rightarrow> AuthTokenResponse \<Rightarrow> tc \<Rightarrow> tc" where
  "set_token now r s = s\<lparr>token := AccessToken r, tokenIssued := now, tokenExpires := Some (ExpiresAt r * 1000000000)\<rparr>"

definition Start_token :: "time \<Rightarrow> AuthTokenResponse option \<Rightarrow> tc \<Rightarrow> tc" where
  "Start_token now r s =
     (case r of
        None \<Rightarrow> s\<lparr>app := StartFail\<rparr>
      | Some a \<Rightarrow> let s1 = set_token now a s in s1\<lparr>loops := loops s1 @ [LTop 0], app := CEnter InStart (AccessToken a)\<rparr>)"

fun connect_ret :: "conn_caller \<Rightarrow> bool \<Rightarrow> pc" where
  "connect_ret InStart True = Started"
| "connect_ret InStart False = StartFail"
| "connect_ret (InRestart n) True = REnd"
| "connect_ret (InRestart n) False = RFailed n"

fun disc_ret :: "disc_caller \<Rightarrow> pc" where
  "disc_ret (InConnect k) = connect_ret k False"
| "disc_ret (BeforeDial n) = (if n > 1 then RSleep n else CEnter (InRestart (n + 1)) [])"
| "disc_ret InStop = Stopped"

definition wsConnect_enter :: "who \<Rightarrow> conn_caller \<Rightarrow> string \<Rightarrow> tc \<Rightarrow> tc" where
  "wsConnect_enter w k tok s =
     (if wsconn s \<noteq> None then goto w (connect_ret k False) s
      else if connecting s then goto w (connect_ret k False) s
      else goto w (if tok = [] then CToken k else CDial k tok) (s\<lparr>connecting := True\<rparr>))"

definition wsConnect_token :: "who \<Rightarrow> conn_caller \<Rightarrow> time \<Rightarrow> tc \<Rightarrow> tc" where
  "wsConnect_token w k now s =
     goto w (if token s \<noteq> [] \<and> (case tokenExpires s of None \<Rightarrow> False | Some t \<Rightarrow> now < t) then CDial k (token s) else CNewToken k) s"

definition wsConnect_dialled :: "who \<Rightarrow> conn_caller \<Rightarrow> string \<Rightarrow> tc \<Rightarrow> tc" where
  "wsConnect_dialled w k tok s =
     goto w (CDialled k (fresh s) tok) (s\<lparr>opened := insert (fresh s) (opened s), fresh := Suc (fresh s)\<rparr>)"

definition wsConnect_store :: "who \<Rightarrow> conn_caller \<Rightarrow> nat \<Rightarrow> string \<Rightarrow> tc \<Rightarrow> tc" where
  "wsConnect_store w k c tok s =
     (if stopped s then goto w (CClose k c) (s\<lparr>connecting := False\<rparr>)
      else goto w (CSpawnW k tok) (s\<lparr>ctx := Some c, cancel := Some c, wsconn := Some c, connecting := False\<rparr>))"

definition wsConnect_push :: "who \<Rightarrow> conn_caller \<Rightarrow> string \<Rightarrow> tc \<Rightarrow> tc" where
  "wsConnect_push w k tok s =
     (let s1 = s\<lparr>msgId := msgId s + 1\<rparr>;
          h = \<lparr>hType = MT_REQUEST, hId = msgId s1, hMethod = ''auth'',
               hPayload = AuthPayload \<lparr>aToken = tok, aTokenType = ''JWT'', aReceiveUnread = False\<rparr>\<rparr>
      in case pushWSMsg h s1 of
           (True, s2) \<Rightarrow> goto w (connect_ret k True) s2
         | (False, s2) \<Rightarrow> goto w (DLock (InConnect k)) s2)"

definition wsDisconnect_locked :: "who \<Rightarrow> disc_caller \<Rightarrow> tc \<Rightarrow> tc" where
  "wsDisconnect_locked w d s =
     (let s1 = s\<lparr>ctxDone := ctxDone s \<union> set_option (cancel s), cancel := None, wsconn := None, connecting := False\<rparr>
      in case wsconn s of Some c \<Rightarrow> goto w (DClose d c) s1 | None \<Rightarrow> goto w (disc_ret d) s1)"

text \<open>\<open>go tc.wsRestart()\<close> of a goroutine that met an error.\<close>

definition spawn_restart :: "tc \<Rightarrow> tc" where
  "spawn_restart s = (if \<not> stopped s \<and> \<not> restartFlag s then s\<lparr>spawned := Suc (spawned s)\<rparr> else s)"

text \<open>
  \<^verbatim>\<open>Test\<close>, a debug method for a client whose \<^verbatim>\<open>Start\<close> has returned, sets a timer; when it runs out, at any later moment, a restart is
  spawned, whether the client is stopped or not.
\<close>

fun after_start :: "pc \<Rightarrow> bool" where
  "after_start Started = True"
| "after_start StopFlag = True"
| "after_start StopCancel = True"
| "after_start (DLock InStop) = True"
| "after_start (DClose InStop c) = True"
| "after_start (DWait InStop) = True"
| "after_start Stopped = True"
| "after_start _ = False"

definition Test_begin :: "tc \<Rightarrow> tc" where
  "Test_begin s = s\<lparr>tests := Suc (tests s)\<rparr>"

definition Test_fire :: "tc \<Rightarrow> tc" where
  "Test_fire s =
     (let s1 = s\<lparr>tests := tests s - 1\<rparr> in if \<not> restartFlag s then s1\<lparr>spawned := Suc (spawned s)\<rparr> else s1)"

definition set_go :: "nat \<Rightarrow> goroutine \<Rightarrow> tc \<Rightarrow> tc" where
  "set_go i g s = s\<lparr>gos := (gos s)[i := g]\<rparr>"

definition end_go :: "nat \<Rightarrow> tc \<Rightarrow> tc" where
  "end_go i s = s\<lparr>gos := take i (gos s) @ drop (Suc i) (gos s)\<rparr>"

text \<open>The two goroutines of a connection read \<open>tc.wsconn\<close> first; the reader then calls a method of it.\<close>

definition go_begin :: "nat \<Rightarrow> tc \<Rightarrow> tc option" where
  "go_begin i s =
     (case gos s ! i of
        WNew \<Rightarrow> Some (set_go i (WRun (wsconn s) (ctx s)) s)
      | RNew \<Rightarrow> (case wsconn s of None \<Rightarrow> Some (s\<lparr>crashed := True\<rparr>) | Some c \<Rightarrow> Some (set_go i (RRun c) s))
      | _ \<Rightarrow> None)"

text \<open>A read ends with an error, always when the connection is closed; or it gives a message with an error code.\<close>

definition readMsg_error :: "nat \<Rightarrow> tc \<Rightarrow> tc option" where
  "readMsg_error i s = (case gos s ! i of RRun c \<Rightarrow> Some (spawn_restart (end_go i s)) | _ \<Rightarrow> None)"

definition readMsg_message :: "tc_cfg \<Rightarrow> nat \<Rightarrow> int option \<Rightarrow> tc \<Rightarrow> tc option" where
  "readMsg_message cfg i code s =
     (case gos s ! i of
        RRun c \<Rightarrow>
          if c \<notin> opened s then None
          else if \<not> ShowAnswers (config cfg) then Some s
          else (case code of
                  Some n \<Rightarrow> Some (if n \<ge> 300 then spawn_restart s else s)
                | None \<Rightarrow> Some s)
      | _ \<Rightarrow> None)"

definition writeMsg_done :: "nat \<Rightarrow> bool \<Rightarrow> tc \<Rightarrow> tc option" where
  "writeMsg_done i parentDone s =
     (case gos s ! i of
        WRun c x \<Rightarrow> if parentDone \<or> (case x of None \<Rightarrow> False | Some y \<Rightarrow> y \<in> ctxDone s) then Some (end_go i s) else None
      | _ \<Rightarrow> None)"

definition writeMsg_tick :: "nat \<Rightarrow> bool \<Rightarrow> tc \<Rightarrow> tc option" where
  "writeMsg_tick i ok s =
     (case gos s ! i of
        WRun None x \<Rightarrow> Some (s\<lparr>crashed := True\<rparr>)
      | WRun (Some c) x \<Rightarrow>
          if ok then (if c \<in> opened s then Some (set_go i (WRun (Some c) (ctx s)) s) else None)
          else Some (spawn_restart (end_go i s))
      | _ \<Rightarrow> None)"

definition writeMsg_take :: "nat \<Rightarrow> tc \<Rightarrow> tc option" where
  "writeMsg_take i s =
     (case gos s ! i of
        WRun c x \<Rightarrow>
          (case wsMsg s of
             [] \<Rightarrow> None
           | m # ms \<Rightarrow>
               let s1 = s\<lparr>wsMsg := ms\<rparr> in
               if restartFlag s \<or> stopped s then Some (set_go i (WRun c (ctx s)) (s1\<lparr>dropped := dropped s1 @ [m]\<rparr>))
               else Some (set_go i (WSend c m) s1))
      | _ \<Rightarrow> None)"

definition writeMsg_send :: "nat \<Rightarrow> bool \<Rightarrow> tc \<Rightarrow> tc option" where
  "writeMsg_send i ok s =
     (case gos s ! i of
        WSend None m \<Rightarrow> Some (s\<lparr>crashed := True\<rparr>)
      | WSend (Some c) m \<Rightarrow>
          if ok then (if c \<in> opened s then Some (set_go i (WRun (Some c) (ctx s)) (s\<lparr>wire := wire s @ [(c, m)]\<rparr>)) else None)
          else Some (spawn_restart (end_go i (s\<lparr>dropped := dropped s @ [m]\<rparr>)))
      | _ \<Rightarrow> None)"

subsection \<open>The token loop\<close>

text \<open>The difference of two instants, which stops at the bounds of a duration, and the product of a duration, as a float, with 0.75.\<close>

definition time_Sub :: "time \<Rightarrow> time \<Rightarrow> duration" where
  "time_Sub a b = max min_int64 (min max_int64 (a - b))"

definition three_quarters :: "duration \<Rightarrow> duration" where
  "three_quarters d = to_int (fmul binary64 (of_int_float binary64 d) (rnd binary64 False 3 4))"

definition refreshWait :: "time \<Rightarrow> duration \<Rightarrow> tc \<Rightarrow> duration" where
  "refreshWait now retryIn s =
     max 0 (if retryIn > 0 then retryIn
            else case tokenExpires s of
              None \<Rightarrow> 5 * 1000000000
            | Some e \<Rightarrow> time_Sub (tokenIssued s + three_quarters (time_Sub e (tokenIssued s))) now)"

definition set_loop :: "nat \<Rightarrow> loop \<Rightarrow> tc \<Rightarrow> tc" where
  "set_loop i l s = s\<lparr>loops := (loops s)[i := l]\<rparr>"

definition end_loop :: "nat \<Rightarrow> tc \<Rightarrow> tc" where
  "end_loop i s = s\<lparr>loops := take i (loops s) @ drop (Suc i) (loops s)\<rparr>"

definition tokenRefreshLoop_top :: "tc_cfg \<Rightarrow> time \<Rightarrow> nat \<Rightarrow> tc \<Rightarrow> tc option" where
  "tokenRefreshLoop_top cfg now i s =
     (case loops s ! i of
        LTop retryIn \<Rightarrow> Some (if \<not> started s then end_loop i s else set_loop i (LWait (refreshWait now retryIn s)) s)
      | _ \<Rightarrow> None)"

definition tokenRefreshLoop_wait :: "nat \<Rightarrow> bool \<Rightarrow> tc \<Rightarrow> tc option" where
  "tokenRefreshLoop_wait i timer s =
     (case loops s ! i of
        LWait _ \<Rightarrow> if timer then Some (set_loop i LFetch s) else if stopDone s then Some (end_loop i s) else None
      | _ \<Rightarrow> None)"

definition tokenRefreshLoop_fetch :: "time \<Rightarrow> nat \<Rightarrow> AuthTokenResponse option \<Rightarrow> tc \<Rightarrow> tc option" where
  "tokenRefreshLoop_fetch now i r s =
     (case loops s ! i of
        LFetch \<Rightarrow> (case r of
            Some a \<Rightarrow> Some (set_loop i (LTop 0) (set_token now a s))
          | None \<Rightarrow> Some (set_loop i (LTop (30 * 1000000000)) s))
      | _ \<Rightarrow> None)"

subsection \<open>Events\<close>

datatype app_event = EStart | EStartToken time "AuthTokenResponse option" | EStartFail | EStop | EStopFlag | EStopCancel | ETest | ETestFire

datatype conn_event =
    EEnter | EToken time | ENewToken "string option" | EDial bool | EAbort | EStore | EClose | ESpawnW | ESpawnR | EPush
  | EDisconnect | EConnClose | EWait

datatype rst_event = ETry | ETop | EWake | ESleepStopped | EFailed | EEnd

datatype go_event = EBegin | EReadError | ERead "int option" | ECtxDone bool | ETick bool | ETake | EWrite bool

datatype loop_event = ELoopTop time | ELoopWait bool | ELoopFetch time "AuthTokenResponse option"

datatype event =
    AppEv app_event | ConnEv who conn_event | RstEv rst_event | GoEv nat go_event | LoopEv nat loop_event
  | SendEv string string string

text \<open>
  The calls of \<^verbatim>\<open>Start\<close> and \<^verbatim>\<open>Stop\<close>.  \<open>again\<close> says in which states the caller starts the client once more after \<^verbatim>\<open>Stop\<close> or a failed
  \<^verbatim>\<open>Start\<close>.  An \<open>orderly\<close> caller does so when nothing of the earlier life is left: no restart running or spawned, no reader or writer, no
  \<^verbatim>\<open>Test\<close> timer and no connection in use.
\<close>

definition orderly :: "tc \<Rightarrow> bool" where
  "orderly s \<longleftrightarrow> rst s = Idle \<and> spawned s = 0 \<and> gos s = [] \<and> tests s = 0 \<and> wsconn s = None"

fun app_exec :: "(tc \<Rightarrow> bool) \<Rightarrow> app_event \<Rightarrow> tc \<Rightarrow> tc option" where
  "app_exec again EStart s =
     (if app s = Idle \<or> again s \<and> (app s = Stopped \<or> app s = StartErr) then Some (Start_begin s) else None)"
| "app_exec again (EStartToken now r) s = (if app s = StartToken then Some (Start_token now r s) else None)"
| "app_exec again EStartFail s = (if app s = StartFail then Some (s\<lparr>started := False, app := StartErr\<rparr>) else None)"
| "app_exec again EStop s =
     (if app s = Started \<or> app s = StartErr then Some (s\<lparr>started := False, app := StopFlag\<rparr>) else None)"
| "app_exec again EStopFlag s = (if app s = StopFlag then Some (s\<lparr>stopped := True, app := StopCancel\<rparr>) else None)"
| "app_exec again EStopCancel s = (if app s = StopCancel then Some (s\<lparr>stopDone := True, app := DLock InStop\<rparr>) else None)"
| "app_exec again ETest s = (if after_start (app s) then Some (Test_begin s) else None)"
| "app_exec again ETestFire s = (if 0 < tests s then Some (Test_fire s) else None)"

text \<open>\<^verbatim>\<open>wsConnect\<close> and \<^verbatim>\<open>wsDisconnect\<close>, section by section, in the thread that called them.\<close>

fun conn_exec :: "who \<Rightarrow> conn_event \<Rightarrow> tc \<Rightarrow> tc option" where
  "conn_exec w EEnter s = (case pc_of w s of CEnter k tok \<Rightarrow> Some (wsConnect_enter w k tok s) | _ \<Rightarrow> None)"
| "conn_exec w (EToken now) s = (case pc_of w s of CToken k \<Rightarrow> Some (wsConnect_token w k now s) | _ \<Rightarrow> None)"
| "conn_exec w (ENewToken r) s =
     (case pc_of w s of
        CNewToken k \<Rightarrow> Some (case r of Some tok \<Rightarrow> goto w (CDial k tok) s | None \<Rightarrow> goto w (CAbort k) s)
      | _ \<Rightarrow> None)"
| "conn_exec w (EDial ok) s =
     (case pc_of w s of
        CDial k tok \<Rightarrow> Some (if ok then wsConnect_dialled w k tok s else goto w (CAbort k) s)
      | _ \<Rightarrow> None)"
| "conn_exec w EAbort s =
     (case pc_of w s of CAbort k \<Rightarrow> Some (goto w (connect_ret k False) (s\<lparr>connecting := False\<rparr>)) | _ \<Rightarrow> None)"
| "conn_exec w EStore s = (case pc_of w s of CDialled k c tok \<Rightarrow> Some (wsConnect_store w k c tok s) | _ \<Rightarrow> None)"
| "conn_exec w EClose s =
     (case pc_of w s of CClose k c \<Rightarrow> Some (goto w (connect_ret k False) (s\<lparr>opened := opened s - {c}\<rparr>)) | _ \<Rightarrow> None)"
| "conn_exec w ESpawnW s =
     (case pc_of w s of CSpawnW k tok \<Rightarrow> Some (goto w (CSpawnR k tok) (s\<lparr>gos := gos s @ [WNew]\<rparr>)) | _ \<Rightarrow> None)"
| "conn_exec w ESpawnR s =
     (case pc_of w s of CSpawnR k tok \<Rightarrow> Some (goto w (CPush k tok) (s\<lparr>gos := gos s @ [RNew]\<rparr>)) | _ \<Rightarrow> None)"
| "conn_exec w EPush s = (case pc_of w s of CPush k tok \<Rightarrow> Some (wsConnect_push w k tok s) | _ \<Rightarrow> None)"
| "conn_exec w EDisconnect s = (case pc_of w s of DLock d \<Rightarrow> Some (wsDisconnect_locked w d s) | _ \<Rightarrow> None)"
| "conn_exec w EConnClose s =
     (case pc_of w s of DClose d c \<Rightarrow> Some (goto w (DWait d) (s\<lparr>opened := opened s - {c}\<rparr>)) | _ \<Rightarrow> None)"
| "conn_exec w EWait s =
     (case pc_of w s of DWait d \<Rightarrow> if gos s = [] then Some (goto w (disc_ret d) s) else None | _ \<Rightarrow> None)"

text \<open>\<^verbatim>\<open>wsRestart\<close>.\<close>

fun rst_exec :: "rst_event \<Rightarrow> tc \<Rightarrow> tc option" where
  "rst_exec ETry s =
     (if spawned s = 0 then None
      else if restartFlag s then Some (s\<lparr>spawned := spawned s - 1\<rparr>)
      else if rst s = Idle then Some (s\<lparr>spawned := spawned s - 1, restartFlag := True, rst := RTop 1\<rparr>)
      else None)"
| "rst_exec ETop s =
     (case rst s of RTop n \<Rightarrow> Some (s\<lparr>rst := (if stopped s then REnd else DLock (BeforeDial n))\<rparr>) | _ \<Rightarrow> None)"
| "rst_exec EWake s = (case rst s of RSleep n \<Rightarrow> Some (s\<lparr>rst := CEnter (InRestart (n + 1)) []\<rparr>) | _ \<Rightarrow> None)"
| "rst_exec ESleepStopped s =
     (case rst s of RSleep n \<Rightarrow> if stopDone s then Some (s\<lparr>rst := REnd\<rparr>) else None | _ \<Rightarrow> None)"
| "rst_exec EFailed s = (case rst s of RFailed n \<Rightarrow> Some (s\<lparr>rst := (if stopped s then REnd else RTop n)\<rparr>) | _ \<Rightarrow> None)"
| "rst_exec EEnd s = (if rst s = REnd then Some (s\<lparr>restartFlag := False, rst := Idle\<rparr>) else None)"

fun go_exec :: "tc_cfg \<Rightarrow> nat \<Rightarrow> go_event \<Rightarrow> tc \<Rightarrow> tc option" where
  "go_exec cfg i EBegin s = go_begin i s"
| "go_exec cfg i EReadError s = readMsg_error i s"
| "go_exec cfg i (ERead code) s = readMsg_message cfg i code s"
| "go_exec cfg i (ECtxDone parentDone) s = writeMsg_done i parentDone s"
| "go_exec cfg i (ETick ok) s = writeMsg_tick i ok s"
| "go_exec cfg i ETake s = writeMsg_take i s"
| "go_exec cfg i (EWrite ok) s = writeMsg_send i ok s"

fun loop_exec :: "tc_cfg \<Rightarrow> nat \<Rightarrow> loop_event \<Rightarrow> tc \<Rightarrow> tc option" where
  "loop_exec cfg i (ELoopTop now) s = tokenRefreshLoop_top cfg now i s"
| "loop_exec cfg i (ELoopWait timer) s = tokenRefreshLoop_wait i timer s"
| "loop_exec cfg i (ELoopFetch now r) s = tokenRefreshLoop_fetch now i r s"

definition tc_exec :: "tc_cfg \<Rightarrow> (tc \<Rightarrow> bool) \<Rightarrow> event \<Rightarrow> tc \<Rightarrow> tc option" where
  "tc_exec cfg again e s =
     (if crashed s then None
      else case e of
        AppEv a \<Rightarrow> app_exec again a s
      | ConnEv w c \<Rightarrow> conn_exec w c s
      | RstEv r \<Rightarrow> rst_exec r s
      | GoEv i g \<Rightarrow> if i < length (gos s) then go_exec cfg i g s else None
      | LoopEv i l \<Rightarrow> if i < length (loops s) then loop_exec cfg i l s else None
      | SendEv msg chat mode \<Rightarrow> Some (snd (SendMsg msg chat mode s)))"

fun tc_run :: "tc_cfg \<Rightarrow> (tc \<Rightarrow> bool) \<Rightarrow> event list \<Rightarrow> tc \<Rightarrow> tc option" where
  "tc_run cfg again [] s = Some s"
| "tc_run cfg again (e # es) s = (case tc_exec cfg again e s of None \<Rightarrow> None | Some s' \<Rightarrow> tc_run cfg again es s')"

inductive tc_reachable :: "tc_cfg \<Rightarrow> (tc \<Rightarrow> bool) \<Rightarrow> tc \<Rightarrow> bool" for cfg :: tc_cfg and again :: "tc \<Rightarrow> bool" where
  init: "tc_reachable cfg again NewTcClient"
| step: "tc_reachable cfg again s \<Longrightarrow> tc_exec cfg again e s = Some s' \<Longrightarrow> tc_reachable cfg again s'"

lemma run_reachable: "tc_reachable cfg again s \<Longrightarrow> tc_run cfg again es s = Some s' \<Longrightarrow> tc_reachable cfg again s'"
  by (induction es arbitrary: s) (auto split: option.splits intro: tc_reachable.step)

subsection \<open>The invariant\<close>

text \<open>The connection a thread holds in a local variable only.\<close>

fun held :: "pc \<Rightarrow> nat set" where
  "held (CDialled k c tok) = {c}"
| "held (CClose k c) = {c}"
| "held (DClose d c) = {c}"
| "held _ = {}"

text \<open>Between taking the right to dial and giving it up.\<close>

fun dialling :: "pc \<Rightarrow> bool" where
  "dialling (CToken k) = True"
| "dialling (CNewToken k) = True"
| "dialling (CDial k tok) = True"
| "dialling (CAbort k) = True"
| "dialling (CDialled k c tok) = True"
| "dialling _ = False"

text \<open>Before the first connection of \<^verbatim>\<open>Start\<close> is stored.\<close>

fun connecting_first :: "pc \<Rightarrow> bool" where
  "connecting_first Idle = True"
| "connecting_first StartToken = True"
| "connecting_first (CEnter InStart tok) = True"
| "connecting_first p = dialling p"

text \<open>The stop flag is set, and the connection has been taken away.\<close>

fun stop_done :: "pc \<Rightarrow> bool" where
  "stop_done (DClose InStop c) = True"
| "stop_done (DWait InStop) = True"
| "stop_done Stopped = True"
| "stop_done _ = False"

fun app_pc :: "pc \<Rightarrow> bool" where
  "app_pc (CEnter k tok) = (k = InStart)" | "app_pc (CToken k) = (k = InStart)" | "app_pc (CNewToken k) = (k = InStart)"
| "app_pc (CDial k tok) = (k = InStart)" | "app_pc (CAbort k) = (k = InStart)" | "app_pc (CDialled k c tok) = (k = InStart)"
| "app_pc (CClose k c) = (k = InStart)" | "app_pc (CSpawnW k tok) = (k = InStart)" | "app_pc (CSpawnR k tok) = (k = InStart)"
| "app_pc (CPush k tok) = (k = InStart)"
| "app_pc (DLock d) = (d = InStop \<or> d = InConnect InStart)" | "app_pc (DClose d c) = (d = InStop \<or> d = InConnect InStart)"
| "app_pc (DWait d) = (d = InStop \<or> d = InConnect InStart)"
| "app_pc (RTop n) = False" | "app_pc (RSleep n) = False" | "app_pc (RFailed n) = False" | "app_pc REnd = False"
| "app_pc _ = True"

definition tc_inv :: "tc \<Rightarrow> bool" where
  "tc_inv s \<longleftrightarrow>
     app_pc (app s) \<and>
     (\<forall>c\<in>opened s. wsconn s = Some c \<or> c \<in> held (app s) \<or> c \<in> held (rst s)) \<and>
     (connecting_first (app s) \<longrightarrow> wsconn s = None \<and> rst s = Idle \<and> spawned s = 0 \<and> gos s = [] \<and> tests s = 0) \<and>
     (dialling (rst s) \<longrightarrow> wsconn s = None) \<and>
     (stop_done (app s) \<longrightarrow> stopped s \<and> wsconn s = None) \<and>
     (app s = StopCancel \<or> app s = DLock InStop \<longrightarrow> stopped s) \<and> (app s = Idle \<longrightarrow> \<not> stopped s)"

lemma tc_inv_init: "tc_inv NewTcClient"
  by (simp add: tc_inv_def NewTcClient_def)

lemma Test_simps [simp]:
  "app (Test_fire s) = app s" "rst (Test_fire s) = rst s" "wsconn (Test_fire s) = wsconn s" "opened (Test_fire s) = opened s"
  "stopped (Test_fire s) = stopped s" "gos (Test_fire s) = gos s" "fresh (Test_fire s) = fresh s"
  "app (Test_begin s) = app s" "rst (Test_begin s) = rst s" "wsconn (Test_begin s) = wsconn s" "opened (Test_begin s) = opened s"
  "stopped (Test_begin s) = stopped s" "gos (Test_begin s) = gos s" "fresh (Test_begin s) = fresh s"
  by (simp_all add: Test_fire_def Test_begin_def Let_def)

lemma after_start_connected: "after_start p \<Longrightarrow> \<not> connecting_first p"
  by (cases p rule: after_start.cases) auto

lemma Test_inv: "tc_inv s \<Longrightarrow> after_start (app s) \<Longrightarrow> tc_inv (Test_begin s)" "tc_inv s \<Longrightarrow> 0 < tests s \<Longrightarrow> tc_inv (Test_fire s)"
  using after_start_connected [of "app s"] by (auto simp: tc_inv_def)

lemma app_exec_inv:
  assumes "tc_inv s"
  shows "pred_option tc_inv (app_exec orderly e s)"
proof (cases "e = ETest \<or> e = ETestFire")
  case False
  then show ?thesis
    using assms
    by (cases e; cases "app s")
       (auto simp: tc_inv_def orderly_def Start_begin_def Start_token_def set_token_def Let_def split: option.split)
qed (use assms Test_inv in auto)

lemma rst_exec_inv: "tc_inv s \<Longrightarrow> pred_option tc_inv (rst_exec e s)"
  by (cases e; cases "rst s") (auto simp: tc_inv_def)

lemmas conn_sections =
  wsConnect_enter_def wsConnect_token_def wsConnect_dialled_def wsConnect_store_def wsDisconnect_locked_def wsConnect_push_def pushWSMsg_def
  push_def goto_def pc_of_def Let_def

lemma connect_ret_simps [simp]:
  "held (connect_ret k b) = {}" "\<not> dialling (connect_ret k b)" "\<not> connecting_first (connect_ret k b)"
  "\<not> stop_done (connect_ret k b)" "connect_ret k b \<noteq> Idle" "connect_ret k b \<noteq> StopCancel" "connect_ret k b \<noteq> DLock d"
  "app_pc (connect_ret k b) = (k = InStart)"
  by (cases k; cases b; simp)+

lemma app_pc_disc_ret [simp]: "d = InStop \<or> d = InConnect InStart \<Longrightarrow> app_pc (disc_ret d)"
  by auto

lemma stop_done_simps [simp]: "stop_done (DClose d c) = (d = InStop)" "stop_done (DWait d) = (d = InStop)"
  by (cases d; simp)+

lemma disc_ret_simps [simp]:
  "held (disc_ret d) = {}" "\<not> dialling (disc_ret d)" "disc_ret d \<noteq> Idle" "disc_ret d \<noteq> StopCancel" "disc_ret d \<noteq> DLock d'"
  "\<not> connecting_first (disc_ret d)" "stop_done (disc_ret d) = (d = InStop)"
  by (cases d; simp)+

lemma conn_exec_App_inv: "tc_inv s \<Longrightarrow> pred_option tc_inv (conn_exec App e s)"
  by (cases e; cases "app s") (simp_all add: tc_inv_def conn_sections split: option.split, (force+)?)

lemma conn_exec_Restart_inv: "tc_inv s \<Longrightarrow> pred_option tc_inv (conn_exec Restart e s)"
  by (cases e; cases "rst s") (simp_all add: tc_inv_def conn_sections split: option.split, (force+)?)

lemmas go_sections =
  go_begin_def readMsg_error_def readMsg_message_def writeMsg_done_def writeMsg_tick_def writeMsg_take_def writeMsg_send_def
  set_go_def end_go_def spawn_restart_def

lemma go_exec_inv: "tc_inv s \<Longrightarrow> i < length (gos s) \<Longrightarrow> pred_option tc_inv (go_exec cfg i e s)"
  by (cases e; cases "gos s ! i")
     (simp_all add: tc_inv_def go_sections Let_def split: option.split list.split, (force+)?)

lemmas loop_sections =
  tokenRefreshLoop_top_def tokenRefreshLoop_wait_def tokenRefreshLoop_fetch_def set_loop_def end_loop_def set_token_def

lemma loop_exec_inv: "tc_inv s \<Longrightarrow> pred_option tc_inv (loop_exec cfg i e s)"
  by (cases e; cases "loops s ! i") (simp_all add: tc_inv_def loop_sections split: option.split)

lemma SendMsg_inv: "tc_inv s \<Longrightarrow> tc_inv (snd (SendMsg a b c s))"
  by (auto simp: tc_inv_def SendMsg_def pushWSMsg_def push_def Let_def)

lemma conn_exec_inv: "tc_inv s \<Longrightarrow> pred_option tc_inv (conn_exec w e s)"
  by (cases w) (simp_all only: conn_exec_App_inv conn_exec_Restart_inv)

lemma tc_exec_inv: "tc_inv s \<Longrightarrow> pred_option tc_inv (tc_exec cfg orderly e s)"
  unfolding tc_exec_def
  by (cases e) (simp_all add: app_exec_inv conn_exec_inv rst_exec_inv go_exec_inv loop_exec_inv SendMsg_inv
      del: app_exec.simps conn_exec.simps rst_exec.simps go_exec.simps loop_exec.simps)

lemma reachable_tc_inv: "tc_reachable cfg orderly s \<Longrightarrow> tc_inv s"
  by (induction rule: tc_reachable.induct) (simp_all add: tc_inv_init, metis tc_exec_inv option.pred_inject(2))

text \<open>The connection is closed once \<^verbatim>\<open>Stop\<close> has returned and no restart is running.\<close>

lemma stopped_nothing_open:
  assumes "tc_inv s" and "app s = Stopped" and "rst s = Idle"
  shows "opened s = {} \<and> wsconn s = None"
  using assms by (auto simp: tc_inv_def)

subsection \<open>Refinement of the one-connection contract\<close>

definition tc_slot :: "tc \<Rightarrow> slot" where
  "tc_slot s = \<lparr>cur = wsconn s, live = opened s, shut = stopped s\<rparr>"

text \<open>Every connection in use or in the hands of a thread is open, and each is in one place only.\<close>

definition tc_own :: "tc \<Rightarrow> bool" where
  "tc_own s \<longleftrightarrow>
     (\<forall>c\<in>opened s. c < fresh s) \<and>
     (\<forall>c. wsconn s = Some c \<longrightarrow> c \<in> opened s \<and> c \<notin> held (app s) \<and> c \<notin> held (rst s)) \<and>
     (\<forall>c\<in>held (app s). c \<in> opened s \<and> c \<notin> held (rst s)) \<and> (\<forall>c\<in>held (rst s). c \<in> opened s)"

lemma tc_own_init: "tc_own NewTcClient"
  by (simp add: tc_own_def NewTcClient_def)

lemma app_exec_own: "tc_own s \<Longrightarrow> pred_option tc_own (app_exec again e s)"
  by (cases e; cases "app s")
     (auto simp: tc_own_def Start_begin_def Start_token_def set_token_def Let_def split: option.split)

lemma rst_exec_own: "tc_own s \<Longrightarrow> pred_option tc_own (rst_exec e s)"
  by (cases e; cases "rst s") (auto simp: tc_own_def)

lemma conn_exec_App_own: "tc_own s \<Longrightarrow> pred_option tc_own (conn_exec App e s)"
  by (cases e; cases "app s") (simp_all add: tc_own_def conn_sections split: option.split, (force+)?)

lemma conn_exec_Restart_own: "tc_own s \<Longrightarrow> pred_option tc_own (conn_exec Restart e s)"
  by (cases e; cases "rst s") (simp_all add: tc_own_def conn_sections split: option.split, (force+)?)

lemma go_exec_own: "tc_own s \<Longrightarrow> pred_option tc_own (go_exec cfg i e s)"
  by (cases e; cases "gos s ! i") (simp_all add: tc_own_def go_sections Let_def split: option.split list.split)

lemma loop_exec_own: "tc_own s \<Longrightarrow> pred_option tc_own (loop_exec cfg i e s)"
  by (cases e; cases "loops s ! i") (simp_all add: tc_own_def loop_sections split: option.split)


text \<open>One life of the client: \<open>never\<close> starts it again.\<close>

abbreviation never :: "tc \<Rightarrow> bool" where
  "never \<equiv> \<lambda>_. False"

lemma app_exec_other: "e \<noteq> EStart \<Longrightarrow> app_exec again e s = app_exec never e s"
  by (cases e) simp_all

lemma tc_exec_other: "e \<noteq> AppEv EStart \<Longrightarrow> tc_exec cfg again e s = tc_exec cfg never e s"
  using app_exec_other [of _ again s] by (cases e) (auto simp: tc_exec_def simp del: app_exec.simps)

lemma tc_exec_never: "tc_exec cfg never e s = Some s' \<Longrightarrow> tc_exec cfg again e s = Some s'"
  by (cases "e = AppEv EStart") (simp add: tc_exec_def split: if_splits, metis tc_exec_other)

text \<open>Started again in an orderly way, the client is back at its first state.\<close>

lemma tc_exec_lives:
  assumes "tc_inv s" and "tc_exec cfg orderly e s = Some s'"
  shows "tc_exec cfg never e s = Some s' \<or> tc_slot s' = tc_slot s \<or> tc_slot s' = empty_slot"
proof (cases "e = AppEv EStart")
  case True
  then have s': "s' = Start_begin s" and a: "app s = Idle \<or> orderly s \<and> (app s = Stopped \<or> app s = StartErr)"
    using assms(2) by (simp_all add: tc_exec_def split: if_splits)
  have "opened s = {}" "wsconn s = None" using a assms(1) by (auto simp: tc_inv_def orderly_def)
  then show ?thesis unfolding s' by (simp add: Start_begin_def tc_slot_def empty_slot_def)
qed (use assms(2) in \<open>metis tc_exec_other\<close>)

lemma app_exec_view:
  "tc_inv s \<Longrightarrow> pred_option (\<lambda>s'. slot_steps (tc_slot s) (tc_slot s')) (app_exec never e s)"
  by (cases e; cases "app s")
     (simp_all add: tc_inv_def tc_slot_def Start_begin_def Start_token_def set_token_def Let_def slot_moves split: option.split)

lemma rst_exec_view: "pred_option (\<lambda>s'. slot_steps (tc_slot s) (tc_slot s')) (rst_exec e s)"
  by (cases e; cases "rst s") (simp_all add: tc_slot_def)

lemma go_exec_view: "pred_option (\<lambda>s'. slot_steps (tc_slot s) (tc_slot s')) (go_exec cfg i e s)"
  by (cases e; cases "gos s ! i") (simp_all add: tc_slot_def go_sections Let_def split: option.split list.split)

lemma loop_exec_view: "pred_option (\<lambda>s'. slot_steps (tc_slot s) (tc_slot s')) (loop_exec cfg i e s)"
  by (cases e; cases "loops s ! i") (simp_all add: tc_slot_def loop_sections split: option.split)

lemma conn_exec_App_view:
  "tc_inv s \<Longrightarrow> tc_own s \<Longrightarrow> pred_option (\<lambda>s'. slot_steps (tc_slot s) (tc_slot s')) (conn_exec App e s)"
  by (cases e; cases "app s")
     (simp_all add: tc_slot_def tc_inv_def tc_own_def conn_sections slot_moves split: option.split, (force intro: slot_moves)+)

lemma conn_exec_Restart_view:
  "tc_inv s \<Longrightarrow> tc_own s \<Longrightarrow> pred_option (\<lambda>s'. slot_steps (tc_slot s) (tc_slot s')) (conn_exec Restart e s)"
  by (cases e; cases "rst s")
     (simp_all add: tc_slot_def tc_inv_def tc_own_def conn_sections slot_moves split: option.split, (force intro: slot_moves)+)

lemma conn_exec_own: "tc_own s \<Longrightarrow> pred_option tc_own (conn_exec w e s)"
  by (cases w) (simp_all only: conn_exec_App_own conn_exec_Restart_own)

lemma conn_exec_view:
  "tc_inv s \<Longrightarrow> tc_own s \<Longrightarrow> pred_option (\<lambda>s'. slot_steps (tc_slot s) (tc_slot s')) (conn_exec w e s)"
  by (cases w) (simp_all only: conn_exec_App_view conn_exec_Restart_view)

lemma SendMsg_own: "tc_own s \<Longrightarrow> tc_own (snd (SendMsg a b c s)) \<and> tc_slot (snd (SendMsg a b c s)) = tc_slot s"
  by (auto simp: tc_own_def tc_slot_def SendMsg_def pushWSMsg_def push_def Let_def)

definition tc_good :: "tc \<Rightarrow> bool" where
  "tc_good s \<longleftrightarrow> tc_inv s \<and> tc_own s"

lemma tc_exec_own: "tc_own s \<Longrightarrow> pred_option tc_own (tc_exec cfg again e s)"
  unfolding tc_exec_def
  by (cases e) (simp_all add: app_exec_own conn_exec_own rst_exec_own go_exec_own loop_exec_own SendMsg_own
      del: app_exec.simps conn_exec.simps rst_exec.simps go_exec.simps loop_exec.simps)

lemma tc_exec_view:
  "tc_good s \<Longrightarrow> pred_option (\<lambda>s'. slot_steps (tc_slot s) (tc_slot s')) (tc_exec cfg never e s)"
  unfolding tc_exec_def tc_good_def
  by (cases e) (simp_all add: app_exec_view conn_exec_view rst_exec_view go_exec_view loop_exec_view SendMsg_own
      del: app_exec.simps conn_exec.simps rst_exec.simps go_exec.simps loop_exec.simps)

lemma tc_exec_good: "tc_good s \<Longrightarrow> pred_option tc_good (tc_exec cfg orderly e s)"
  using tc_exec_inv [of s cfg e] tc_exec_own [of s cfg orderly e] by (cases "tc_exec cfg orderly e s") (simp_all add: tc_good_def)

interpretation tc: conn_slot "\<lambda>s s'. \<exists>e. tc_exec cfg never e s = Some s'" tc_good tc_slot
proof
  fix s s'
  assume g: "tc_good s" and "\<exists>e. tc_exec cfg never e s = Some s'"
  then obtain e where e: "tc_exec cfg never e s = Some s'" by blast
  show "tc_good s'" using g tc_exec_good [of s cfg e] tc_exec_never [OF e, of orderly] by simp
  show "slot_steps (tc_slot s) (tc_slot s')" using tc_exec_view [OF g, of cfg e] e by simp
qed

lemma reachable_good: "tc_reachable cfg orderly s \<Longrightarrow> tc_good s \<and> slot_steps empty_slot (tc_slot s)"
proof (induction rule: tc_reachable.induct)
  case init
  have "tc_slot NewTcClient = empty_slot" by (simp add: tc_slot_def NewTcClient_def empty_slot_def)
  then show ?case by (simp add: tc_good_def tc_inv_init tc_own_init)
next
  case (step s e s')
  then have g: "tc_good s'" using tc_exec_good [of s cfg e] by simp
  have "slot_steps (tc_slot s) (tc_slot s')" if "tc_exec cfg never e s = Some s'"
    using tc_exec_view [of s cfg e] step.IH that by simp
  then show ?case using tc_exec_lives [of s cfg e s'] step g by (auto simp: tc_good_def intro: rtranclp_trans)
qed


subsection \<open>Messages\<close>

text \<open>The message in the hands of a writer.\<close>

fun in_hand :: "goroutine \<Rightarrow> WSHeader list" where
  "in_hand (WSend c m) = [m]"
| "in_hand _ = []"

definition in_hands :: "goroutine list \<Rightarrow> WSHeader multiset" where
  "in_hands gs = mset (concat (map in_hand gs))"

lemma in_hands_simps [simp]:
  "in_hands [] = {#}" "in_hands (g # gs) = mset (in_hand g) + in_hands gs" "in_hands (gs @ hs) = in_hands gs + in_hands hs"
  by (simp_all add: in_hands_def)

lemma in_hands_at: "i < length gs \<Longrightarrow> in_hands gs = mset (in_hand (gs ! i)) + (in_hands (take i gs) + in_hands (drop (Suc i) gs))"
  by (subst id_take_nth_drop [of i gs]) simp_all

lemma in_hands_update:
  "i < length gs \<Longrightarrow> in_hands (gs[i := g]) = mset (in_hand g) + (in_hands (take i gs) + in_hands (drop (Suc i) gs))"
  by (simp add: upd_conv_take_nth_drop)

definition conserved :: "tc \<Rightarrow> bool" where
  "conserved s \<longleftrightarrow> mset (pushed s) = mset (map snd (wire s)) + mset (dropped s) + mset (wsMsg s) + in_hands (gos s)"

lemma go_exec_conserved: "conserved s \<Longrightarrow> i < length (gos s) \<Longrightarrow> pred_option conserved (go_exec cfg i e s)"
  by (cases e; cases "gos s ! i")
     (simp_all add: conserved_def go_sections Let_def in_hands_update in_hands_at split: option.split list.split)

lemma app_exec_conserved: "conserved s \<Longrightarrow> pred_option conserved (app_exec again e s)"
  by (cases e) (simp_all add: conserved_def Test_fire_def Test_begin_def Start_begin_def Start_token_def set_token_def Let_def split: option.split)

lemma rst_exec_conserved: "conserved s \<Longrightarrow> pred_option conserved (rst_exec e s)"
  by (cases e; cases "rst s") (simp_all add: conserved_def)

lemma conn_exec_conserved: "conserved s \<Longrightarrow> pred_option conserved (conn_exec w e s)"
  by (cases e; cases "pc_of w s"; cases w) (simp_all add: conserved_def conn_sections split: option.split)

lemma loop_exec_conserved: "conserved s \<Longrightarrow> pred_option conserved (loop_exec cfg i e s)"
  by (cases e; cases "loops s ! i") (simp_all add: conserved_def loop_sections split: option.split)

lemma SendMsg_conserved: "conserved s \<Longrightarrow> conserved (snd (SendMsg a b c s))"
  by (simp add: conserved_def SendMsg_def pushWSMsg_def push_def Let_def)

lemma tc_exec_conserved: "conserved s \<Longrightarrow> pred_option conserved (tc_exec cfg again e s)"
  unfolding tc_exec_def
  by (cases e) (simp_all add: app_exec_conserved conn_exec_conserved rst_exec_conserved go_exec_conserved loop_exec_conserved
      SendMsg_conserved del: app_exec.simps conn_exec.simps rst_exec.simps go_exec.simps loop_exec.simps)

lemma reachable_conserved: "tc_reachable cfg again s \<Longrightarrow> conserved s"
  by (induction rule: tc_reachable.induct)
     (simp add: conserved_def NewTcClient_def, metis tc_exec_conserved option.pred_inject(2))


subsection \<open>The restart delay\<close>

definition restart_backoff :: "nat \<Rightarrow> int \<Rightarrow> duration" where
  "restart_backoff n j =
     (let b = int n * 60 * 1000000000; b1 = (if b > maxRestartBackoff then maxRestartBackoff else b) in b1 + j)"

text \<open>With \<open>j\<close> drawn by \<^verbatim>\<open>rand.Int63n\<close> below half of the capped delay, a restart waits between two and seven and a half minutes.\<close>

lemma restart_backoff_bounds:
  assumes "1 < n" and "0 \<le> j" and "j < min (int n * 60000000000) maxRestartBackoff div 2"
  shows "120000000000 \<le> restart_backoff n j \<and> restart_backoff n j < 450000000000"
  using assms by (auto simp: restart_backoff_def maxRestartBackoff_def Let_def min_def split: if_splits)

subsection \<open>Runs\<close>

definition demo_tc_cfg :: tc_cfg where
  "demo_tc_cfg = \<lparr>config = \<lparr>Server = ''srv'', User = ''u'', Password = ''p'', ShowAnswers = False, InsecureSkipVerify = True\<rparr>\<rparr>"

definition demo_reply :: AuthTokenResponse where
  "demo_reply = \<lparr>AccessToken = ''jwt'', TokenType = ''JWT'', ExpiresAt = 3600\<rparr>"

text \<open>\<^verbatim>\<open>Start\<close> connects and queues the authentication.\<close>

definition connect_events :: "event list" where
  "connect_events =
     [AppEv EStart, AppEv (EStartToken 0 (Some demo_reply)), ConnEv App EEnter, ConnEv App (EDial True), ConnEv App EStore,
      ConnEv App ESpawnW, ConnEv App ESpawnR, ConnEv App EPush]"

text \<open>Its goroutines begin, the authentication is sent, the connection is lost and the restart reaches its dial.\<close>

definition lost_events :: "event list" where
  "lost_events =
     [GoEv 0 EBegin, GoEv 1 EBegin, GoEv 0 ETake, GoEv 0 (EWrite True), GoEv 1 EReadError, RstEv ETry, RstEv ETop,
      ConnEv Restart EDisconnect, GoEv 0 (ECtxDone False), ConnEv Restart EConnClose, ConnEv Restart EWait,
      ConnEv Restart EEnter, ConnEv Restart (EToken 1)]"

definition stop_events :: "event list" where
  "stop_events = [AppEv EStop, AppEv EStopFlag, AppEv EStopCancel, ConnEv App EDisconnect]"

definition stop_all_events :: "event list" where
  "stop_all_events =
     connect_events @ [GoEv 0 EBegin, GoEv 1 EBegin] @ stop_events @
     [ConnEv App EConnClose, GoEv 1 EReadError, GoEv 0 (ECtxDone False), ConnEv App EWait]"

lemma run_from_init: "tc_run cfg again es NewTcClient = Some s \<Longrightarrow> tc_reachable cfg again s"
  by (rule run_reachable [OF tc_reachable.init])

lemma run_pred:
  "(case tc_run cfg again es NewTcClient of None \<Rightarrow> False | Some s \<Rightarrow> P s) \<Longrightarrow> \<exists>s. tc_reachable cfg again s \<and> P s"
  by (auto split: option.splits intro: run_from_init)

subsection \<open>Properties\<close>

text \<open>
  C5: A client that is started and stopped by one caller in turn, and started again only when nothing of the earlier life is left (no restart
  running or spawned, no reader or writer, no timer, no connection), leaves no web socket open, however the caller, the restarts, the readers and the
  writers interleave: when \<^verbatim>\<open>Stop\<close> has returned and no restart is running, every connection ever dialled, in any of its
  lives, is closed and none is in use.  Started again while a restart is dialling it does leave one (\<open>start_again_leaks\<close>).
\<close>
theorem tc_stop_leaks_nothing:
  assumes "tc_reachable cfg orderly s" and "app s = Stopped" and "rst s = Idle"
  shows "opened s = {} \<and> wsconn s = None"
  using stopped_nothing_open [OF reachable_tc_inv [OF assms(1)] assms(2,3)] .

text \<open>Two lives, each with a connection.\<close>

theorem tc_stop_leaks_nothing_witness:
  "\<exists>s. tc_reachable demo_tc_cfg orderly s \<and> app s = Stopped \<and> rst s = Idle \<and> fresh s = 2 \<and> opened s = {} \<and> wsconn s = None"
proof -
  have "case tc_run demo_tc_cfg orderly (stop_all_events @ stop_all_events) NewTcClient of
      None \<Rightarrow> False | Some s \<Rightarrow> app s = Stopped \<and> rst s = Idle \<and> fresh s = 2"
    by code_simp
  from run_pred [OF this] obtain s where s: "tc_reachable demo_tc_cfg orderly s" "app s = Stopped" "rst s = Idle" "fresh s = 2"
    by blast
  then show ?thesis using tc_stop_leaks_nothing [OF s(1-3)] by blast
qed

text \<open>
  C11: The client refines the contract of a client with one connection.  Seen through the connection in use, the open connections and the stop
  flag, every state of a client with orderly lives (as above) is one the contract reaches from the empty slot, and within a life, that is until
  the client is started again, every run is a run of \<open>slot_step\<close>: a connection is put in use only when none is and the client is not
  stopped, and once it is stopped with none in use none is until the next \<^verbatim>\<open>Start\<close>.
\<close>
theorem tc_refines_slot:
  assumes "tc_reachable cfg orderly s" and "(\<lambda>s s'. \<exists>e. tc_exec cfg never e s = Some s')\<^sup>*\<^sup>* s s'"
  shows "slot_steps empty_slot (tc_slot s) \<and> slot_steps (tc_slot s) (tc_slot s') \<and>
         (stopped s \<and> wsconn s = None \<longrightarrow> stopped s' \<and> wsconn s' = None)"
proof -
  have i: "tc_good s" "slot_steps empty_slot (tc_slot s)" using reachable_good [OF assms(1)] by simp_all
  then show ?thesis
    using tc.run_refines [OF assms(2) i(1)] tc.stays_disconnected [OF assms(2) i(1)] by (simp add: tc_slot_def)
qed

theorem tc_refines_slot_witness:
  "\<exists>s. tc_reachable demo_tc_cfg orderly s \<and> fresh s = 2 \<and> stopped s \<and> wsconn s = None \<and> slot_steps empty_slot (tc_slot s)"
proof -
  have "case tc_run demo_tc_cfg orderly (stop_all_events @ stop_all_events) NewTcClient of
      None \<Rightarrow> False | Some s \<Rightarrow> fresh s = 2 \<and> stopped s \<and> wsconn s = None"
    by code_simp
  from run_pred [OF this] obtain s where s: "tc_reachable demo_tc_cfg orderly s" "fresh s = 2" "stopped s" "wsconn s = None" by blast
  show ?thesis using tc_refines_slot [OF s(1) rtranclp.rtrancl_refl] s by blast
qed

text \<open>
  C17: No message is sent twice, invented or lost without trace: at any moment of any run, restarts of the whole client
  included, the messages accepted into the queue are, counted with multiplicity, those written to some connection, those
  dropped, those still queued and those in the hands of a writer.
\<close>
theorem messages_conserved:
  assumes "tc_reachable cfg again s"
  shows "mset (pushed s) = mset (map snd (wire s)) + mset (dropped s) + mset (wsMsg s) + in_hands (gos s)"
  using reachable_conserved [OF assms] by (simp add: conserved_def)

theorem messages_conserved_witness:
  "\<exists>s. tc_reachable demo_tc_cfg orderly s \<and> length (wire s) = 1 \<and>
     mset (pushed s) = mset (map snd (wire s)) + mset (dropped s) + mset (wsMsg s) + in_hands (gos s)"
proof -
  have "case tc_run demo_tc_cfg orderly (connect_events @ lost_events) NewTcClient of None \<Rightarrow> False | Some s \<Rightarrow> length (wire s) = 1"
    by code_simp
  from run_pred [OF this] obtain s where s: "tc_reachable demo_tc_cfg orderly s" "length (wire s) = 1" by blast
  show ?thesis using messages_conserved [OF s(1)] s by blast
qed

text \<open>
  After a lost connection the client may stay connected without ever authenticating: on some run the restart has
  finished, the new connection is in use and the queue is empty, but the authentication message, queued while the restart
  flag was still set, was dropped by the new writer, and nothing was sent on the new connection.
\<close>
theorem auth_dropped_on_restart:
  "\<exists>s. tc_reachable demo_tc_cfg orderly s \<and> wsconn s = Some 1 \<and> 1 \<in> opened s \<and> rst s = Idle \<and> \<not> stopped s \<and> wsMsg s = [] \<and>
     map hMethod (dropped s) = [''auth''] \<and> 1 \<notin> fst ` set (wire s)"
  by (rule run_pred [of _ _ _ "connect_events @ lost_events @
        [ConnEv Restart (EDial True), ConnEv Restart EStore, ConnEv Restart ESpawnW, ConnEv Restart ESpawnR, ConnEv Restart EPush,
         GoEv 0 EBegin, GoEv 1 EBegin, GoEv 0 ETake, RstEv EEnd]"]; code_simp)

text \<open>
  A \<^verbatim>\<open>Stop\<close> between the moment the connection is stored and the moment its reader begins makes the reader call a method of a nil
  connection, which ends the program.
\<close>
theorem stop_crashes_reader:
  "\<exists>s. tc_reachable demo_tc_cfg orderly s \<and> crashed s"
  by (rule run_pred [of _ _ _ "connect_events @ stop_events @ [GoEv 1 EBegin]"]; code_simp)

text \<open>
  Started again while a restart is dialling, the client overwrites the connection the restart has stored: one connection is open and nobody
  holds it.
\<close>
theorem start_again_leaks:
  "\<exists>s. tc_reachable demo_tc_cfg (\<lambda>_. True) s \<and> 1 \<in> opened s \<and> wsconn s = Some 2 \<and> held (app s) = {} \<and> held (rst s) = {}"
  by (rule run_pred [of _ _ _ "connect_events @ lost_events @ stop_events @
        [AppEv EStart, AppEv (EStartToken 2 (Some demo_reply)), ConnEv App EEnter, ConnEv Restart (EDial True), ConnEv App (EDial True),
         ConnEv Restart EStore, ConnEv App EStore]"]; code_simp)

subsection \<open>When the token is renewed\<close>

lemma three_quarters_between:
  assumes "0 \<le> d" and "d < 2 ^ 53"
  shows "d \<le> 2 * three_quarters d + 1 \<and> three_quarters d \<le> d"
proof -
  define b where "b = nat d"
  have b: "d = int b" "b < 2 ^ 53" using assms by (simp_all add: b_def)
  have f: "rnd binary64 False 3 4 = Fin False 6755399441055744 (- 53)" by (simp add: float_eval)
  have q: "real 6755399441055744 * 2 powi (- 53) = 3 / 4" by (simp add: power_int_minus)
  have "real b / real 1 \<le> largest binary64" using holds_largest [OF float_dyadics(1) [of b]] b(2) by simp
  then obtain m e where "rnd binary64 False b 1 = Fin False m e" using rnd_finite [OF wf_formats(1), of 1 b False] by auto
  then have o: "of_int_float binary64 (int b) = Fin False m e" "real m * 2 powi e = real b"
    using rnd_int(2) [OF wf_formats(1), of b False] b(2) by (auto simp: of_int_float_def with_sign_def binary64_def)
  have "\<exists>m' e'. fmul binary64 (Fin False m e) (Fin False 6755399441055744 (- 53)) = Fin False m' e' \<and> real b / 2 \<le> real m' * 2 powi e' \<and> real m' * 2 powi e' \<le> real b"
    by (rule fmul_between) (use float_dyadics [of b] b(2) o(2) q in simp_all)
  then obtain m' e' where p: "fmul binary64 (Fin False m e) (Fin False 6755399441055744 (- 53)) = Fin False m' e'"
    "real b / 2 \<le> real m' * 2 powi e'" "real m' * 2 powi e' \<le> real b" by blast
  show ?thesis unfolding three_quarters_def b(1) o(1) f p(1) to_int_floor using p(2,3) by linarith
qed

text \<open>
  The loop does not sleep past the life of the token: for a token that is valid for up to 104 days, the time to wait is at most what is left of
  its life, and nothing once it has expired.
\<close>

lemma refresh_in_time:
  assumes "tokenExpires s = Some e" and "tokenIssued s \<le> e" and "e - tokenIssued s < 2 ^ 53" and "\<bar>now - e\<bar> < 2 ^ 62"
  shows "refreshWait now 0 s \<le> max 0 (e - now)"
proof -
  have sub: "time_Sub e (tokenIssued s) = e - tokenIssued s" using assms(2,3) by (simp add: time_Sub_def min_int64_def max_int64_def)
  have "three_quarters (e - tokenIssued s) \<le> e - tokenIssued s" using three_quarters_between assms(2,3) by simp
  then show ?thesis using assms(1,4) sub by (auto simp: refreshWait_def time_Sub_def min_int64_def max_int64_def)
qed

end
