(* ===== verification/Utils.thy ===== *)
theory Utils
  imports GoStrconv GoBase64
begin

unbundle bit_operations_syntax

section \<open>Utilities\<close>

text \<open>
  \<^verbatim>\<open>utils/utilsString.go\<close>, \<^verbatim>\<open>utils/utilsNumbers.go\<close>, \<^verbatim>\<open>utils/utilsArray.go\<close> and \<^verbatim>\<open>utils/uuid/uuid.go\<close>.  A string that is cut at rune boundaries is its list of
  bytes; \<open>rune_size\<close> is the width \<^verbatim>\<open>utf8.DecodeRuneInString\<close> reports, 1 for an invalid byte.  A slice out of
  range is a panic, \<^const>\<open>None\<close>.
\<close>

subsection \<open>Numbers and strings\<close>

definition StrToInt :: "string \<Rightarrow> int" where
  "StrToInt s = fst (ParseInt 64 s)"

definition StrToInt32Default :: "string \<Rightarrow> int \<Rightarrow> int" where
  "StrToInt32Default s d = (case ParseInt 32 s of (v, None) \<Rightarrow> v | (_, Some _) \<Rightarrow> d)"

definition StrToInt64Default :: "string \<Rightarrow> int \<Rightarrow> int" where
  "StrToInt64Default s d = (case ParseInt 64 s of (v, None) \<Rightarrow> v | (_, Some _) \<Rightarrow> d)"

definition StrToUInt64Default :: "string \<Rightarrow> nat \<Rightarrow> nat" where
  "StrToUInt64Default s d = (case ParseUint 64 s of (v, None) \<Rightarrow> v | (_, Some _) \<Rightarrow> d)"

definition Int64ToStr :: "int \<Rightarrow> string" where
  "Int64ToStr i = Itoa i"

definition UInt64ToStr :: "nat \<Rightarrow> string" where
  "UInt64ToStr i = utoa i"

fun StringInSlice :: "string \<Rightarrow> string list \<Rightarrow> bool" where
  "StringInSlice a [] = False"
| "StringInSlice a (b # bs) = (if b = a then True else StringInSlice a bs)"

definition NumOnly :: "string \<Rightarrow> string" where
  "NumOnly s = filter is_digit s"

text \<open>The regular expression drops whole characters; every byte of a non-ASCII character is dropped as well.\<close>

definition NumbersAndComma :: "string \<Rightarrow> string" where
  "NumbersAndComma s = filter (\<lambda>c. c = CHR '','' \<or> is_digit c) s"

text \<open>\<^verbatim>\<open>strings.Index\<close>.\<close>

fun index_of :: "string \<Rightarrow> string \<Rightarrow> nat option" where
  "index_of [] p = (if p = [] then Some 0 else None)"
| "index_of (c # cs) p =
     (if take (length p) (c # cs) = p then Some 0 else map_option Suc (index_of cs p))"

definition GetSubStr :: "string \<Rightarrow> string \<Rightarrow> string \<Rightarrow> string" where
  "GetSubStr content startsWith endsWith =
     (case index_of content startsWith of
        None \<Rightarrow> []
      | Some p \<Rightarrow>
          let startPos = p + length startsWith;
              endPos = (if endsWith = [] then Some (length content - startPos) else index_of (drop startPos content) endsWith)
          in (case endPos of None \<Rightarrow> [] | Some e \<Rightarrow> take e (drop startPos content)))"

subsection \<open>Runes\<close>

definition in_rng :: "nat \<Rightarrow> nat \<Rightarrow> byte \<Rightarrow> bool" where
  "in_rng lo hi b \<longleftrightarrow> lo \<le> unat b \<and> unat b \<le> hi"

fun rune_size :: "byte list \<Rightarrow> nat" where
  "rune_size [] = 0"
| "rune_size (a # rest) =
     (if in_rng 0xC2 0xDF a then (case rest of b # _ \<Rightarrow> if in_rng 0x80 0xBF b then 2 else 1 | _ \<Rightarrow> 1)
      else if in_rng 0xE0 0xEF a then
        (case rest of b # c # _ \<Rightarrow>
           if in_rng (if unat a = 0xE0 then 0xA0 else 0x80) (if unat a = 0xED then 0x9F else 0xBF) b \<and> in_rng 0x80 0xBF c then 3 else 1
         | _ \<Rightarrow> 1)
      else if in_rng 0xF0 0xF4 a then
        (case rest of b # c # d # _ \<Rightarrow>
           if in_rng (if unat a = 0xF0 then 0x90 else 0x80) (if unat a = 0xF4 then 0x8F else 0xBF) b \<and>
              in_rng 0x80 0xBF c \<and> in_rng 0x80 0xBF d then 4 else 1
         | _ \<Rightarrow> 1)
      else 1)"

lemma rune_size_pos: "bs \<noteq> [] \<Longrightarrow> 0 < rune_size bs"
  by (cases bs) (auto split: list.split)

lemma rune_size_le: "rune_size bs \<le> length bs"
  by (cases bs) (auto split: list.split)

text \<open>The runes of a string, as the chunks of its bytes.\<close>

function runes :: "byte list \<Rightarrow> byte list list" where
  "runes bs = (if bs = [] then [] else take (rune_size bs) bs # runes (drop (rune_size bs) bs))"
  by pat_completeness auto

termination by (relation "measure length") (use rune_size_pos rune_size_le in \<open>auto\<close>)

declare runes.simps [simp del]

text \<open>A chunk is a rune, not a stray byte.\<close>

definition whole_rune :: "byte list \<Rightarrow> bool" where
  "whole_rune r \<longleftrightarrow> length r \<noteq> 1 \<or> unat (hd r) < 0x80"

definition valid_utf8 :: "byte list \<Rightarrow> bool" where
  "valid_utf8 bs \<longleftrightarrow> list_all whole_rune (runes bs)"

lemma runes_not_Nil: "r \<in> set (runes bs) \<Longrightarrow> r \<noteq> []"
proof (induction bs rule: runes.induct)
  case (1 bs)
  then show ?case using rune_size_pos [of bs] by (auto simp: runes.simps [of bs] split: if_splits)
qed

subsection \<open>SubStr\<close>

text \<open>The loop: \<open>rest\<close> is \<^verbatim>\<open>content[i:]\<close>; \<open>stop\<close> is the value of \<^verbatim>\<open>start+length\<close>.  The result is \<^verbatim>\<open>total, startByte, endByte\<close>.\<close>

function substr_loop :: "int \<Rightarrow> int \<Rightarrow> byte list \<Rightarrow> nat \<Rightarrow> int \<Rightarrow> nat \<Rightarrow> nat \<Rightarrow> int \<times> nat \<times> nat" where
  "substr_loop start stop rest i tot sb eb =
     (if rest = [] then (tot, sb, eb)
      else substr_loop start stop (drop (rune_size rest) rest) (i + rune_size rest) (tot + 1)
             (if tot = start then i else sb) (if tot = stop then i else eb))"
  by pat_completeness auto

termination by (relation "measure (\<lambda>(_, _, rest, _). length rest)") (use rune_size_pos rune_size_le in \<open>auto\<close>)

declare substr_loop.simps [simp del]

definition SubStr :: "byte list \<Rightarrow> int \<Rightarrow> int \<Rightarrow> byte list option" where
  "SubStr content start len =
     (let stop = wrap64 (start + len);
          (tot, sb, eb) = substr_loop start stop content 0 0 0 0
      in if start > tot then Some []
         else if start < 0 \<or> len < 0 then None
         else if start = tot then Some []
         else let e = (if stop \<ge> tot then length content else eb)
              in if sb \<le> e \<and> e \<le> length content then Some (take (e - sb) (drop sb content)) else None)"

text \<open>Where a position lies: the number of bytes before the rune of that index.\<close>

definition byte_pos :: "byte list \<Rightarrow> nat \<Rightarrow> nat" where
  "byte_pos bs n = length (concat (take n (runes bs)))"

lemma concat_runes: "concat (runes bs) = bs"
proof (induction bs rule: runes.induct)
  case (1 bs)
  then show ?case by (subst runes.simps) auto
qed

lemma substr_loop_spec:
  "substr_loop start stop rest i tot sb eb =
     (tot + int (length (runes rest)),
      (if tot \<le> start \<and> start < tot + int (length (runes rest)) then i + byte_pos rest (nat (start - tot)) else sb),
      (if tot \<le> stop \<and> stop < tot + int (length (runes rest)) then i + byte_pos rest (nat (stop - tot)) else eb))"
proof (induction start stop rest i tot sb eb rule: substr_loop.induct)
  case (1 start stop rest i tot sb eb)
  show ?case
  proof (cases "rest = []")
    case True
    then show ?thesis by (simp add: substr_loop.simps runes.simps)
  next
    case False
    let ?k = "rune_size rest"
    have r: "runes rest = take ?k rest # runes (drop ?k rest)" using False by (subst runes.simps) simp
    have pos: "byte_pos rest (nat (x - tot)) = ?k + byte_pos (drop ?k rest) (nat (x - (tot + 1)))" if "tot < x" for x
    proof -
      have "nat (x - tot) = Suc (nat (x - (tot + 1)))" using that by simp
      then show ?thesis using rune_size_le [of rest] by (simp add: byte_pos_def r)
    qed
    have "byte_pos rest 0 = 0" by (simp add: byte_pos_def)
    then have place: "(if tot + 1 \<le> x \<and> x < tot + 1 + int (length (runes (drop ?k rest)))
          then i + ?k + byte_pos (drop ?k rest) (nat (x - (tot + 1))) else if tot = x then i else d) =
        (if tot \<le> x \<and> x < tot + int (length (runes rest)) then i + byte_pos rest (nat (x - tot)) else d)" for x d
      using pos [of x] r by (cases "tot < x") auto
    have "substr_loop start stop rest i tot sb eb = substr_loop start stop (drop ?k rest) (i + ?k) (tot + 1)
        (if tot = start then i else sb) (if tot = stop then i else eb)"
      using False by (subst substr_loop.simps) simp
    also have "\<dots> = (tot + int (length (runes rest)),
        (if tot \<le> start \<and> start < tot + int (length (runes rest)) then i + byte_pos rest (nat (start - tot)) else sb),
        (if tot \<le> stop \<and> stop < tot + int (length (runes rest)) then i + byte_pos rest (nat (stop - tot)) else eb))"
      unfolding 1(1) [OF False] place using r by simp
    finally show ?thesis .
  qed
qed

lemma byte_pos_all: "length (runes bs) \<le> n \<Longrightarrow> byte_pos bs n = length bs"
  by (simp add: byte_pos_def concat_runes)

lemma byte_pos_slice:
  assumes "m \<le> n"
  shows "byte_pos bs m \<le> byte_pos bs n" and "byte_pos bs n \<le> length bs"
    and "take (byte_pos bs n - byte_pos bs m) (drop (byte_pos bs m) bs) = concat (take (n - m) (drop m (runes bs)))"
proof -
  let ?a = "concat (take m (runes bs))" and ?b = "concat (take (n - m) (drop m (runes bs)))" and ?c = "concat (drop n (runes bs))"
  have n: "concat (take n (runes bs)) = ?a @ ?b"
    using assms by (metis concat_append le_add_diff_inverse take_add)
  have bs: "bs = ?a @ ?b @ ?c"
    by (metis append.assoc append_take_drop_id concat_append concat_runes n)
  have l: "byte_pos bs m = length ?a" "byte_pos bs n = length ?a + length ?b"
    by (simp_all only: byte_pos_def n length_append)
  show "byte_pos bs m \<le> byte_pos bs n" using l by simp
  show "byte_pos bs n \<le> length bs" using l arg_cong [OF bs, of length] by simp
  show "take (byte_pos bs n - byte_pos bs m) (drop (byte_pos bs m) bs) = ?b"
    using l bs by (metis add_diff_cancel_left' append_eq_conv_conj)
qed

text \<open>
  C36: \<^verbatim>\<open>SubStr\<close>, which works on byte offsets without building the list of runes, returns what slicing that list would: the
  runes from \<open>start\<close> on, \<open>len\<close> of them or as many as there are, for every string (valid UTF-8 or not), as long
  as the sum of the two numbers does not overflow.
\<close>
theorem SubStr_reference:
  assumes "0 \<le> start" and "0 \<le> len" and "start + len \<le> max_int64"
  shows "SubStr content start len = Some (concat (take (nat len) (drop (nat start) (runes content))))"
proof -
  let ?n = "int (length (runes content))"
  have w: "wrap64 (start + len) = start + len"
    using assms by (intro wrap64_id) (simp add: int64_ok_def min_int64_def)
  show ?thesis
  proof (cases "start < ?n")
    case False
    then show ?thesis using assms by (auto simp add: SubStr_def substr_loop_spec w Let_def)
  next
    case True
    let ?m = "nat start" and ?k = "nat (start + len)"
    have mk: "?m \<le> ?k" "?k - ?m = nat len" using assms by simp_all
    let ?e = "if start + len \<ge> ?n then length content else byte_pos content ?k"
    have e: "?e = byte_pos content ?k" using byte_pos_all [of content ?k] by simp
    have "SubStr content start len =
        (if byte_pos content ?m \<le> ?e \<and> ?e \<le> length content
         then Some (take (?e - byte_pos content ?m) (drop (byte_pos content ?m) content)) else None)"
      using True assms by (simp add: SubStr_def substr_loop_spec w Let_def)
    then show ?thesis unfolding e using byte_pos_slice [OF mk(1), of content] mk(2) by simp
  qed
qed

theorem SubStr_reference_witness:
  "SubStr (bytes_of ''abcd'') 1 2 = Some (concat (take 2 (drop 1 (runes (bytes_of ''abcd'')))))"
  using SubStr_reference [of 1 2 "bytes_of ''abcd''"] by (simp add: max_int64_def)

text \<open>The sum of the two arguments wraps around: the second then selects nothing and the slice panics.\<close>

lemma SubStr_overflow_panics: "SubStr [97, 98, 99] 1 max_int64 = None"
  by (simp add: SubStr_def wrap64_def max_int64_def substr_loop.simps in_rng_def)

subsection \<open>The sieve\<close>

text \<open>The inner loop: marks \<open>j\<close>, \<open>j + i\<close>, ... below \<open>N\<close>; it is entered with a positive \<open>i\<close>.\<close>

function mark :: "nat \<Rightarrow> nat \<Rightarrow> nat \<Rightarrow> bool list \<Rightarrow> bool list" where
  "mark N i j cs = (if j < N \<and> 0 < i then mark N i (j + i) (cs[j := True]) else cs)"
  by pat_completeness auto

termination by (relation "measure (\<lambda>(N, i, j, cs). N - j)") auto

function sieve_loop :: "nat \<Rightarrow> nat \<Rightarrow> bool list \<Rightarrow> bool list" where
  "sieve_loop N i cs =
     (if i * i < N then sieve_loop N (Suc i) (if \<not> cs ! i then mark N i (i * i) cs else cs) else cs)"
  by pat_completeness auto

termination
proof (relation "measure (\<lambda>(N, i, cs). N - i)")
  fix N i :: nat and cs :: "bool list"
  assume "i * i < N"
  moreover have "i \<le> i * i" by (cases i) auto
  ultimately have "i < N" by linarith
  then show "((N, Suc i, if \<not> cs ! i then mark N i (i * i) cs else cs), N, i, cs) \<in> measure (\<lambda>(N, i, cs). N - i)"
    by simp
qed simp

declare mark.simps [simp del] sieve_loop.simps [simp del]

definition SieveOfEratosthenes :: "int \<Rightarrow> int \<Rightarrow> int list" where
  "SieveOfEratosthenes M N =
     (if N < 3 then []
      else let composite = sieve_loop (nat N) 2 (replicate (nat N) False);
               m = (if M < 2 then 2 else M)
           in map int (filter (\<lambda>j. \<not> composite ! j) [nat m..<nat N]))"

definition is_prime :: "nat \<Rightarrow> bool" where
  "is_prime p \<longleftrightarrow> 2 \<le> p \<and> (\<forall>d. d dvd p \<longrightarrow> d = 1 \<or> d = p)"

lemma length_mark [simp]: "length (mark N i j cs) = length cs"
proof (induction N i j cs rule: mark.induct)
  case (1 N i j cs)
  then show ?case by (subst mark.simps) simp
qed

lemma mark_spec:
  assumes "0 < i" and "length cs = N" and "k < N"
  shows "mark N i j cs ! k = (cs ! k \<or> (j \<le> k \<and> i dvd (k - j)))"
  using assms
proof (induction N i j cs rule: mark.induct)
  case (1 N i j cs)
  show ?case
  proof (cases "j < N")
    case False
    then show ?thesis using 1(3,4) by (subst mark.simps) simp
  next
    case True
    have step: "mark N i j cs ! k = ((cs[j := True]) ! k \<or> (j + i \<le> k \<and> i dvd (k - (j + i))))"
      using 1(1) True 1(2-4) by (subst mark.simps) simp
    have "(j \<le> k \<and> i dvd (k - j)) \<longleftrightarrow> k = j \<or> (j + i \<le> k \<and> i dvd (k - (j + i)))"
    proof (cases "j + i \<le> k")
      case True
      then have "k - j = (k - (j + i)) + i" by simp
      then have "i dvd (k - j) \<longleftrightarrow> i dvd (k - (j + i))" by (metis dvd_add_left_iff dvd_refl)
      then show ?thesis using True by auto
    next
      case False
      then show ?thesis using 1(2) by (auto dest: dvd_imp_le)
    qed
    then show ?thesis using step 1(3,4) True by (auto simp: nth_list_update)
  qed
qed

text \<open>What is marked when the outer loop reaches \<open>i\<close>.\<close>

definition marked_below :: "nat \<Rightarrow> nat \<Rightarrow> bool" where
  "marked_below i j \<longleftrightarrow> (\<exists>d. 2 \<le> d \<and> d < i \<and> d * d \<le> j \<and> d dvd j)"

lemma dvd_from_square: "(i * i \<le> j \<and> i dvd (j - i * i)) \<longleftrightarrow> (i * i \<le> j \<and> i dvd j)" for i j :: nat
  by (metis dvd_diff_nat dvd_diffD dvd_triv_left)

lemma marked_below_Suc:
  assumes "2 \<le> i"
  shows "marked_below (Suc i) j \<longleftrightarrow> marked_below i j \<or> (i * i \<le> j \<and> i dvd j)"
  using assms unfolding marked_below_def by (auto simp: less_Suc_eq)

lemma marked_below_skip:
  assumes "marked_below i i" and "i * i \<le> j" and "i dvd j"
  shows "marked_below i j"
proof -
  obtain d where d: "2 \<le> d" "d < i" "d * d \<le> i" "d dvd i" using assms(1) unfolding marked_below_def by blast
  have "i \<le> i * i" by (cases i) auto
  then have "d * d \<le> j" using d(3) assms(2) by linarith
  then show ?thesis unfolding marked_below_def using d assms(3) dvd_trans by blast
qed

lemma sieve_loop_spec:
  assumes "2 \<le> i" and "length cs = N" and "\<And>j. j < N \<Longrightarrow> cs ! j = marked_below i j"
  shows "j < N \<Longrightarrow> sieve_loop N i cs ! j \<longleftrightarrow> (\<exists>d. 2 \<le> d \<and> d * d \<le> j \<and> d dvd j)"
  using assms
proof (induction N i cs rule: sieve_loop.induct)
  case (1 N i cs)
  show ?case
  proof (cases "i * i < N")
    case False
    have "d < i" if "d * d \<le> j" for d
    proof (rule ccontr)
      assume "\<not> d < i"
      then have "i * i \<le> d * d" by (simp add: mult_le_mono)
      then show False using that 1(2) False by linarith
    qed
    then show ?thesis using 1(2,5) False by (subst sieve_loop.simps) (auto simp: marked_below_def)
  next
    case True
    let ?c = "if \<not> cs ! i then mark N i (i * i) cs else cs"
    have i: "i < N" using True 1(3) by (metis le_square less_le_trans not_less)
    have "?c ! k = marked_below (Suc i) k" if "k < N" for k
    proof (cases "cs ! i")
      case True
      then show ?thesis using 1(5) [OF that] 1(5) [OF i] marked_below_Suc [OF 1(3)] marked_below_skip [of i k] by auto
    next
      case False
      then show ?thesis
        using mark_spec [of i cs N k "i * i"] 1(3,4) that 1(5) [OF that] marked_below_Suc [OF 1(3), of k] dvd_from_square by auto
    qed
    then show ?thesis using 1(1) [OF True 1(2)] 1(3,4) True by (subst sieve_loop.simps) simp
  qed
qed

lemma composite_has_small_divisor:
  assumes "2 \<le> j"
  shows "\<not> is_prime j \<longleftrightarrow> (\<exists>d. 2 \<le> d \<and> d * d \<le> j \<and> d dvd j)"
proof
  assume "\<not> is_prime j"
  then obtain a where a: "a dvd j" "a \<noteq> 1" "a \<noteq> j" using assms unfolding is_prime_def by blast
  then obtain b where b: "j = a * b" by (elim dvdE)
  have "a \<noteq> 0" "b \<noteq> 0" using b assms by (cases a; cases b; simp)+
  moreover have "b \<noteq> 1" using a(3) b by auto
  ultimately have ab: "2 \<le> a" "2 \<le> b" using a(2) by auto
  show "\<exists>d. 2 \<le> d \<and> d * d \<le> j \<and> d dvd j"
  proof (cases "a \<le> b")
    case True
    then show ?thesis using ab b a(1) by (intro exI [of _ a]) simp
  next
    case False
    then show ?thesis using ab b by (intro exI [of _ b]) (simp add: mult_le_mono)
  qed
next
  assume "\<exists>d. 2 \<le> d \<and> d * d \<le> j \<and> d dvd j"
  then obtain d where d: "2 \<le> d" "d * d \<le> j" "d dvd j" by blast
  have "d < d * d" using d(1) by simp
  then show "\<not> is_prime j" using d unfolding is_prime_def by auto
qed

text \<open>
  The sieve returns, in ascending order, exactly the prime numbers from the larger of 2 and \<open>M\<close> up to below \<open>N\<close>, for all
  arguments: none of the composite numbers it skips as a starting point is needed.
\<close>
theorem sieve_correct:
  "SieveOfEratosthenes M N = map int (filter is_prime [nat (max 2 M)..<nat N])"
proof (cases "N < 3")
  case True
  then show ?thesis by (simp add: SieveOfEratosthenes_def)
next
  case False
  have init: "replicate (nat N) False ! j = marked_below 2 j" if "j < nat N" for j
    using that by (simp add: marked_below_def)
  have iff: "(\<not> sieve_loop (nat N) 2 (replicate (nat N) False) ! j) = is_prime j" if "2 \<le> j" "j < nat N" for j
    using sieve_loop_spec [OF order_refl _ init that(2)] composite_has_small_divisor [OF that(1)] by auto
  have "filter (\<lambda>j. \<not> sieve_loop (nat N) 2 (replicate (nat N) False) ! j) [nat (max 2 M)..<nat N] =
      filter is_prime [nat (max 2 M)..<nat N]"
  proof (rule filter_cong [OF refl])
    fix x assume "x \<in> set [nat (max 2 M)..<nat N]"
    then have "2 \<le> x" "x < nat N" by (simp_all add: nat_le_iff)
    then show "(\<not> sieve_loop (nat N) 2 (replicate (nat N) False) ! x) = is_prime x" by (rule iff)
  qed
  moreover have "nat (if M < 2 then 2 else M) = nat (max 2 M)" by simp
  ultimately show ?thesis using False unfolding SieveOfEratosthenes_def Let_def by simp
qed

end
