(* ===== verification/PrettyLog.thy ===== *)
theory PrettyLog
  imports Utils
begin

section \<open>The log handler\<close>

text \<open>
  \<^verbatim>\<open>app/v3/log/prettylog\<close> and \<^verbatim>\<open>app/v3/log/basiclog.go\<close>.  The handler renders a record into a buffer taken from a pool that all
  records share, with the names of functions cached by program counter, and hands it to the writer in one call.  What the
  runtime answers (frames, goroutine stack, formatted times, growth of a slice) and the writer are the argument \<open>runtime\<close>.  A nil
  interface asked for its kind panics: the result is then \<^const>\<open>None\<close>.  The pool may hand out any of its buffers or a new one: \<open>pick\<close>.
\<close>

subsection \<open>Buffers\<close>

record buffer =
  data :: string
  bcap :: nat

definition new_buffer :: buffer where
  "new_buffer = \<lparr>data = [], bcap = 1024\<rparr>"

definition newBuffer :: "nat option \<Rightarrow> buffer list \<Rightarrow> buffer \<times> buffer list" where
  "newBuffer pick pool =
     (case pick of
        None \<Rightarrow> (new_buffer, pool)
      | Some i \<Rightarrow> if i < length pool then (pool ! i, take i pool @ drop (Suc i) pool) else (new_buffer, pool))"

definition Free :: "buffer \<Rightarrow> buffer list \<Rightarrow> buffer list" where
  "Free b pool = (if bcap b \<le> 16 * 1024 then pool @ [b\<lparr>data := []\<rparr>] else pool)"

definition WriteString :: "(nat \<Rightarrow> nat \<Rightarrow> nat) \<Rightarrow> string \<Rightarrow> buffer \<Rightarrow> buffer" where
  "WriteString grow str b =
     (let n = length (data b) + length str in
      b\<lparr>data := data b @ str, bcap := (if n \<le> bcap b then bcap b else grow (bcap b) n)\<rparr>)"

definition WriteByte :: "(nat \<Rightarrow> nat \<Rightarrow> nat) \<Rightarrow> char \<Rightarrow> buffer \<Rightarrow> buffer" where
  "WriteByte grow c b = WriteString grow [c] b"

text \<open>\<^verbatim>\<open>Write\<close> makes the buffer an \<^verbatim>\<open>io.Writer\<close>: it takes everything and never fails.\<close>

definition buffer_Write :: "(nat \<Rightarrow> nat \<Rightarrow> nat) \<Rightarrow> string \<Rightarrow> buffer \<Rightarrow> (nat \<times> string option) \<times> buffer" where
  "buffer_Write grow d b = ((length d, None), WriteString grow d b)"

definition WriteStringIf :: "(nat \<Rightarrow> nat \<Rightarrow> nat) \<Rightarrow> bool \<Rightarrow> string \<Rightarrow> buffer \<Rightarrow> buffer" where
  "WriteStringIf grow ok str b = (if ok then WriteString grow str b else b)"

lemma data_WriteString [simp]: "data (WriteString g s b) = data b @ s"
  by (simp add: WriteString_def Let_def)

lemma data_WriteByte [simp]: "data (WriteByte g c b) = data b @ [c]"
  by (simp add: WriteByte_def)

subsection \<open>Records and handlers\<close>

record any_value =
  any_nil :: bool
  any_struct :: bool
  any_json :: "string + string"
  any_plus :: string

record log_value =
  v_string :: string
  v_any :: "any_value option"

record attr =
  akey :: string
  avalue :: log_value

record log_record =
  r_level :: int
  r_time :: time
  r_pc :: nat
  r_message :: string
  r_attrs :: "attr list"

record groupOrAttrs =
  group :: string
  attrs :: "attr list"

record IndentHandler =
  Level :: int
  goas :: "groupOrAttrs list"
  withGID :: bool

definition LevelDebug :: int where
  "LevelDebug = -4"

definition New :: "int option \<Rightarrow> IndentHandler" where
  "New lvl = \<lparr>Level = (case lvl of None \<Rightarrow> LevelDebug | Some l \<Rightarrow> l), goas = [], withGID = True\<rparr>"

definition NewLog :: IndentHandler where
  "NewLog = New (Some LevelDebug)"

definition NewLogWithLevel :: "int \<Rightarrow> IndentHandler" where
  "NewLogWithLevel lvl = New (Some lvl)"

definition WithoutGID :: "IndentHandler \<Rightarrow> IndentHandler" where
  "WithoutGID h = h\<lparr>withGID := False\<rparr>"

definition Enabled :: "int \<Rightarrow> IndentHandler \<Rightarrow> bool" where
  "Enabled lvl h \<longleftrightarrow> lvl \<ge> Level h"

definition withGroupOrAttrs :: "groupOrAttrs \<Rightarrow> IndentHandler \<Rightarrow> IndentHandler" where
  "withGroupOrAttrs goa h = h\<lparr>goas := goas h @ [goa]\<rparr>"

definition WithGroup :: "string \<Rightarrow> IndentHandler \<Rightarrow> IndentHandler" where
  "WithGroup name h = (if name = [] then h else withGroupOrAttrs \<lparr>group = name, attrs = []\<rparr> h)"

definition WithAttrs :: "attr list \<Rightarrow> IndentHandler \<Rightarrow> IndentHandler" where
  "WithAttrs as h = (if as = [] then h else withGroupOrAttrs \<lparr>group = [], attrs = as\<rparr> h)"

subsection \<open>Writing a record\<close>

record funcDataEntry =
  fd_file :: string
  funcName :: string
  line :: string

text \<open>
  \<open>frame\<close> gives function name, file and line of a program counter.  A frame of an inlined function has no \<^verbatim>\<open>Func\<close>, and asking the
  nil \<^verbatim>\<open>*runtime.Func\<close> for its name gives the empty string; its file and line are valid.
\<close>

record runtime =
  frame :: "nat \<Rightarrow> string option \<times> string \<times> int"
  stack :: string
  fmtTime :: "time \<Rightarrow> string"
  grow :: "nat \<Rightarrow> nat \<Rightarrow> nat"
  outWrite :: "string \<Rightarrow> nat \<times> string option"

record log_state =
  pool :: "buffer list"
  funcDataCache :: "(nat, funcDataEntry) gomap"
  written :: string

definition goroutine_id :: "runtime \<Rightarrow> string" where
  "goroutine_id w =
     (let b = drop 10 (take 64 (stack w)) in case first_index CHR '' '' b of Some i \<Rightarrow> take i b | None \<Rightarrow> b)"

definition writeGID :: "runtime \<Rightarrow> IndentHandler \<Rightarrow> buffer \<Rightarrow> buffer" where
  "writeGID w h b =
     (if \<not> withGID h then b
      else WriteByte (grow w) CHR '' '' (WriteByte (grow w) CHR '']'' (WriteString (grow w) (goroutine_id w)
             (WriteByte (grow w) CHR ''['' (WriteByte (grow w) CHR '' '' b)))))"

definition after_last :: "char \<Rightarrow> string \<Rightarrow> string" where
  "after_last c s = (case last_index c s of Some i \<Rightarrow> drop (Suc i) s | None \<Rightarrow> s)"

definition Func_Name :: "string option \<Rightarrow> string" where
  "Func_Name f = (case f of None \<Rightarrow> [] | Some name \<Rightarrow> name)"

definition func_entry :: "runtime \<Rightarrow> nat \<Rightarrow> funcDataEntry" where
  "func_entry w pc =
     (let (func, f, n) = frame w pc
      in \<lparr>fd_file = after_last CHR ''/'' f, funcName = after_last CHR ''.'' (Func_Name func), line = Itoa n\<rparr>)"

definition write_entry :: "runtime \<Rightarrow> funcDataEntry \<Rightarrow> buffer \<Rightarrow> buffer" where
  "write_entry w e b =
     WriteString (grow w) (line e) (WriteByte (grow w) CHR '':'' (WriteString (grow w) (funcName e)
       (WriteByte (grow w) CHR '' '' (WriteString (grow w) (fd_file e) b))))"

definition writeFuncData ::
    "runtime \<Rightarrow> nat \<Rightarrow> buffer \<Rightarrow> (nat, funcDataEntry) gomap \<Rightarrow> buffer \<times> (nat, funcDataEntry) gomap" where
  "writeFuncData w pc b cache =
     (case fmlookup cache pc of
        Some e \<Rightarrow> (write_entry w e b, cache)
      | None \<Rightarrow> (let e = func_entry w pc in (write_entry w e b, fmupd pc e cache)))"

definition maxStrSize :: nat where
  "maxStrSize = 900"

definition RuneStart :: "byte \<Rightarrow> bool" where
  "RuneStart b \<longleftrightarrow> and b 0xC0 \<noteq> 0x80"

text \<open>The loop that looks for a rune boundary.\<close>

fun rune_cut :: "byte list \<Rightarrow> nat \<Rightarrow> nat" where
  "rune_cut msg 0 = 0"
| "rune_cut msg (Suc n) = (if \<not> RuneStart (msg ! Suc n) then rune_cut msg n else Suc n)"

definition levelStr :: "int \<Rightarrow> string" where
  "levelStr lvl =
     (if lvl = -4 then ''DBG '' else if lvl = 0 then ''INF '' else if lvl = 4 then ''WRN '' else if lvl = 8 then ''ERR ''
      else Itoa lvl @ '' '')"

definition write_message :: "runtime \<Rightarrow> string \<Rightarrow> buffer \<Rightarrow> buffer" where
  "write_message w msg b =
     (if length msg > maxStrSize
      then WriteString (grow w) ''...'' (WriteString (grow w) (take (rune_cut (bytes_of msg) maxStrSize) msg) b)
      else WriteString (grow w) msg b)"

fun write_goa_attrs :: "runtime \<Rightarrow> attr list \<Rightarrow> buffer \<Rightarrow> buffer" where
  "write_goa_attrs w [] b = b"
| "write_goa_attrs w (a # as) b =
     write_goa_attrs w as (WriteString (grow w) (v_string (avalue a)) (WriteByte (grow w) CHR ''='' (WriteString (grow w) (akey a) b)))"

fun writeGroups :: "runtime \<Rightarrow> groupOrAttrs list \<Rightarrow> buffer \<Rightarrow> buffer" where
  "writeGroups w [] b = b"
| "writeGroups w (g # gs) b =
     (let b1 = (if group g \<noteq> [] then WriteString (grow w) '': '' (WriteString (grow w) (group g) (WriteString (grow w) '' '' b)) else b);
          b2 = (if attrs g \<noteq> [] then WriteString (grow w) ''] '' (write_goa_attrs w (attrs g) (WriteByte (grow w) CHR ''['' b1)) else b1)
      in writeGroups w gs b2)"

text \<open>The text of a value: on the debug level the type of an \<^verbatim>\<open>any\<close> is asked for its kind, also when it is nil.\<close>

definition value_text :: "int \<Rightarrow> log_value \<Rightarrow> string option" where
  "value_text lvl v =
     (case v_any v of
        None \<Rightarrow> Some (v_string v)
      | Some a \<Rightarrow>
          if lvl = LevelDebug \<and> any_nil a then None
          else if lvl = LevelDebug \<and> any_struct a
          then Some (case any_json a of Inr j \<Rightarrow> j | Inl _ \<Rightarrow> any_plus a)
          else Some (any_plus a))"

fun write_attrs :: "runtime \<Rightarrow> int \<Rightarrow> attr list \<Rightarrow> buffer \<Rightarrow> buffer option" where
  "write_attrs w lvl [] b = Some b"
| "write_attrs w lvl (a # as) b =
     (case value_text lvl (avalue a) of
        None \<Rightarrow> None
      | Some t \<Rightarrow>
          write_attrs w lvl as (WriteByte (grow w) CHR '' '' (WriteString (grow w) t
            (WriteByte (grow w) CHR ''='' (WriteString (grow w) (akey a) b)))))"

definition writeAttrData :: "runtime \<Rightarrow> log_record \<Rightarrow> buffer \<Rightarrow> buffer option" where
  "writeAttrData w r b =
     (if r_attrs r \<noteq> [] then write_attrs w (r_level r) (r_attrs r) (WriteByte (grow w) CHR '' '' b) else Some b)"

definition Handle :: "runtime \<Rightarrow> IndentHandler \<Rightarrow> nat option \<Rightarrow> log_record \<Rightarrow> log_state \<Rightarrow> (string option \<times> log_state) option" where
  "Handle w h pick r s =
     (let (b0, pool1) = newBuffer pick (pool s);
          b1 = WriteString (grow w) (fmtTime w (r_time r)) (WriteString (grow w) (levelStr (r_level r)) b0);
          b2 = writeGID w h b1;
          (b3, cache) = (if r_pc r \<noteq> 0 then writeFuncData w (r_pc r) b2 (funcDataCache s) else (b2, funcDataCache s));
          b4 = write_message w (r_message r) (WriteString (grow w) '' - '' b3);
          b5 = writeGroups w (goas h) b4
      in case writeAttrData w r b5 of
           None \<Rightarrow> None
         | Some b6 \<Rightarrow>
             let b7 = WriteByte (grow w) CHR 0x0A b6;
                 (n, err) = outWrite w (data b7)
             in Some (err, \<lparr>pool = Free b7 pool1, funcDataCache = cache, written = written s @ take n (data b7)\<rparr>))"

subsection \<open>The line of a record\<close>

text \<open>What a record should give, without buffers and caches.\<close>

definition message_text :: "string \<Rightarrow> string" where
  "message_text msg = (if length msg > maxStrSize then take (rune_cut (bytes_of msg) maxStrSize) msg @ ''...'' else msg)"

definition goa_text :: "groupOrAttrs \<Rightarrow> string" where
  "goa_text g =
     (if group g \<noteq> [] then '' '' @ group g @ '': '' else []) @
     (if attrs g \<noteq> [] then ''['' @ concat (map (\<lambda>a. akey a @ ''='' @ v_string (avalue a)) (attrs g)) @ ''] '' else [])"

fun attrs_text :: "int \<Rightarrow> attr list \<Rightarrow> string option" where
  "attrs_text lvl [] = Some []"
| "attrs_text lvl (a # as) =
     (case value_text lvl (avalue a) of
        None \<Rightarrow> None
      | Some t \<Rightarrow> map_option (\<lambda>u. akey a @ ''='' @ t @ '' '' @ u) (attrs_text lvl as))"

definition place_text :: "runtime \<Rightarrow> nat \<Rightarrow> string" where
  "place_text w pc =
     (if pc = 0 then []
      else let (func, f, n) = frame w pc
           in after_last CHR ''/'' f @ '' '' @ after_last CHR ''.'' (Func_Name func) @ '':'' @ Itoa n)"

definition render :: "runtime \<Rightarrow> IndentHandler \<Rightarrow> log_record \<Rightarrow> string option" where
  "render w h r =
     map_option (\<lambda>a.
       levelStr (r_level r) @ fmtTime w (r_time r) @ (if withGID h then '' ['' @ goroutine_id w @ ''] '' else []) @ place_text w (r_pc r) @
       '' - '' @ message_text (r_message r) @ concat (map goa_text (goas h)) @ a @ [CHR 0x0A])
       (if r_attrs r = [] then Some [] else map_option ((#) CHR '' '') (attrs_text (r_level r) (r_attrs r)))"

lemma data_write_goa_attrs: "data (write_goa_attrs w as b) = data b @ concat (map (\<lambda>a. akey a @ ''='' @ v_string (avalue a)) as)"
  by (induction as arbitrary: b) simp_all

lemma data_writeGroups: "data (writeGroups w gs b) = data b @ concat (map goa_text gs)"
  by (induction gs arbitrary: b) (simp_all add: goa_text_def data_write_goa_attrs Let_def)

lemma data_write_attrs: "map_option data (write_attrs w lvl as b) = map_option ((@) (data b)) (attrs_text lvl as)"
  by (induction as arbitrary: b) (auto simp: option.map_comp comp_def intro!: option.map_cong split: option.split)

lemma data_writeAttrData:
  "map_option data (writeAttrData w r b) =
   map_option ((@) (data b)) (if r_attrs r = [] then Some [] else map_option ((#) CHR '' '') (attrs_text (r_level r) (r_attrs r)))"
  by (auto simp: writeAttrData_def data_write_attrs option.map_comp comp_def intro!: option.map_cong)

lemma data_write_message: "data (write_message w msg b) = data b @ message_text msg"
  by (simp add: write_message_def message_text_def)

lemma data_writeGID: "data (writeGID w h b) = data b @ (if withGID h then '' ['' @ goroutine_id w @ ''] '' else [])"
  by (simp add: writeGID_def)

text \<open>Pooled buffers are empty, and the cache holds what the runtime would answer.\<close>

definition log_ok :: "runtime \<Rightarrow> log_state \<Rightarrow> bool" where
  "log_ok w s \<longleftrightarrow> (\<forall>b\<in>set (pool s). data b = []) \<and> (\<forall>pc e. fmlookup (funcDataCache s) pc = Some e \<longrightarrow> e = func_entry w pc)"

lemma entry_place:
  "pc \<noteq> 0 \<Longrightarrow> place_text w pc = fd_file (func_entry w pc) @ '' '' @ funcName (func_entry w pc) @ '':'' @ line (func_entry w pc)"
  by (simp add: place_text_def func_entry_def Let_def split: prod.split)

lemma writeFuncData_place:
  assumes "log_ok w s" and "pc \<noteq> 0" and "writeFuncData w pc b (funcDataCache s) = (b', cache)"
  shows "data b' = data b @ place_text w pc" and "\<forall>pc e. fmlookup cache pc = Some e \<longrightarrow> e = func_entry w pc"
  using assms by (auto simp: writeFuncData_def write_entry_def log_ok_def entry_place Let_def split: option.splits if_splits)

lemma newBuffer_empty:
  "\<forall>b\<in>set pl. data b = [] \<Longrightarrow> newBuffer pick pl = (b, pl') \<Longrightarrow> data b = [] \<and> (\<forall>b\<in>set pl'. data b = [])"
  by (auto simp: newBuffer_def new_buffer_def split: option.splits if_splits) (meson in_set_takeD in_set_dropD)+

lemma Free_empty: "\<forall>b\<in>set pl. data b = [] \<Longrightarrow> \<forall>b\<in>set (Free b pl). data b = []"
  by (simp add: Free_def)

lemma Handle_line:
  assumes "log_ok w s"
  shows "case render w h r of
      None \<Rightarrow> Handle w h pick r s = None
    | Some l \<Rightarrow> \<exists>s'. Handle w h pick r s = Some (snd (outWrite w l), s') \<and> log_ok w s' \<and>
        written s' = written s @ take (fst (outWrite w l)) l"
proof -
  obtain b0 pool1 where nb: "newBuffer pick (pool s) = (b0, pool1)" by fastforce
  have b0: "data b0 = []" and p1: "\<forall>b\<in>set pool1. data b = []"
    using newBuffer_empty [OF _ nb] assms by (simp_all add: log_ok_def)
  let ?b2 = "writeGID w h (WriteString (grow w) (fmtTime w (r_time r)) (WriteString (grow w) (levelStr (r_level r)) b0))"
  obtain b3 cache where f: "(if r_pc r \<noteq> 0 then writeFuncData w (r_pc r) ?b2 (funcDataCache s) else (?b2, funcDataCache s)) = (b3, cache)"
    by fastforce
  have d3: "data b3 = data ?b2 @ place_text w (r_pc r)" and ca: "\<forall>pc e. fmlookup cache pc = Some e \<longrightarrow> e = func_entry w pc"
    using f writeFuncData_place [OF assms, of "r_pc r" ?b2 b3 cache] assms by (auto simp: place_text_def log_ok_def split: if_splits)
  let ?b5 = "writeGroups w (goas h) (write_message w (r_message r) (WriteString (grow w) '' - '' b3))"
  let ?a = "if r_attrs r = [] then Some [] else map_option ((#) CHR '' '') (attrs_text (r_level r) (r_attrs r))"
  have d5: "data ?b5 = levelStr (r_level r) @ fmtTime w (r_time r) @ (if withGID h then '' ['' @ goroutine_id w @ ''] '' else []) @
      place_text w (r_pc r) @ '' - '' @ message_text (r_message r) @ concat (map goa_text (goas h))"
    by (simp add: data_writeGroups data_write_message d3 data_writeGID b0)
  show ?thesis
  proof (cases "writeAttrData w r ?b5")
    case None
    then have "?a = None" using data_writeAttrData [of w r ?b5] by (auto split: if_splits)
    then show ?thesis using None nb f by (simp add: render_def Handle_def Let_def split: if_splits)
  next
    case at: (Some b6)
    obtain a where a: "?a = Some a" and d6: "data b6 = data ?b5 @ a"
      using data_writeAttrData [of w r ?b5] at by (auto simp: map_option_case split: option.splits if_splits)
    let ?l = "data (WriteByte (grow w) CHR 0x0A b6)"
    have "render w h r = Some ?l" using a d6 d5 unfolding render_def by simp
    moreover have "Handle w h pick r s = Some (snd (outWrite w ?l),
        \<lparr>pool = Free (WriteByte (grow w) CHR 0x0A b6) pool1, funcDataCache = cache, written = written s @ take (fst (outWrite w ?l)) ?l\<rparr>)"
      using nb f at by (simp add: Handle_def Let_def split: prod.split)
    ultimately show ?thesis using Free_empty [OF p1] ca by (simp add: log_ok_def)
  qed
qed

definition demo_runtime :: runtime where
  "demo_runtime =
     \<lparr>frame = (\<lambda>pc. (if pc = 6 then None else Some ''main.run'', ''/src/main.go'', 7)), stack = ''goroutine 12 [running]'', fmtTime = (\<lambda>_. ''T''),
      grow = (\<lambda>_ n. 2 * n), outWrite = (\<lambda>b. (length b, None))\<rparr>"

definition demo_record :: log_record where
  "demo_record = \<lparr>r_level = 0, r_time = 0, r_pc = 5, r_message = ''up'', r_attrs = []\<rparr>"

definition demo_log_state :: log_state where
  "demo_log_state = \<lparr>pool = [\<lparr>data = [], bcap = 2048\<rparr>], funcDataCache = fmempty, written = []\<rparr>"

text \<open>
  C30: Whatever was logged before, a record is handed to the writer as exactly its own line, in one call, and nothing else: with
  pooled buffers and a name cache left by any earlier records, the bytes written are those of the pure rendering
  of this record, the state stays clean, and the handler panics on exactly the records the rendering cannot show (an \<^verbatim>\<open>any\<close>
  attribute that is nil, on the debug level).  A record from an inlined function is shown with an empty function name.
\<close>
theorem Handle_renders:
  assumes "log_ok w s"
  shows "case render w h r of
      None \<Rightarrow> Handle w h pick r s = None
    | Some l \<Rightarrow> \<exists>s'. Handle w h pick r s = Some (snd (outWrite w l), s') \<and> log_ok w s' \<and>
        written s' = written s @ take (fst (outWrite w l)) l"
  using Handle_line [OF assms] .

theorem Handle_renders_witness:
  "(\<exists>s'. Handle demo_runtime NewLog (Some 0) demo_record demo_log_state = Some (None, s') \<and>
      written s' = ''INF T [12] main.go run:7 - up'' @ [CHR 0x0A]) \<and>
   (\<exists>s'. Handle demo_runtime NewLog (Some 0) (demo_record\<lparr>r_pc := 6\<rparr>) demo_log_state = Some (None, s') \<and>
      written s' = ''INF T [12] main.go :7 - up'' @ [CHR 0x0A])"
proof -
  have r: "render demo_runtime NewLog demo_record = Some (''INF T [12] main.go run:7 - up'' @ [CHR 0x0A])"
    "render demo_runtime NewLog (demo_record\<lparr>r_pc := 6\<rparr>) = Some (''INF T [12] main.go :7 - up'' @ [CHR 0x0A])"
    by code_simp+
  have "log_ok demo_runtime demo_log_state" by (simp add: log_ok_def demo_log_state_def)
  from Handle_renders [OF this, of NewLog "Some 0" demo_record] Handle_renders [OF this, of NewLog "Some 0" "demo_record\<lparr>r_pc := 6\<rparr>"] r
  show ?thesis by (auto simp: demo_runtime_def demo_log_state_def)
qed

text \<open>On the debug level an attribute whose \<^verbatim>\<open>any\<close> is nil panics: \<^verbatim>\<open>reflect.TypeOf(nil).Kind()\<close>.\<close>

theorem nil_attribute_panics:
  assumes "r_level r = LevelDebug" and "a \<in> set (r_attrs r)" and "v_any (avalue a) = Some x" and "any_nil x" and "log_ok w s"
  shows "Handle w h pick r s = None"
proof -
  have "attrs_text LevelDebug as = None" if "a \<in> set as" for as
    using that assms(3,4) by (induction as) (auto simp: value_text_def split: option.split)
  then have "render w h r = None" using assms(1,2) by (auto simp: render_def split: option.split)
  then show ?thesis using Handle_line [OF assms(5), of h pick r] by simp
qed

subsection \<open>Truncation\<close>

lemma RuneStart_nat: "\<forall>n<256. RuneStart (of_nat n) = (n < 128 \<or> 191 < n)"
  by code_simp

lemma RuneStart_iff: "RuneStart b \<longleftrightarrow> \<not> in_rng 0x80 0xBF b"
  using RuneStart_nat unat_byte_less [of b] by (auto simp: in_rng_def dest!: spec [of _ "unat b"])

lemma whole_rune_shape:
  assumes "bs \<noteq> []" and "whole_rune (take (rune_size bs) bs)" and "i < rune_size bs"
  shows "RuneStart (bs ! i) \<longleftrightarrow> i = 0"
proof -
  obtain a rest where bs: "bs = a # rest" using assms(1) by (cases bs) auto
  have s: "rune_size bs = 1 \<Longrightarrow> unat a < 128" using assms(2) bs by (simp add: whole_rune_def)
  show ?thesis using assms(3) s unfolding bs RuneStart_iff
    by (auto simp: in_rng_def less_Suc_eq numeral_2_eq_2 numeral_3_eq_3 nth_Cons' split: if_splits list.splits)
qed

lemma byte_pos_step:
  "bs \<noteq> [] \<Longrightarrow> byte_pos bs (Suc k) = rune_size bs + byte_pos (drop (rune_size bs) bs) k"
  using rune_size_le [of bs] by (simp add: byte_pos_def runes.simps [of bs])

lemma byte_pos_strict: "k < length (runes bs) \<Longrightarrow> byte_pos bs k < byte_pos bs (Suc k)"
  using runes_not_Nil [of "runes bs ! k" bs] by (simp add: byte_pos_def take_Suc_conv_app_nth)

lemma byte_pos_0 [simp]: "byte_pos bs 0 = 0"
  by (simp add: byte_pos_def)

text \<open>In valid UTF-8 the bytes that may start a rune are those at the rune boundaries.\<close>

lemma RuneStart_boundary:
  "valid_utf8 bs \<Longrightarrow> i < length bs \<Longrightarrow> RuneStart (bs ! i) \<longleftrightarrow> (\<exists>k. i = byte_pos bs k)"
proof (induction bs arbitrary: i rule: runes.induct)
  case (1 bs)
  let ?n = "rune_size bs"
  have ne: "bs \<noteq> []" using 1(3) by auto
  have v: "whole_rune (take ?n bs)" "valid_utf8 (drop ?n bs)" using 1(2) ne by (simp_all add: valid_utf8_def runes.simps [of bs])
  have split: "(\<exists>k. i = byte_pos bs k) \<longleftrightarrow> i = 0 \<or> (\<exists>k. i = ?n + byte_pos (drop ?n bs) k)"
    by (metis byte_pos_0 byte_pos_step [OF ne] not0_implies_Suc)
  show ?case
  proof (cases "i < ?n")
    case True
    then show ?thesis using whole_rune_shape [OF ne v(1)] by (auto simp: split)
  next
    case False
    then have eq: "bs ! i = drop ?n bs ! (i - ?n)" and l: "i - ?n < length (drop ?n bs)"
      using 1(3) rune_size_le [of bs] by simp_all
    have shift: "(\<exists>k. i - ?n = byte_pos (drop ?n bs) k) \<longleftrightarrow> (\<exists>k. i = ?n + byte_pos (drop ?n bs) k)"
      using False by (metis add_diff_cancel_left' le_add_diff_inverse not_less)
    have "i \<noteq> 0" using False rune_size_pos [OF ne] by simp
    moreover have "RuneStart (bs ! i) \<longleftrightarrow> (\<exists>k. i - ?n = byte_pos (drop ?n bs) k)"
      unfolding eq by (rule 1(1) [OF ne v(2) l])
    ultimately show ?thesis unfolding split shift by blast
  qed
qed

lemma rune_cut_spec:
  "rune_cut msg n \<le> n \<and> (rune_cut msg n = 0 \<or> RuneStart (msg ! rune_cut msg n)) \<and>
   (\<forall>i. rune_cut msg n < i \<longrightarrow> i \<le> n \<longrightarrow> \<not> RuneStart (msg ! i))"
  by (induction n) (auto simp: le_Suc_eq)

text \<open>
  C40: A long message is cut between runes: for a message of more than 900 bytes of valid UTF-8 what is written to the buffer is its
  first runes, all that fit into 900 bytes, followed by dots, so the line stays valid UTF-8.  Any other message that fits is written whole.
\<close>
theorem message_cut_at_rune:
  assumes "valid_utf8 (bytes_of msg)"
  shows "if length msg \<le> 900 then data (write_message w msg b) = data b @ msg
    else \<exists>k. data (write_message w msg b) = data b @ string_of (concat (take k (runes (bytes_of msg)))) @ ''...'' \<and>
      length (concat (take k (runes (bytes_of msg)))) \<le> 900 \<and>
      900 < length (concat (take (Suc k) (runes (bytes_of msg))))"
proof (cases "maxStrSize < length msg")
  case False
  then show ?thesis by (simp add: write_message_def maxStrSize_def)
next
  case True
  let ?bs = "bytes_of msg" and ?e = "rune_cut (bytes_of msg) maxStrSize"
  have e: "?e \<le> maxStrSize" "?e = 0 \<or> RuneStart (?bs ! ?e)" "\<And>i. ?e < i \<Longrightarrow> i \<le> maxStrSize \<Longrightarrow> \<not> RuneStart (?bs ! i)"
    using rune_cut_spec [of ?bs maxStrSize] by blast+
  have len: "maxStrSize < length ?bs" using True by simp
  obtain k where k: "?e = byte_pos ?bs k"
    using e(2) RuneStart_boundary [OF assms, of ?e] e(1) len by (metis byte_pos_0 le_less_trans)
  have pre: "take ?e ?bs = concat (take k (runes ?bs))"
    using byte_pos_slice(3) [of 0 k ?bs] by (simp add: k)
  have "maxStrSize < byte_pos ?bs (Suc k)"
  proof (rule ccontr)
    assume "\<not> maxStrSize < byte_pos ?bs (Suc k)"
    then have le: "byte_pos ?bs (Suc k) \<le> maxStrSize" by simp
    then have "byte_pos ?bs (Suc k) < length ?bs" using len by simp
    then have "RuneStart (?bs ! byte_pos ?bs (Suc k))" using RuneStart_boundary [OF assms] by blast
    moreover have "k < length (runes ?bs)"
      using byte_pos_all [of ?bs k] k e(1) len by (metis not_less)
    then have "byte_pos ?bs k < byte_pos ?bs (Suc k)" by (rule byte_pos_strict)
    ultimately show False using e(3) le k by auto
  qed
  moreover have "take ?e msg = string_of (concat (take k (runes ?bs)))"
    using pre by (metis bytes_of_def string_of_bytes_of string_of_def take_map)
  ultimately show ?thesis
    using True e(1) k by (auto simp: write_message_def maxStrSize_def byte_pos_def intro!: exI [of _ k])
qed

lemma ascii_valid: "\<forall>b\<in>set bs. unat b < 128 \<Longrightarrow> valid_utf8 bs"
proof (induction bs rule: runes.induct)
  case (1 bs)
  show ?case
  proof (cases bs)
    case (Cons a rest)
    have n: "rune_size bs = 1" using 1(2) Cons by (simp add: in_rng_def)
    then have "runes bs = [a] # runes rest" using Cons by (subst runes.simps) simp
    moreover have "valid_utf8 rest" using 1(1) 1(2) n Cons by simp
    ultimately show ?thesis using 1(2) Cons by (simp add: valid_utf8_def whole_rune_def)
  qed (simp add: valid_utf8_def runes.simps)
qed

theorem message_cut_at_rune_witness:
  "\<exists>k. data (write_message demo_runtime (replicate 901 CHR ''a'') new_buffer) =
     string_of (concat (take k (runes (bytes_of (replicate 901 CHR ''a''))))) @ ''...''"
proof -
  have "valid_utf8 (bytes_of (replicate 901 CHR ''a''))"
    by (rule ascii_valid) (simp add: bytes_of_def)
  then show ?thesis
    using message_cut_at_rune [of "replicate 901 CHR ''a''" demo_runtime new_buffer] by (auto simp: new_buffer_def)
qed

end
