(* ===== verification/DbTypes.thy ===== *)
theory DbTypes
  imports Prelude
begin

section \<open>Nullable column types\<close>

text \<open>
  \<^verbatim>\<open>db/types\<close>.  A value of a database driver is one of the types the \<^verbatim>\<open>database/sql\<close> package allows, or a value of another
  type (its name).  The floating point numbers are a type parameter \<open>'f\<close>; conversion and parsing of them, and the two
  layouts of \<^verbatim>\<open>time.Parse\<close>, are arguments.  \<^verbatim>\<open>Scan\<close> has a pointer receiver: it returns the receiver as it leaves it, beside the error.
  The locale \<open>column_type\<close> is the contract of a \<^verbatim>\<open>Scanner\<close> with its \<^verbatim>\<open>Valuer\<close>.
\<close>

datatype 'f driver_value =
    DNil
  | DInt int
  | DFloat 'f
  | DBool bool
  | DBytes "byte list"
  | DString string
  | DTime time
  | DOther string

fun type_name :: "'f driver_value \<Rightarrow> string" where
  "type_name DNil = ''nil''"
| "type_name (DInt i) = ''int64''"
| "type_name (DFloat f) = ''float64''"
| "type_name (DBool b) = ''bool''"
| "type_name (DBytes b) = ''[]uint8''"
| "type_name (DString s) = ''string''"
| "type_name (DTime t) = ''time.Time''"
| "type_name (DOther n) = n"

subsection \<open>The contract\<close>

text \<open>\<open>can\<close> says which contents the receiver can have been left in.\<close>

locale column_type =
  fixes scan :: "'f driver_value \<Rightarrow> 'c \<Rightarrow> string option \<times> 'c" and val :: "'c \<Rightarrow> 'f driver_value"
    and null :: 'c and can :: "'c \<Rightarrow> bool"
  assumes scan_val: "can c \<Longrightarrow> scan (val c) d = (None, c)"
    and scan_nil: "scan DNil d = (None, null)"
    and scan_keeps: "scan v d = (Some e, d') \<Longrightarrow> d' = d"
    and scan_can: "scan v d = (None, d') \<Longrightarrow> can d'"
begin

text \<open>A column written and read back is the column, whatever the receiver held; scanning is idempotent on what it accepts.\<close>

lemma write_read: "can c \<Longrightarrow> scan (val c) d = (None, c) \<and> scan (val c) d' = scan (val c) d"
  using scan_val by simp

lemma read_write_read: "scan v d = (None, c) \<Longrightarrow> scan (val c) d' = (None, c)"
  using scan_val scan_can by blast

lemma scan_cases: "fst (scan v d) \<noteq> None \<and> snd (scan v d) = d \<or> fst (scan v d) = None \<and> can (snd (scan v d))"
  using scan_keeps scan_can by (metis option.exhaust prod.collapse)

end

subsection \<open>BitBool\<close>

definition BitBool_Scan :: "'f driver_value \<Rightarrow> bool \<Rightarrow> string option \<times> bool" where
  "BitBool_Scan src b =
     (case src of
        DNil \<Rightarrow> (None, False)
      | DBytes v \<Rightarrow> (case v of [] \<Rightarrow> (Some ''empty []byte'', b) | x # _ \<Rightarrow> (None, x = 1))
      | _ \<Rightarrow> (Some ''bad []byte type assertion'', b))"

definition BitBool_Value :: "bool \<Rightarrow> 'f driver_value" where
  "BitBool_Value b = (if b then DBytes [1] else DBytes [0])"

interpretation bitbool: column_type BitBool_Scan BitBool_Value False "\<lambda>_. True"
  by unfold_locales (auto simp: BitBool_Scan_def BitBool_Value_def split: driver_value.splits list.splits)

subsection \<open>NullFloat64\<close>

record 'f NullFloat64 =
  fvalue :: 'f
  fValid :: bool

record 'f floats =
  fzero :: 'f
  of_int64 :: "int \<Rightarrow> 'f"
  parseFloat :: "string \<Rightarrow> string + 'f"

definition cannot_scan :: "'f driver_value \<Rightarrow> string \<Rightarrow> string" where
  "cannot_scan v n = ''cannot scan '' @ type_name v @ '' into '' @ n"

definition NullFloat64_Scan :: "'f floats \<Rightarrow> 'f driver_value \<Rightarrow> 'f NullFloat64 \<Rightarrow> string option \<times> 'f NullFloat64" where
  "NullFloat64_Scan fl v nt =
     (case v of
        DNil \<Rightarrow> (None, \<lparr>fvalue = fzero fl, fValid = False\<rparr>)
      | DFloat f \<Rightarrow> (None, \<lparr>fvalue = f, fValid = True\<rparr>)
      | DInt i \<Rightarrow> (None, \<lparr>fvalue = of_int64 fl i, fValid = True\<rparr>)
      | DBytes b \<Rightarrow> (case parseFloat fl (string_of b) of
          Inl e \<Rightarrow> (Some e, nt)
        | Inr f \<Rightarrow> (None, \<lparr>fvalue = f, fValid = True\<rparr>))
      | _ \<Rightarrow> (Some (cannot_scan v ''NullFloat64''), nt))"

definition NullFloat64_Value :: "'f NullFloat64 \<Rightarrow> 'f driver_value" where
  "NullFloat64_Value nt = (if \<not> fValid nt then DNil else DFloat (fvalue nt))"

interpretation nullfloat: column_type "NullFloat64_Scan fl" NullFloat64_Value "\<lparr>fvalue = fzero fl, fValid = False\<rparr>"
    "\<lambda>c. fValid c \<or> fvalue c = fzero fl"
  by unfold_locales (auto simp: NullFloat64_Scan_def NullFloat64_Value_def split: driver_value.splits sum.splits if_splits)

subsection \<open>NullString\<close>

record NullString =
  Val :: string
  sValid :: bool

definition NullString_Scan :: "'f driver_value \<Rightarrow> NullString \<Rightarrow> string option \<times> NullString" where
  "NullString_Scan v nt =
     (case v of
        DNil \<Rightarrow> (None, \<lparr>Val = [], sValid = False\<rparr>)
      | DString s \<Rightarrow> (None, \<lparr>Val = s, sValid = True\<rparr>)
      | DBytes b \<Rightarrow> (None, \<lparr>Val = string_of b, sValid = True\<rparr>)
      | _ \<Rightarrow> (Some (cannot_scan v ''NullString''), nt))"

definition NullString_Value :: "NullString \<Rightarrow> 'f driver_value" where
  "NullString_Value nt = (if \<not> sValid nt then DNil else DString (Val nt))"

definition ValidValue :: "NullString \<Rightarrow> string" where
  "ValidValue nt = (if \<not> sValid nt then [] else Val nt)"

interpretation nullstring: column_type NullString_Scan NullString_Value "\<lparr>Val = [], sValid = False\<rparr>"
    "\<lambda>c. sValid c \<or> Val c = []"
  by unfold_locales (auto simp: NullString_Scan_def NullString_Value_def split: driver_value.splits if_splits)

subsection \<open>NullTime\<close>

record NullTime =
  Time :: time
  tValid :: bool

text \<open>\<open>zero\<close> is \<^verbatim>\<open>time.Time{}\<close>; \<open>rfc3339\<close> and \<open>datetime\<close> are \<^verbatim>\<open>time.Parse\<close> with the two layouts.\<close>

record layouts =
  zero_time :: time
  rfc3339 :: "string \<Rightarrow> time option"
  datetime :: "string \<Rightarrow> time option"

definition scan_text :: "layouts \<Rightarrow> 'f driver_value \<Rightarrow> string \<Rightarrow> NullTime \<Rightarrow> string option \<times> NullTime" where
  "scan_text ls v s nt =
     (case rfc3339 ls s of
        Some t \<Rightarrow> (None, \<lparr>Time = t, tValid = True\<rparr>)
      | None \<Rightarrow> (case datetime ls s of
          Some t \<Rightarrow> (None, \<lparr>Time = t, tValid = True\<rparr>)
        | None \<Rightarrow> (Some (cannot_scan v ''NullTime''), nt)))"

definition NullTime_Scan :: "layouts \<Rightarrow> 'f driver_value \<Rightarrow> NullTime \<Rightarrow> string option \<times> NullTime" where
  "NullTime_Scan ls v nt =
     (case v of
        DNil \<Rightarrow> (None, \<lparr>Time = zero_time ls, tValid = False\<rparr>)
      | DTime t \<Rightarrow> (None, \<lparr>Time = t, tValid = True\<rparr>)
      | DString s \<Rightarrow> scan_text ls v s nt
      | DBytes b \<Rightarrow> scan_text ls v (string_of b) nt
      | _ \<Rightarrow> (Some (cannot_scan v ''NullTime''), nt))"

definition NullTime_Value :: "NullTime \<Rightarrow> 'f driver_value" where
  "NullTime_Value nt = (if \<not> tValid nt then DNil else DTime (Time nt))"

interpretation nulltime: column_type "NullTime_Scan ls" NullTime_Value "\<lparr>Time = zero_time ls, tValid = False\<rparr>"
    "\<lambda>c. tValid c \<or> Time c = zero_time ls"
  by unfold_locales
     (auto simp: NullTime_Scan_def NullTime_Value_def scan_text_def split: driver_value.splits option.splits if_splits)

subsection \<open>Properties\<close>

text \<open>
  What was scanned from a column is written back and scanned again unchanged, for all four column types: when \<^verbatim>\<open>Scan\<close>
  accepts a driver value, scanning the \<^verbatim>\<open>Value\<close> of the result into any receiver gives the same result; when it refuses, the
  receiver is untouched.
\<close>
theorem column_round_trip:
  fixes v :: "'f driver_value"
  shows
  "(let (e, r) = BitBool_Scan v b in if e = None then BitBool_Scan (BitBool_Value r :: 'f driver_value) b' = (None, r) else r = b) \<and>
   (let (e, r) = NullFloat64_Scan fl v f in if e = None then NullFloat64_Scan fl (NullFloat64_Value r) f' = (None, r) else r = f) \<and>
   (let (e, r) = NullString_Scan v s in if e = None then NullString_Scan (NullString_Value r :: 'f driver_value) s' = (None, r) else r = s) \<and>
   (let (e, r) = NullTime_Scan ls v t in if e = None then NullTime_Scan ls (NullTime_Value r :: 'f driver_value) t' = (None, r) else r = t)"
  using bitbool.read_write_read [of v b] bitbool.scan_keeps [of v b] nullfloat.read_write_read [of fl v f] nullfloat.scan_keeps [of fl v f]
    nullstring.read_write_read [of v s] nullstring.scan_keeps [of v s] nulltime.read_write_read [of ls v t] nulltime.scan_keeps [of ls v t]
  by (auto split: prod.split)

text \<open>
  \<^verbatim>\<open>BitBool\<close> takes a bit field for true only when its first byte is 1, so of a wider field only one value is true.
\<close>
lemma BitBool_wide_field: "BitBool_Scan (DBytes (x # xs)) b = (None, x = 1)"
  by (simp add: BitBool_Scan_def)

end
