(* ===== verification/Generator.thy ===== *)
theory Generator
  imports Uuid
begin

section \<open>Random strings\<close>

text \<open>
  \<^verbatim>\<open>crypt/generator/stringGenerator.go\<close>.  The entropy source answers each read with bytes or an error, the time-seeded generator
  always answers; both are the argument \<open>entropy\<close>.  A panic (a negative length) is \<^const>\<open>None\<close>.
\<close>

definition generator_chars :: string where
  "generator_chars = ''abcdefghijklmnopqrstuvwxyzABCDEFGHIJKLMNOPQRSTUVWXYZ1234567890!@#$%^&*()-=+''"

text \<open>\<open>randRead i n\<close> is the \<open>i\<close>-th read of \<open>n\<close> bytes, \<open>randInt i m\<close> the \<open>i\<close>-th draw below \<open>m\<close>; the fallbacks never fail.\<close>

record entropy =
  randRead :: "nat \<Rightarrow> nat \<Rightarrow> byte list option"
  seeded :: "nat \<Rightarrow> byte"
  randInt :: "nat \<Rightarrow> nat \<Rightarrow> nat option"
  seededIntn :: "nat \<Rightarrow> nat \<Rightarrow> nat"

definition randomBytes :: "entropy \<Rightarrow> nat \<Rightarrow> byte list" where
  "randomBytes e n =
     (case randRead e 0 n of
        Some b \<Rightarrow> b
      | None \<Rightarrow> (case randRead e 1 n of Some b \<Rightarrow> b | None \<Rightarrow> map (seeded e) [0..<n]))"

definition randIndex :: "entropy \<Rightarrow> nat \<Rightarrow> nat \<Rightarrow> nat" where
  "randIndex e i m = (case randInt e i m of Some n \<Rightarrow> n | None \<Rightarrow> seededIntn e i m)"

text \<open>Go's integer division truncates; \<^verbatim>\<open>make\<close> panics on a negative size.\<close>

definition RandomBase16String :: "entropy \<Rightarrow> int \<Rightarrow> string option" where
  "RandomBase16String e l =
     (let m = wrap64 (l + 1); n = (if m < 0 then - ((- m) div 2) else m div 2) in
      if n < 0 then None
      else let str = hex_bytes (randomBytes e (nat n)) in
        if l < 0 \<or> int (length str) < l then None else Some (take (nat l) str))"

fun short_id_loop :: "entropy \<Rightarrow> nat \<Rightarrow> nat \<Rightarrow> string" where
  "short_id_loop e i 0 = []"
| "short_id_loop e i (Suc n) = generator_chars ! randIndex e i (length generator_chars) # short_id_loop e (Suc i) n"

definition ShortID :: "entropy \<Rightarrow> int \<Rightarrow> string option" where
  "ShortID e len = (if len < 0 then None else Some (short_id_loop e 0 (nat len)))"

subsection \<open>Properties\<close>

text \<open>What the random sources promise: as many bytes as asked for, and draws below the bound.\<close>

definition lawful_entropy :: "entropy \<Rightarrow> bool" where
  "lawful_entropy e \<longleftrightarrow>
     (\<forall>i n b. randRead e i n = Some b \<longrightarrow> length b = n) \<and>
     (\<forall>i m n. 0 < m \<longrightarrow> randInt e i m = Some n \<longrightarrow> n < m) \<and> (\<forall>i m. 0 < m \<longrightarrow> seededIntn e i m < m)"

lemma length_randomBytes: "lawful_entropy e \<Longrightarrow> length (randomBytes e n) = n"
  by (auto simp: lawful_entropy_def randomBytes_def split: option.splits)

lemma randIndex_less: "lawful_entropy e \<Longrightarrow> 0 < m \<Longrightarrow> randIndex e i m < m"
  by (auto simp: lawful_entropy_def randIndex_def split: option.splits)

definition hex_digit_char :: "char \<Rightarrow> bool" where
  "hex_digit_char c \<longleftrightarrow> (\<exists>n<16. c = hex_lower n)"

lemma hex_bytes_digits: "\<forall>c\<in>set (hex_bytes bs). hex_digit_char c"
proof -
  have "unat (b :: byte) div 16 < 16" for b using unat_byte_less [of b] by linarith
  moreover have "unat (b :: byte) mod 16 < 16" for b by simp
  ultimately show ?thesis unfolding hex_bytes_def hex_digit_char_def by (auto, blast+)
qed

text \<open>
  A random hexadecimal string has exactly the requested length, odd or even, and only lower-case digits, also when the entropy
  source fails; a negative length panics.
\<close>
theorem RandomBase16String_spec:
  assumes "lawful_entropy e" and "l < max_int64" and "min_int64 \<le> l"
  shows "if l < 0 then RandomBase16String e l = None
         else \<exists>s. RandomBase16String e l = Some s \<and> int (length s) = l \<and> (\<forall>c\<in>set s. hex_digit_char c)"
proof -
  have w: "wrap64 (l + 1) = l + 1" using assms(2,3) by (intro wrap64_id) (simp add: int64_ok_def)
  show ?thesis
  proof (cases "l < 0")
    case True
    then show ?thesis by (simp add: RandomBase16String_def Let_def w)
  next
    case False
    let ?s = "hex_bytes (randomBytes e (nat ((l + 1) div 2)))"
    have "int (length ?s) = 2 * ((l + 1) div 2)" using False assms(1) by (simp add: length_hex_bytes length_randomBytes)
    then have len: "l \<le> int (length ?s)" using False by linarith
    have "\<forall>c\<in>set (take (nat l) ?s). hex_digit_char c" using hex_bytes_digits by (meson in_set_takeD)
    then show ?thesis using False len by (auto simp: RandomBase16String_def Let_def w min_def)
  qed
qed

text \<open>
  A short identifier has exactly the requested length and only characters of the alphabet.
\<close>
theorem ShortID_spec:
  assumes "lawful_entropy e" and "0 \<le> n"
  shows "\<exists>s. ShortID e n = Some s \<and> int (length s) = n \<and> set s \<subseteq> set generator_chars"
proof -
  have "length (short_id_loop e i k) = k \<and> set (short_id_loop e i k) \<subseteq> set generator_chars" for i k
  proof (induction k arbitrary: i)
    case (Suc k)
    have "randIndex e i (length generator_chars) < length generator_chars"
      by (rule randIndex_less [OF assms(1)]) (simp add: generator_chars_def)
    then show ?case using Suc.IH [of "Suc i"] by simp
  qed simp
  then show ?thesis using assms(2) by (simp add: ShortID_def)
qed

end
