(* ===== verification/HttpClient.thy ===== *)
theory HttpClient
  imports GoBase64
begin

section \<open>The HTTP client\<close>

text \<open>
  \<^verbatim>\<open>web/std/client/HTTPClient.go\<close> and the data of \<^verbatim>\<open>web/ClientDTS.go\<close>.  An \<^verbatim>\<open>*http.Client\<close> is the value of its settings, so
  that a cached client can be compared with one built now.  The transport of \<^verbatim>\<open>net/http\<close>, gzip, URL parsing
  and \<^verbatim>\<open>json.Marshal\<close> are parameters.  The headers of a request are a list of names and values in the order
  they were added; a Go map is a list in the order in which it is visited.
\<close>

subsection \<open>Data\<close>

record ConfigHTTPClient =
  MaxIdleConns :: int
  MaxIdleConnsPerHost :: int
  IdleConnTimeout :: duration
  RequestTimeout :: duration
  DisableCompression :: bool
  MaxResponseBodySize :: int
  InsecureSkipVerify :: bool

record tls_config =
  skipVerify :: bool
  minTLS12 :: bool
  serverName :: string
  cipherSuites :: "nat list"

datatype transport =
    CustomTransport nat
  | BuiltTransport int int duration bool duration tls_config

record http_client =
  hc_timeout :: duration
  hc_transport :: transport

record HTTPClient =
  config :: ConfigHTTPClient
  hClient :: "http_client option"
  header :: "(string \<times> string) list"
  clientRoundTripper :: nat
  clientRoundTripperAdded :: bool
  fixedCipherRule :: string

definition NewHTTPClient :: "ConfigHTTPClient \<Rightarrow> HTTPClient" where
  "NewHTTPClient cfg =
     \<lparr>config = cfg, hClient = None, header = [], clientRoundTripper = 0, clientRoundTripperAdded = False, fixedCipherRule = []\<rparr>"

definition has_suffix :: "string \<Rightarrow> string \<Rightarrow> bool" where
  "has_suffix s p \<longleftrightarrow> length p \<le> length s \<and> drop (length s - length p) s = p"

definition trim_suffix :: "string \<Rightarrow> string \<Rightarrow> string" where
  "trim_suffix s p = (if has_suffix s p then take (length s - length p) s else s)"

definition GetURL :: "string \<Rightarrow> string \<Rightarrow> string" where
  "GetURL host url = (if host = [] then url else trim_suffix host ''/'' @ ''/'' @ url)"

definition basicAuth :: "string \<Rightarrow> string \<Rightarrow> string" where
  "basicAuth username password = encodeBase64 (bytes_of (username @ '':'' @ password))"

subsection \<open>The shared client\<close>

text \<open>\<open>hostname\<close> is \<^verbatim>\<open>url.Parse\<close> followed by \<^verbatim>\<open>Hostname\<close>; the suites are the TLS numbers of the constants.\<close>

definition buildClient :: "(string \<Rightarrow> string option) \<Rightarrow> HTTPClient \<Rightarrow> http_client" where
  "buildClient hostname h =
     (let cfg = config h;
          plainTls = \<lparr>skipVerify = InsecureSkipVerify cfg, minTLS12 = False, serverName = [], cipherSuites = []\<rparr>;
          tls = (if fixedCipherRule h \<noteq> []
                 then plainTls\<lparr>skipVerify := True, minTLS12 := True,
                        serverName := (case hostname (fixedCipherRule h) of Some n \<Rightarrow> n | None \<Rightarrow> []),
                        cipherSuites := [49199, 49200, 49195, 49196, 156, 157]\<rparr>
                 else plainTls)
      in \<lparr>hc_timeout = RequestTimeout cfg,
          hc_transport =
            (if clientRoundTripperAdded h then CustomTransport (clientRoundTripper h)
             else BuiltTransport (MaxIdleConns cfg) (MaxIdleConnsPerHost cfg) (IdleConnTimeout cfg)
                    (DisableCompression cfg) 10000000000 tls)\<rparr>)"

definition SetTransport :: "nat \<Rightarrow> HTTPClient \<Rightarrow> HTTPClient" where
  "SetTransport tr h = h\<lparr>clientRoundTripperAdded := True, clientRoundTripper := tr, hClient := None\<rparr>"

definition SetFixedCipherRuleWithURL :: "string \<Rightarrow> HTTPClient \<Rightarrow> HTTPClient" where
  "SetFixedCipherRuleWithURL sUrl h =
     (if fixedCipherRule h \<noteq> sUrl then h\<lparr>fixedCipherRule := sUrl, hClient := None\<rparr> else h)"

definition GetClient :: "(string \<Rightarrow> string option) \<Rightarrow> HTTPClient \<Rightarrow> http_client \<times> HTTPClient" where
  "GetClient hostname h =
     (case hClient h of
        Some c \<Rightarrow> (c, h)
      | None \<Rightarrow> (let c = buildClient hostname h in (c, h\<lparr>hClient := Some c\<rparr>)))"

definition Close :: "HTTPClient \<Rightarrow> HTTPClient" where
  "Close h = (case hClient h of None \<Rightarrow> h | Some _ \<Rightarrow> h\<lparr>hClient := None\<rparr>)"

fun set_header :: "string \<Rightarrow> string \<Rightarrow> (string \<times> string) list \<Rightarrow> (string \<times> string) list" where
  "set_header k v [] = [(k, v)]"
| "set_header k v ((k', v') # hs) = (if k' = k then (k, v) # hs else (k', v') # set_header k v hs)"

definition AddHeader :: "string \<Rightarrow> string \<Rightarrow> HTTPClient \<Rightarrow> HTTPClient" where
  "AddHeader k v h = h\<lparr>header := set_header k v (header h)\<rparr>"

definition AddBasicAuth :: "string \<Rightarrow> string \<Rightarrow> HTTPClient \<Rightarrow> HTTPClient" where
  "AddBasicAuth u p h = h\<lparr>header := set_header ''Authorization'' (''Basic '' @ basicAuth u p) (header h)\<rparr>"

subsection \<open>Requests and responses\<close>

datatype 'b body = BodyString string | BodyValue 'b

record AuthData =
  auth_Type :: string
  auth_Host :: string
  auth_User :: string
  auth_Pass :: string

definition IsBasic :: "AuthData \<Rightarrow> bool" where
  "IsBasic ad \<longleftrightarrow> auth_Type ad = ''basic'' \<and> auth_User ad \<noteq> []"

record 'b RequestDTS =
  RequestUrl :: string
  RequestType :: string
  Body :: "'b body"
  Auth :: AuthData
  Headers :: "(string \<times> string) list"

record http_request =
  req_method :: string
  req_url :: string
  req_body :: "byte list"
  req_header :: "(string \<times> string) list"

text \<open>A failed \<^verbatim>\<open>json.Marshal\<close> is logged and an empty body sent.\<close>

definition getReqBodyReader :: "('b \<Rightarrow> byte list option) \<Rightarrow> 'b RequestDTS \<Rightarrow> byte list" where
  "getReqBodyReader marshal r =
     (case Body r of
        BodyString s \<Rightarrow> bytes_of s
      | BodyValue v \<Rightarrow> (case marshal v of None \<Rightarrow> [] | Some bs \<Rightarrow> bs))"

text \<open>\<open>newRequest\<close> is \<^verbatim>\<open>http.NewRequest\<close>, which refuses a malformed method or URL.\<close>

definition newHTTPRequest :: "('b \<Rightarrow> byte list option) \<Rightarrow> (string \<Rightarrow> string \<Rightarrow> string option) \<Rightarrow> HTTPClient \<Rightarrow> 'b RequestDTS
      \<Rightarrow> string + http_request" where
  "newHTTPRequest marshal newRequest h r =
     (let requestType = (if RequestType r = [] then ''GET'' else RequestType r) in
      case newRequest requestType (RequestUrl r) of
        Some e \<Rightarrow> Inl e
      | None \<Rightarrow> Inr
          \<lparr>req_method = requestType, req_url = RequestUrl r, req_body = getReqBodyReader marshal r,
           req_header = Headers r @ header h @
             (if IsBasic (Auth r) then [(''Authorization'', ''Basic '' @ basicAuth (auth_User (Auth r)) (auth_Pass (Auth r)))] else [])\<rparr>)"

text \<open>A body is the bytes it delivers and the error, if any, that ends it instead of the end of file.\<close>

type_synonym stream = "byte list \<times> string option"

record http_response =
  resp_StatusCode :: int
  resp_Status :: string
  resp_Body :: "stream option"
  resp_Header :: "(string \<times> string list) list"

text \<open>\<^verbatim>\<open>resp.Header.Get\<close> on canonical names.\<close>

definition get_header :: "(string \<times> string list) list \<Rightarrow> string \<Rightarrow> string" where
  "get_header hs k = (case map_of hs k of Some (v # _) \<Rightarrow> v | _ \<Rightarrow> [])"

definition newResponseBodyReader :: "(stream \<Rightarrow> string + stream) \<Rightarrow> http_response \<Rightarrow> stream \<Rightarrow> string + stream" where
  "newResponseBodyReader gunzip resp b =
     (if get_header (resp_Header resp) ''Content-Encoding'' = ''gzip'' then gunzip b else Inr b)"

text \<open>\<^verbatim>\<open>io.ReadAll\<close>, through \<^verbatim>\<open>io.LimitReader\<close> when there is a limit: what lies beyond the limit is not read.\<close>

definition readResponseBody :: "HTTPClient \<Rightarrow> stream \<Rightarrow> string + byte list" where
  "readResponseBody h b =
     (let limit = MaxResponseBodySize (config h) in
      if limit > 0 \<and> limit \<le> int (length (fst b)) then Inr (take (nat limit) (fst b))
      else (case snd b of Some e \<Rightarrow> Inl e | None \<Rightarrow> Inr (fst b)))"

definition copyResponseHeaders :: "(string \<times> string list) list \<Rightarrow> (string \<times> string list) list option" where
  "copyResponseHeaders hs = (if hs = [] then None else Some hs)"

record ResponseBytesDTS =
  StatusCode :: int
  Status :: string
  dts_Body :: "byte list"
  Header :: "(string \<times> string list) list option"

definition empty_response :: ResponseBytesDTS where
  "empty_response = \<lparr>StatusCode = 0, Status = [], dts_Body = [], Header = None\<rparr>"

record 'b net =
  net_marshal :: "'b \<Rightarrow> byte list option"
  net_newRequest :: "string \<Rightarrow> string \<Rightarrow> string option"
  net_hostname :: "string \<Rightarrow> string option"
  net_do :: "http_client \<Rightarrow> http_request \<Rightarrow> string + http_response"
  net_gunzip :: "stream \<Rightarrow> string + stream"

definition DORequestBytes :: "'b net \<Rightarrow> 'b RequestDTS \<Rightarrow> HTTPClient \<Rightarrow> (ResponseBytesDTS \<times> string option) \<times> HTTPClient" where
  "DORequestBytes n r h0 =
     (let (client, h) = GetClient (net_hostname n) h0 in
      case newHTTPRequest (net_marshal n) (net_newRequest n) h r of
        Inl e \<Rightarrow> ((empty_response, Some e), h)
      | Inr req \<Rightarrow> (case net_do n client req of
          Inl e \<Rightarrow> ((empty_response, Some e), h)
        | Inr resp \<Rightarrow>
            let r1 = empty_response\<lparr>StatusCode := resp_StatusCode resp, Status := resp_Status resp\<rparr> in
            (case resp_Body resp of
               None \<Rightarrow> ((r1\<lparr>Header := copyResponseHeaders (resp_Header resp)\<rparr>, None), h)
             | Some b \<Rightarrow> (case newResponseBodyReader (net_gunzip n) resp b of
                 Inl e \<Rightarrow> ((r1, Some e), h)
               | Inr reader \<Rightarrow> (case readResponseBody h reader of
                   Inl e \<Rightarrow> ((r1, Some e), h)
                 | Inr body \<Rightarrow>
                     ((r1\<lparr>dts_Body := body, Header := copyResponseHeaders (resp_Header resp)\<rparr>, None), h))))))"

text \<open>\<^verbatim>\<open>DORequest\<close> is the same code with the body as a string.\<close>

definition DORequest :: "'b net \<Rightarrow> 'b RequestDTS \<Rightarrow> HTTPClient \<Rightarrow> (ResponseBytesDTS \<times> string \<times> string option) \<times> HTTPClient" where
  "DORequest n r h0 =
     (case DORequestBytes n r h0 of ((resp, e), h) \<Rightarrow> ((resp, string_of (dts_Body resp), e), h))"

subsection \<open>Any sequence of operations\<close>

datatype client_op =
    OpSetTransport nat
  | OpSetCipher string
  | OpGetClient
  | OpClose
  | OpAddHeader string string
  | OpAddBasicAuth string string

fun apply_op :: "(string \<Rightarrow> string option) \<Rightarrow> client_op \<Rightarrow> HTTPClient \<Rightarrow> HTTPClient" where
  "apply_op hn (OpSetTransport t) h = SetTransport t h"
| "apply_op hn (OpSetCipher u) h = SetFixedCipherRuleWithURL u h"
| "apply_op hn OpGetClient h = snd (GetClient hn h)"
| "apply_op hn OpClose h = Close h"
| "apply_op hn (OpAddHeader k v) h = AddHeader k v h"
| "apply_op hn (OpAddBasicAuth u p) h = AddBasicAuth u p h"

definition cached_current :: "(string \<Rightarrow> string option) \<Rightarrow> HTTPClient \<Rightarrow> bool" where
  "cached_current hn h \<longleftrightarrow> (\<forall>c. hClient h = Some c \<longrightarrow> c = buildClient hn h)"

lemma buildClient_irrelevant [simp]:
  "buildClient hn (h\<lparr>hClient := c\<rparr>) = buildClient hn h" "buildClient hn (h\<lparr>header := hs\<rparr>) = buildClient hn h"
  by (simp_all add: buildClient_def Let_def)

lemma apply_op_current [inv_intros]: "cached_current hn h \<Longrightarrow> cached_current hn (apply_op hn op h)"
  by (cases op)
     (auto simp: cached_current_def SetTransport_def SetFixedCipherRuleWithURL_def GetClient_def Close_def AddHeader_def
        AddBasicAuth_def Let_def split: option.splits)

lemma fold_current: "cached_current hn h \<Longrightarrow> cached_current hn (fold (apply_op hn) ops h)"
  by (induction ops arbitrary: h) (auto intro: apply_op_current)

subsection \<open>Properties\<close>

text \<open>
  C37: The shared client is never stale: after any sequence of operations on a new \<^verbatim>\<open>HTTPClient\<close>, the client \<^verbatim>\<open>GetClient\<close> returns has
  exactly the transport, TLS and timeout settings that building one now would give, and a second call returns the same.
\<close>
theorem GetClient_never_stale:
  "fst (GetClient hn (fold (apply_op hn) ops (NewHTTPClient cfg))) = buildClient hn (fold (apply_op hn) ops (NewHTTPClient cfg)) \<and>
   GetClient hn (snd (GetClient hn (fold (apply_op hn) ops (NewHTTPClient cfg)))) =
   GetClient hn (fold (apply_op hn) ops (NewHTTPClient cfg))"
proof -
  have "cached_current hn (fold (apply_op hn) ops (NewHTTPClient cfg))"
    by (rule fold_current) (simp add: cached_current_def NewHTTPClient_def)
  then show ?thesis by (auto simp: GetClient_def cached_current_def Let_def split: option.split)
qed

text \<open>
  With a positive \<^verbatim>\<open>MaxResponseBodySize\<close> no response body is longer, whatever the server sends and however far a gzip
  body expands; and a request that succeeds reports a prefix of the stream the server sent.
\<close>
theorem response_body_bounded:
  assumes "MaxResponseBodySize (config h) > 0" and "DORequestBytes n r h = ((resp, e), h')"
  shows "int (length (dts_Body resp)) \<le> MaxResponseBodySize (config h) \<and>
         (e = None \<longrightarrow> dts_Body resp = [] \<or>
            (\<exists>req hr b s. net_do n (fst (GetClient (net_hostname n) h)) req = Inr hr \<and>
              resp_Body hr = Some b \<and> newResponseBodyReader (net_gunzip n) hr b = Inr s \<and>
              dts_Body resp = take (length (dts_Body resp)) (fst s)))"
proof -
  have cfg: "config (snd (GetClient hn h)) = config h" for hn
    by (simp add: GetClient_def Let_def split: option.split)
  have rb: "int (length body) \<le> MaxResponseBodySize (config h) \<and> body = take (length body) (fst s)"
    if "readResponseBody (snd (GetClient hn h)) s = Inr body" for hn s body
    using that assms(1) by (auto simp: readResponseBody_def cfg Let_def split: if_splits option.splits)
  show ?thesis
    using assms rb
    by (auto simp: DORequestBytes_def Let_def empty_response_def case_prod_beta split: sum.splits option.splits) blast
qed

definition demo_http_config :: ConfigHTTPClient where
  "demo_http_config = \<lparr>MaxIdleConns = 10, MaxIdleConnsPerHost = 10, IdleConnTimeout = 30, RequestTimeout = 60, DisableCompression = False,
     MaxResponseBodySize = 2, InsecureSkipVerify = False\<rparr>"

definition demo_net :: "unit net" where
  "demo_net = \<lparr>net_marshal = (\<lambda>_. None), net_newRequest = (\<lambda>_ _. None), net_hostname = (\<lambda>_. None),
     net_do = (\<lambda>_ _. Inr \<lparr>resp_StatusCode = 200, resp_Status = ''200 OK'', resp_Body = Some ([1, 2, 3, 4], None), resp_Header = []\<rparr>),
     net_gunzip = Inr\<rparr>"

definition demo_request :: "unit RequestDTS" where
  "demo_request = \<lparr>RequestUrl = ''http://x'', RequestType = [], Body = BodyString [],
     Auth = \<lparr>auth_Type = [], auth_Host = [], auth_User = [], auth_Pass = []\<rparr>, Headers = []\<rparr>"

theorem response_body_bounded_witness:
  "length (dts_Body (fst (fst (DORequestBytes demo_net demo_request (NewHTTPClient demo_http_config))))) \<le> 2"
proof -
  obtain resp e h' where run: "DORequestBytes demo_net demo_request (NewHTTPClient demo_http_config) = ((resp, e), h')"
    by (metis surj_pair)
  have "MaxResponseBodySize (config (NewHTTPClient demo_http_config)) > 0" "MaxResponseBodySize (config (NewHTTPClient demo_http_config)) = 2"
    by (simp_all add: NewHTTPClient_def demo_http_config_def)
  then show ?thesis using response_body_bounded [OF _ run] run by simp
qed

end
