(* ===== verification/FastHttp.thy ===== *)
theory FastHttp
  imports HttpClient GoStrconv
begin

section \<open>The fasthttp client and the logging transport\<close>

text \<open>
  \<^verbatim>\<open>web/fasthttp/client/FastHttpClient.go\<close>, a second client for the requests of \<open>HttpClient\<close>, and \<^verbatim>\<open>web/std/client/middleware/log/logger.go\<close>, the
  round tripper that logs what another one sends and receives.  The fasthttp library, JSON and the transport are arguments.
\<close>

subsection \<open>The client\<close>

record ConfigFastHttpClient =
  RequestTimeout :: duration
  fast_ReadTimeout :: duration
  fast_WriteTimeout :: duration
  fast_IdleConnTimeout :: duration
  DNSTimeout :: duration
  fast_MaxResponseBodySize :: int

record fast_client =
  ReadTimeout :: duration
  WriteTimeout :: duration
  MaxIdleConnDuration :: duration
  client_MaxResponseBodySize :: int
  NoDefaultUserAgentHeader :: bool
  DisableHeaderNamesNormalizing :: bool
  DisablePathNormalizing :: bool
  dial_Concurrency :: int
  DNSCacheDuration :: duration

record FastHttpClient =
  fast_config :: ConfigFastHttpClient
  client :: fast_client

definition NewFastHttpClient :: "ConfigFastHttpClient \<Rightarrow> FastHttpClient" where
  "NewFastHttpClient cfg =
     \<lparr>fast_config = cfg,
      client = \<lparr>ReadTimeout = fast_ReadTimeout cfg, WriteTimeout = fast_WriteTimeout cfg,
                MaxIdleConnDuration = fast_IdleConnTimeout cfg,
                client_MaxResponseBodySize = wrap64 (fast_MaxResponseBodySize cfg),
                NoDefaultUserAgentHeader = True, DisableHeaderNamesNormalizing = True, DisablePathNormalizing = True,
                dial_Concurrency = 4096, DNSCacheDuration = DNSTimeout cfg\<rparr>\<rparr>"

text \<open>What goes out and what comes back; \<open>fast_do\<close> is \<^verbatim>\<open>DoTimeout\<close> with the time limit.\<close>

record fast_request =
  fast_uri :: string
  fast_method :: string
  fast_contentType :: "string option"
  fast_body :: "byte list"

record fast_response =
  fast_StatusCode :: int
  fast_StatusMessage :: string
  fast_respBody :: "byte list"
  fast_headers :: "(string \<times> string) list"

record 'b fast_net =
  isNil :: "'b \<Rightarrow> bool"
  jsonMarshal :: "'b \<Rightarrow> string + byte list"
  fast_do :: "fast_client \<Rightarrow> duration \<Rightarrow> fast_request \<Rightarrow> string + fast_response"

definition fast_getReqBodyReader :: "'b fast_net \<Rightarrow> 'b RequestDTS \<Rightarrow> string + byte list" where
  "fast_getReqBodyReader n r =
     (case Body r of
        BodyString s \<Rightarrow> Inr (bytes_of s)
      | BodyValue v \<Rightarrow> if isNil n v then Inr [] else jsonMarshal n v)"

text \<open>\<^verbatim>\<open>VisitAll\<close> visits the header lines in order; each value is appended under its name.\<close>

fun visit_headers :: "(string \<times> string) list \<Rightarrow> (string, string list) gomap \<Rightarrow> (string, string list) gomap" where
  "visit_headers [] m = m"
| "visit_headers ((k, v) # hs) m =
     visit_headers hs (fmupd k ((case fmlookup m k of None \<Rightarrow> [] | Some vs \<Rightarrow> vs) @ [v]) m)"

definition fast_copyResponseHeaders :: "(string \<times> string) list \<Rightarrow> (string, string list) gomap option" where
  "fast_copyResponseHeaders hs = (if hs = [] then None else Some (visit_headers hs fmempty))"

record ResponseDTS =
  dts_StatusCode :: int
  dts_Status :: string
  dts_text :: string
  dts_Header :: "(string, string list) gomap option"

definition empty_dts :: ResponseDTS where
  "empty_dts = \<lparr>dts_StatusCode = 0, dts_Status = [], dts_text = [], dts_Header = None\<rparr>"

definition dts_String :: "(ResponseDTS \<Rightarrow> string + string) \<Rightarrow> ResponseDTS \<Rightarrow> string" where
  "dts_String marshal resp = (case marshal resp of Inr b \<Rightarrow> b | Inl err \<Rightarrow> [])"

definition fast_request_of :: "'b RequestDTS \<Rightarrow> byte list \<Rightarrow> fast_request" where
  "fast_request_of r body =
     \<lparr>fast_uri = RequestUrl r, fast_method = (if RequestType r = [] then ''GET'' else RequestType r),
      fast_contentType = (if length body > 0 then Some ''application/json'' else None), fast_body = body\<rparr>"

definition fast_DORequest :: "'b fast_net \<Rightarrow> FastHttpClient \<Rightarrow> 'b RequestDTS \<Rightarrow> ResponseDTS \<times> string option" where
  "fast_DORequest n fh r =
     (case fast_getReqBodyReader n r of
        Inl e \<Rightarrow> (empty_dts, Some e)
      | Inr body \<Rightarrow>
          (case fast_do n (client fh) (RequestTimeout (fast_config fh)) (fast_request_of r body) of
             Inl e \<Rightarrow> (empty_dts, Some e)
           | Inr resp \<Rightarrow>
               (\<lparr>dts_StatusCode = fast_StatusCode resp,
                 dts_Status = Itoa (fast_StatusCode resp) @ '' '' @ fast_StatusMessage resp,
                 dts_text = string_of (fast_respBody resp),
                 dts_Header = fast_copyResponseHeaders (fast_headers resp)\<rparr>, None)))"

subsection \<open>Response headers\<close>

definition values_of :: "string \<Rightarrow> (string \<times> string) list \<Rightarrow> string list" where
  "values_of k hs = map snd (filter (\<lambda>h. fst h = k) hs)"

lemma visit_headers_spec:
  "fmlookup (visit_headers hs m) k =
     (if values_of k hs = [] then fmlookup m k
      else Some ((case fmlookup m k of None \<Rightarrow> [] | Some ws \<Rightarrow> ws) @ values_of k hs))"
  by (induction hs m rule: visit_headers.induct) (auto simp: values_of_def split: option.splits)

text \<open>
  A response is handed over whole: every header name has the list of its values in the order the lines came, a name that did not come
  has none, and the status line is put together from code and message.
\<close>
theorem fast_response_copied:
  assumes "fast_getReqBodyReader n r = Inr body"
    and "fast_do n (client fh) (RequestTimeout (fast_config fh)) (fast_request_of r body) = Inr resp" and "fast_headers resp \<noteq> []"
  shows "\<exists>hm. fast_DORequest n fh r =
      (\<lparr>dts_StatusCode = fast_StatusCode resp, dts_Status = Itoa (fast_StatusCode resp) @ '' '' @ fast_StatusMessage resp,
        dts_text = string_of (fast_respBody resp), dts_Header = Some hm\<rparr>, None) \<and>
    (\<forall>k. fmlookup hm k = (if values_of k (fast_headers resp) = [] then None else Some (values_of k (fast_headers resp))))"
proof (intro exI conjI allI)
  show "fast_DORequest n fh r =
      (\<lparr>dts_StatusCode = fast_StatusCode resp, dts_Status = Itoa (fast_StatusCode resp) @ '' '' @ fast_StatusMessage resp,
        dts_text = string_of (fast_respBody resp), dts_Header = Some (visit_headers (fast_headers resp) fmempty)\<rparr>, None)"
    using assms by (simp add: fast_DORequest_def fast_copyResponseHeaders_def)
  show "fmlookup (visit_headers (fast_headers resp) fmempty) k =
      (if values_of k (fast_headers resp) = [] then None else Some (values_of k (fast_headers resp)))" for k
    by (simp add: visit_headers_spec)
qed

text \<open>
  The client never looks at the headers and the credentials of a request: two requests that differ only there are sent alike.
\<close>
theorem fast_ignores_headers_and_auth:
  "fast_DORequest n fh (r\<lparr>Headers := hs, Auth := a\<rparr>) = fast_DORequest n fh r"
proof -
  have sent: "fast_request_of (r\<lparr>Headers := hs, Auth := a\<rparr>) = fast_request_of r" by (intro ext) (simp add: fast_request_of_def)
  have body: "fast_getReqBodyReader n (r\<lparr>Headers := hs, Auth := a\<rparr>) = fast_getReqBodyReader n r" by (simp add: fast_getReqBodyReader_def)
  show ?thesis unfolding fast_DORequest_def sent body ..
qed

subsection \<open>The logging transport\<close>

text \<open>
  \<^verbatim>\<open>strings.EqualFold\<close> with an ASCII text: besides the case of the ASCII letters it identifies the Kelvin sign with k and the long s
  with s, the two other characters that fold into ASCII.
\<close>

fun fold_text :: "string \<Rightarrow> string" where
  "fold_text (a # b # c # s) =
     (if [byte_of a, byte_of b, byte_of c] = [0xE2, 0x84, 0xAA] then CHR ''k'' # fold_text s
      else if [byte_of a, byte_of b] = [0xC5, 0xBF] then CHR ''s'' # fold_text (c # s)
      else lower_char a # fold_text (b # c # s))"
| "fold_text [a, b] = (if [byte_of a, byte_of b] = [0xC5, 0xBF] then ''s'' else lower_char a # fold_text [b])"
| "fold_text [a] = [lower_char a]"
| "fold_text [] = []"

definition EqualFold :: "string \<Rightarrow> string \<Rightarrow> bool" where
  "EqualFold s t \<longleftrightarrow> fold_text s = fold_text t"

definition sensitive :: "string \<Rightarrow> bool" where
  "sensitive k \<longleftrightarrow> EqualFold k ''Authorization'' \<or> EqualFold k ''Proxy-Authorization'' \<or> EqualFold k ''Set-Cookie''"

definition maskSensitiveHeaders :: "(string, string list) gomap \<Rightarrow> (string, string list) gomap" where
  "maskSensitiveHeaders h = fmmap_keys (\<lambda>k v. if sensitive k then [''***''] else v) h"

record log_req =
  lr_method :: string
  lr_url :: string
  lr_header :: "(string, string list) gomap"
  lr_length :: "int option"

record log_resp =
  lp_code :: int
  lp_status :: string
  lp_header :: "(string, string list) gomap"

datatype log_line =
    LogRequest string string
  | LogHeader "(string, string list) gomap"
  | LogBody int
  | LogError string
  | LogResponse int string
  | LogHeaders "(string, string list) gomap"

text \<open>\<open>rt\<close> is the wrapped round tripper, acting on a world \<open>'w\<close>; the lines logged are returned beside its answer.\<close>

definition RoundTrip ::
    "bool \<Rightarrow> (log_req \<Rightarrow> 'w \<Rightarrow> (string + log_resp) \<times> 'w) \<Rightarrow> log_req \<Rightarrow> 'w \<Rightarrow> log_line list \<times> (string + log_resp) \<times> 'w" where
  "RoundTrip debug rt req w =
     (if \<not> debug then ([], rt req w)
      else let l1 = [LogRequest (lr_method req) (lr_url req), LogHeader (maskSensitiveHeaders (lr_header req))] @
                      (case lr_length req of None \<Rightarrow> [] | Some n \<Rightarrow> [LogBody n]);
               (r, w') = rt req w
           in (l1 @ (case r of
                 Inl e \<Rightarrow> [LogError e]
               | Inr resp \<Rightarrow> [LogResponse (lp_code resp) (lp_status resp), LogHeaders (maskSensitiveHeaders (lp_header resp))]),
               r, w'))"

fun line_headers :: "log_line \<Rightarrow> (string, string list) gomap" where
  "line_headers (LogHeader h) = h"
| "line_headers (LogHeaders h) = h"
| "line_headers _ = fmempty"

lemma fmlookup_mask: "fmlookup (maskSensitiveHeaders h) k = map_option (\<lambda>v. if sensitive k then [''***''] else v) (fmlookup h k)"
  by (simp add: maskSensitiveHeaders_def)

text \<open>
  The logging transport changes nothing and tells no secret: it returns what the wrapped transport returns on the same request, after
  exactly one call of it, and in no line it logs does a header that spells Authorization, Proxy-Authorization or Set-Cookie in any
  case carry anything but asterisks.
\<close>
theorem logging_transparent_and_masked:
  "snd (RoundTrip debug rt req w) = rt req w \<and>
   (\<forall>l \<in> set (fst (RoundTrip debug rt req w)). \<forall>k v. sensitive k \<and> fmlookup (line_headers l) k = Some v \<longrightarrow> v = [''***''])"
  by (auto simp: RoundTrip_def fmlookup_mask Let_def split: prod.splits sum.splits option.splits)

definition demo_log_req :: log_req where
  "demo_log_req = \<lparr>lr_method = ''GET'', lr_url = ''/'', lr_header = fmupd ''AUTHORIZATION'' [''Basic dTpw''] fmempty, lr_length = None\<rparr>"

theorem logging_transparent_and_masked_witness:
  "\<exists>l \<in> set (fst (RoundTrip True (\<lambda>_ w. (Inl ''refused'', w)) demo_log_req ())). fmlookup (line_headers l) ''AUTHORIZATION'' = Some [''***'']"
proof -
  let ?l = "LogHeader (maskSensitiveHeaders (lr_header demo_log_req))" and ?rt = "\<lambda>_ w. (Inl ''refused'', w)"
  have l: "?l \<in> set (fst (RoundTrip True ?rt demo_log_req ()))" by (simp add: RoundTrip_def Let_def)
  have k: "sensitive ''AUTHORIZATION''" by code_simp
  obtain v where v: "fmlookup (line_headers ?l) ''AUTHORIZATION'' = Some v" by (simp add: fmlookup_mask demo_log_req_def)
  have "v = [''***'']" using logging_transparent_and_masked [of True ?rt demo_log_req "()"] l k v by blast
  then show ?thesis using l v by blast
qed

text \<open>The cookies of a request are logged as they are.\<close>

lemma request_cookie_logged: "\<not> sensitive ''Cookie''"
  by code_simp

end
