(* ===== verification/RowData.thy ===== *)
theory RowData
  imports Prelude
begin

section \<open>Rows to objects\<close>

text \<open>
  The three converters of query results, \<^verbatim>\<open>utils/db/sql\<close>, \<^verbatim>\<open>utils/db/pgx\<close> and \<^verbatim>\<open>utils/db/ora\<close>: the same loop over three cursors.  A cursor is the names
  of its columns, what \<^verbatim>\<open>Scan\<close> does on each row that \<^verbatim>\<open>Next\<close> delivers, and the error found at the end.  \<^verbatim>\<open>Scan\<close> writes through pointers into
  the row buffer that the loop reuses: for a column it may or may not replace the value it finds there.
\<close>

record 'v scan_result =
  scan_err :: "string option"
  scan_col :: "nat \<Rightarrow> 'v option \<Rightarrow> 'v option"

record 'v cursor =
  col_names :: "string + string list"
  deliveries :: "'v scan_result list"
  cursor_err :: "string option"

type_synonym 'v entry = "(string, 'v option) gomap"

text \<open>\<^verbatim>\<open>row[i] = nil\<close> for every column, the scan, and \<^verbatim>\<open>entry[columns[i]] = row[i]\<close> for every column.\<close>

definition clear_row :: "'v option list \<Rightarrow> 'v option list" where
  "clear_row row = map (\<lambda>_. None) row"

definition scan_into :: "'v scan_result \<Rightarrow> 'v option list \<Rightarrow> 'v option list" where
  "scan_into s row = map (\<lambda>i. scan_col s i (row ! i)) [0..<length row]"

fun fill_entry :: "string list \<Rightarrow> 'v option list \<Rightarrow> 'v entry \<Rightarrow> 'v entry" where
  "fill_entry (c # cs) (v # vs) m = fill_entry cs vs (fmupd c v m)"
| "fill_entry _ _ m = m"

fun rows_loop :: "string list \<Rightarrow> 'v scan_result list \<Rightarrow> 'v option list \<Rightarrow> 'v entry list \<Rightarrow> string + 'v entry list" where
  "rows_loop cols [] row tableData = Inr tableData"
| "rows_loop cols (s # ss) row tableData =
     (let row1 = scan_into s (clear_row row) in
      case scan_err s of
        Some e \<Rightarrow> Inl e
      | None \<Rightarrow> rows_loop cols ss row1 (tableData @ [fill_entry cols row1 fmempty]))"

definition convert_rows :: "string list \<Rightarrow> 'v cursor \<Rightarrow> string + 'v entry list" where
  "convert_rows cols c =
     (case rows_loop cols (deliveries c) (replicate (length cols) None) [] of
        Inl e \<Rightarrow> Inl e
      | Inr tableData \<Rightarrow> (case cursor_err c of Some e \<Rightarrow> Inl e | None \<Rightarrow> Inr tableData))"

definition sql_RowsToObj :: "'v cursor \<Rightarrow> string + 'v entry list" where
  "sql_RowsToObj c = (case col_names c of Inl e \<Rightarrow> Inl e | Inr columns \<Rightarrow> convert_rows columns c)"

text \<open>The other two drivers give the names without an error.\<close>

definition PGRowsToObj :: "string list \<Rightarrow> 'v cursor \<Rightarrow> string + 'v entry list" where
  "PGRowsToObj fieldNames c = convert_rows fieldNames c"

definition ora_RowsToObj :: "string list \<Rightarrow> 'v cursor \<Rightarrow> string + 'v entry list" where
  "ora_RowsToObj columns c = convert_rows columns c"

text \<open>\<^verbatim>\<open>marshal\<close> is \<^verbatim>\<open>json.Marshal\<close>: the bytes, empty on an error, and the error.\<close>

definition json_of :: "('v entry list \<Rightarrow> string \<times> string option) \<Rightarrow> string + 'v entry list \<Rightarrow> string \<times> string option" where
  "json_of marshal r = (case r of Inr obj \<Rightarrow> marshal obj | Inl e \<Rightarrow> ([], Some e))"

definition sql_RowsToJson :: "('v entry list \<Rightarrow> string \<times> string option) \<Rightarrow> 'v cursor \<Rightarrow> string \<times> string option" where
  "sql_RowsToJson marshal c = json_of marshal (sql_RowsToObj c)"

definition pgx_RowsToJson :: "('v entry list \<Rightarrow> string \<times> string option) \<Rightarrow> string list \<Rightarrow> 'v cursor \<Rightarrow> string \<times> string option" where
  "pgx_RowsToJson marshal fieldNames c = json_of marshal (PGRowsToObj fieldNames c)"

definition ora_RowsToJson :: "('v entry list \<Rightarrow> string \<times> string option) \<Rightarrow> string list \<Rightarrow> 'v cursor \<Rightarrow> string \<times> string option" where
  "ora_RowsToJson marshal columns c = json_of marshal (ora_RowsToObj columns c)"

subsection \<open>One object per row\<close>

text \<open>The object of one row by itself: each name has the value of its last column, scanned into an empty place.\<close>

definition row_object :: "string list \<Rightarrow> 'v scan_result \<Rightarrow> 'v entry" where
  "row_object cols s = fmap_of_list (rev (zip cols (map (\<lambda>i. scan_col s i None) [0..<length cols])))"

fun first_error :: "'v scan_result list \<Rightarrow> string option" where
  "first_error [] = None"
| "first_error (s # ss) = (case scan_err s of Some e \<Rightarrow> Some e | None \<Rightarrow> first_error ss)"

definition rows_spec :: "string list \<Rightarrow> 'v cursor \<Rightarrow> string + 'v entry list" where
  "rows_spec cols c =
     (case first_error (deliveries c) of
        Some e \<Rightarrow> Inl e
      | None \<Rightarrow> (case cursor_err c of Some e \<Rightarrow> Inl e | None \<Rightarrow> Inr (map (row_object cols) (deliveries c))))"

lemma fill_entry_lookup:
  "fmlookup (fill_entry cs vs m) k =
     (case map_of (rev (zip cs vs)) k of Some v \<Rightarrow> Some v | None \<Rightarrow> fmlookup m k)"
  by (induction cs vs m rule: fill_entry.induct) (auto simp: map_add_def split: option.splits)

lemma length_scan_into [simp]: "length (scan_into s row) = length row"
  by (simp add: scan_into_def)

lemma fill_entry_object: "fill_entry cols (scan_into s (replicate (length cols) None)) fmempty = row_object cols s"
proof -
  have "scan_into s (replicate (length cols) None) = map (\<lambda>i. scan_col s i None) [0..<length cols]" by (simp add: scan_into_def)
  then show ?thesis by (intro fmap_ext) (simp add: row_object_def fill_entry_lookup fmlookup_of_list split: option.split)
qed

lemma rows_loop_spec:
  "length row = length cols \<Longrightarrow>
   rows_loop cols ss row acc = (case first_error ss of Some e \<Rightarrow> Inl e | None \<Rightarrow> Inr (acc @ map (row_object cols) ss))"
proof (induction ss arbitrary: row acc)
  case (Cons s ss)
  have "clear_row row = replicate (length cols) None" using Cons.prems by (simp add: clear_row_def map_replicate_const)
  then show ?case using Cons.IH [of "scan_into s (replicate (length cols) None)"]
    by (simp add: fill_entry_object Let_def split: option.split)
qed simp

lemma convert_rows_spec: "convert_rows cols c = rows_spec cols c"
  by (simp add: convert_rows_def rows_spec_def rows_loop_spec split: option.split)

text \<open>
  C32: A query result becomes one object per row, in order, or an error: each object is what the row alone gives, nothing of an earlier row
  shows through the reused buffer although a scan may leave columns untouched, the first failing scan ends the conversion with its error
  and no partial table, and an error at the end of the rows is not lost.  The three converters agree.
\<close>
theorem rows_converted:
  "sql_RowsToObj c = (case col_names c of Inl e \<Rightarrow> Inl e | Inr cols \<Rightarrow> rows_spec cols c) \<and>
   PGRowsToObj cols c = rows_spec cols c \<and> ora_RowsToObj cols c = rows_spec cols c"
  by (simp add: sql_RowsToObj_def PGRowsToObj_def ora_RowsToObj_def convert_rows_spec split: sum.split)

text \<open>Two columns of one name leave one value, the last.\<close>

lemma duplicate_column_lost: "row_object [''id'', ''id''] s = fmupd ''id'' (scan_col s 1 None) fmempty"
  by (intro fmap_ext) (simp add: row_object_def fmlookup_of_list upt_rec)

end
