(* ===== verification/MemCache.thy ===== *)
theory MemCache
  imports Prelude
begin

section \<open>The cache without expiry\<close>

text \<open>
  \<^verbatim>\<open>cache/memcache/memCache.go\<close>.  The map holds pointers: \<^verbatim>\<open>Set\<close> stores the address of its own copy of the value and \<^verbatim>\<open>Get\<close> hands the
  address out.  Addresses are numbers, the memory a finite map; \<open>put_at\<close> is what a holder of a pointer may do with it.
\<close>

record ('k, 'v) Cache =
  items :: "('k, nat) gomap"
  memory :: "(nat, 'v) gomap"
  next_addr :: nat

definition NewCache :: "('k, 'v) Cache" where
  "NewCache = \<lparr>items = fmempty, memory = fmempty, next_addr = 0\<rparr>"

definition Get :: "'k \<Rightarrow> ('k, 'v) Cache \<Rightarrow> nat option \<times> bool" where
  "Get key c = (case fmlookup (items c) key of None \<Rightarrow> (None, False) | Some p \<Rightarrow> (Some p, True))"

definition Set :: "'k \<Rightarrow> 'v \<Rightarrow> ('k, 'v) Cache \<Rightarrow> ('k, 'v) Cache" where
  "Set key v c =
     c\<lparr>items := fmupd key (next_addr c) (items c), memory := fmupd (next_addr c) v (memory c), next_addr := Suc (next_addr c)\<rparr>"

definition Del :: "'k \<Rightarrow> ('k, 'v) Cache \<Rightarrow> ('k, 'v) Cache" where
  "Del key c = c\<lparr>items := fmdrop key (items c)\<rparr>"

definition put_at :: "nat \<Rightarrow> 'v \<Rightarrow> ('k, 'v) Cache \<Rightarrow> ('k, 'v) Cache" where
  "put_at p v c = (case fmlookup (memory c) p of None \<Rightarrow> c | Some _ \<Rightarrow> c\<lparr>memory := fmupd p v (memory c)\<rparr>)"

datatype ('k, 'v) cache_op = OpSet 'k 'v | OpDel 'k | OpPut nat 'v

fun run_op :: "('k, 'v) cache_op \<Rightarrow> ('k, 'v) Cache \<Rightarrow> ('k, 'v) Cache" where
  "run_op (OpSet k v) c = Set k v c"
| "run_op (OpDel k) c = Del k c"
| "run_op (OpPut p v) c = put_at p v c"

text \<open>Every address handed out is in use and below the next one, and no two keys share one.\<close>

definition cache_ok :: "('k, 'v) Cache \<Rightarrow> bool" where
  "cache_ok c \<longleftrightarrow>
     (\<forall>p. fmlookup (memory c) p \<noteq> None \<longrightarrow> p < next_addr c) \<and> (\<forall>k p. fmlookup (items c) k = Some p \<longrightarrow> fmlookup (memory c) p \<noteq> None) \<and>
     (\<forall>k k' p. fmlookup (items c) k = Some p \<longrightarrow> fmlookup (items c) k' = Some p \<longrightarrow> k = k')"

lemma cache_ok_new: "cache_ok NewCache"
  by (simp add: cache_ok_def NewCache_def)

lemma cache_ok_Set: "cache_ok c \<Longrightarrow> cache_ok (Set k v c)"
  unfolding cache_ok_def Set_def by (auto simp: less_Suc_eq) (metis less_irrefl option.distinct(1))+

lemma cache_ok_run_op [inv_intros]: "cache_ok c \<Longrightarrow> cache_ok (run_op a c)"
proof (cases a)
  case (OpSet k v)
  then show "cache_ok c \<Longrightarrow> ?thesis" by (simp add: cache_ok_Set)
next
  case (OpDel k)
  then show "cache_ok c \<Longrightarrow> ?thesis" by (auto simp: cache_ok_def Del_def)
next
  case (OpPut p v)
  then show "cache_ok c \<Longrightarrow> ?thesis" by (auto simp: cache_ok_def put_at_def split: option.split)
qed

lemma addr_used: "cache_ok c \<Longrightarrow> fmlookup (items c) k = Some p \<Longrightarrow> p < next_addr c"
  unfolding cache_ok_def by blast

lemma cache_ok_run: "cache_ok c \<Longrightarrow> cache_ok (fold run_op ops c)"
  by (induction ops arbitrary: c) (auto intro: cache_ok_run_op)

definition content :: "'k \<Rightarrow> ('k, 'v) Cache \<Rightarrow> 'v option" where
  "content k c = (case Get k c of (Some p, _) \<Rightarrow> fmlookup (memory c) p | (None, _) \<Rightarrow> None)"

text \<open>
  After any use of the cache, and of the pointers it handed out, a stored value is found under its key and under no other, deletion
  removes exactly its key, a pointer obtained before keeps its value when the key is stored anew or deleted, and a write through the
  pointer of one key is seen under this key only.
\<close>
theorem cache_pointers:
  assumes "c = fold run_op ops NewCache" and "Get k c = (Some p, True)"
  shows "content k' (Set k v c) = (if k' = k then Some v else content k' c)"
    and "content k' (Del k c) = (if k' = k then None else content k' c)"
    and "fmlookup (memory (Set k v c)) p = fmlookup (memory c) p \<and> fmlookup (memory (Del k c)) p = fmlookup (memory c) p"
    and "content k' (put_at p v c) = (if k' = k then Some v else content k' c)"
proof -
  have ok: "cache_ok c" using cache_ok_run [OF cache_ok_new] assms(1) by blast
  have p: "fmlookup (items c) k = Some p" using assms(2) by (auto simp: Get_def split: option.splits)
  then have "fmlookup (memory c) p \<noteq> None" using ok unfolding cache_ok_def by blast
  then obtain w where w: "fmlookup (memory c) p = Some w" "p < next_addr c" using ok unfolding cache_ok_def by blast
  have own: "fmlookup (items c) k' = Some p \<Longrightarrow> k' = k" using ok p unfolding cache_ok_def by blast
  show "content k' (Set k v c) = (if k' = k then Some v else content k' c)"
    using addr_used [OF ok, of k'] by (auto simp: content_def Get_def Set_def split: option.split)
  show "content k' (Del k c) = (if k' = k then None else content k' c)" by (simp add: content_def Get_def Del_def split: option.split)
  show "fmlookup (memory (Set k v c)) p = fmlookup (memory c) p \<and> fmlookup (memory (Del k c)) p = fmlookup (memory c) p"
    using w(2) by (simp add: Set_def Del_def)
  show "content k' (put_at p v c) = (if k' = k then Some v else content k' c)"
  proof (cases "k' = k")
    case False
    then have "fmlookup (items c) k' \<noteq> Some p" using own by blast
    then show ?thesis using w(1) False by (cases "fmlookup (items c) k'") (auto simp: content_def Get_def put_at_def)
  qed (use p w(1) in \<open>simp add: content_def Get_def put_at_def\<close>)
qed

end
