(* ===== verification/Keepass.thy ===== *)
theory Keepass
  imports Prelude
begin

section \<open>Reading a KeePass file\<close>

text \<open>
  \<^verbatim>\<open>crypt/keepass/keepass.go\<close>: the walk over the tree of groups and the cache of decoded files, keyed by file name and password.  The
  KeePass library is an argument (decoding a file with a password, unlocking, the fields of an entry), and so is the file system as one
  call of \<^verbatim>\<open>Load\<close> finds it.
\<close>

record NPItem =
  Name :: string
  Pass :: string
  Notes :: string

datatype 'e group = Group "'e group list" "'e list"

subsection \<open>The walk over the groups\<close>

text \<open>\<^verbatim>\<open>strings.Contains\<close>.\<close>

fun contains :: "string \<Rightarrow> string \<Rightarrow> bool" where
  "contains s sub = (take (length sub) s = sub \<or> (case s of [] \<Rightarrow> False | _ # s' \<Rightarrow> contains s' sub))"

declare contains.simps [simp del]

fun add_entries :: "('e \<Rightarrow> string \<Rightarrow> string) \<Rightarrow> 'e list \<Rightarrow> string \<Rightarrow> NPItem list \<Rightarrow> NPItem list" where
  "add_entries getContent [] note acc = acc"
| "add_entries getContent (e # es) note acc =
     (let notes = getContent e ''Notes'' in
      add_entries getContent es note
        (if contains notes note
         then acc @ [\<lparr>Name = getContent e ''UserName'', Pass = getContent e ''Password'', Notes = notes\<rparr>] else acc))"

text \<open>The groups inside a group come before its own entries.\<close>

fun getGroups :: "('e \<Rightarrow> string \<Rightarrow> string) \<Rightarrow> 'e group list \<Rightarrow> string \<Rightarrow> NPItem list \<Rightarrow> NPItem list" where
  "getGroups getContent [] note acc = acc"
| "getGroups getContent (Group gs es # rest) note acc =
     getGroups getContent rest note (add_entries getContent es note (getGroups getContent gs note acc))"

fun all_entries :: "'e group list \<Rightarrow> 'e list" where
  "all_entries [] = []"
| "all_entries (Group gs es # rest) = all_entries gs @ es @ all_entries rest"

definition found_items :: "('e \<Rightarrow> string \<Rightarrow> string) \<Rightarrow> string \<Rightarrow> 'e list \<Rightarrow> NPItem list" where
  "found_items getContent note es =
     map (\<lambda>e. \<lparr>Name = getContent e ''UserName'', Pass = getContent e ''Password'', Notes = getContent e ''Notes''\<rparr>)
       (filter (\<lambda>e. contains (getContent e ''Notes'') note) es)"

lemma add_entries_found: "add_entries gc es note acc = acc @ found_items gc note es"
  by (induction gc es "note" acc rule: add_entries.induct) (simp_all add: found_items_def Let_def)

lemma getGroups_found: "getGroups gc gs note acc = acc @ found_items gc note (all_entries gs)"
  by (induction gc gs "note" acc rule: getGroups.induct) (simp_all add: add_entries_found found_items_def)

subsection \<open>Loading with a cache\<close>

record 'e keepassCacheEntry =
  modTime :: time
  size :: int
  db :: "'e group list"

type_synonym 'e kp_cache = "(string \<times> string, 'e keepassCacheEntry) gomap"

text \<open>
  \<^verbatim>\<open>os.Stat\<close> before, \<^verbatim>\<open>os.Open\<close> with the bytes it gives to read, \<^verbatim>\<open>file.Stat\<close> on the open file after decoding, and \<^verbatim>\<open>file.Close\<close>.
\<close>

record files =
  os_stat :: "string \<Rightarrow> (time \<times> int) option"
  os_open :: "string \<Rightarrow> string + byte list"
  file_stat :: "string \<Rightarrow> (time \<times> int) option"
  file_close :: "string \<Rightarrow> string option"

record 'e kp_lib =
  decode :: "string \<Rightarrow> byte list \<Rightarrow> string + 'e group list"
  unlock :: "'e group list \<Rightarrow> string + 'e group list"
  getContent :: "'e \<Rightarrow> string \<Rightarrow> string"

definition cache_hit :: "files \<Rightarrow> string \<Rightarrow> string \<Rightarrow> 'e kp_cache \<Rightarrow> 'e group list option" where
  "cache_hit f fileName pass cache =
     (case fmlookup cache (fileName, pass) of
        None \<Rightarrow> None
      | Some en \<Rightarrow> (case os_stat f fileName of
          None \<Rightarrow> None
        | Some (mt, sz) \<Rightarrow> if mt = modTime en \<and> sz = size en then Some (db en) else None))"

definition read_db :: "'e kp_lib \<Rightarrow> string \<Rightarrow> byte list \<Rightarrow> string + 'e group list" where
  "read_db L pass bs = (case decode L pass bs of Inl e \<Rightarrow> Inl e | Inr d \<Rightarrow> unlock L d)"

text \<open>The result is the joined errors, the accumulator and the cache.\<close>

definition Load ::
    "'e kp_lib \<Rightarrow> files \<Rightarrow> string \<Rightarrow> string \<Rightarrow> string \<Rightarrow> NPItem list \<Rightarrow> 'e kp_cache \<Rightarrow> string list \<times> NPItem list \<times> 'e kp_cache" where
  "Load L f fileName pass note acc cache =
     (case cache_hit f fileName pass cache of
        Some gs \<Rightarrow> ([], getGroups (getContent L) gs note acc, cache)
      | None \<Rightarrow>
          (case os_open f fileName of
             Inl e \<Rightarrow> ([e], acc, cache)
           | Inr bs \<Rightarrow>
               let closing = (case file_close f fileName of None \<Rightarrow> [] | Some e \<Rightarrow> [e]) in
               (case read_db L pass bs of
                  Inl e \<Rightarrow> (e # closing, acc, cache)
                | Inr d \<Rightarrow>
                    (closing, getGroups (getContent L) d note acc,
                     case file_stat f fileName of
                       None \<Rightarrow> cache
                     | Some (mt, sz) \<Rightarrow> fmupd (fileName, pass) \<lparr>modTime = mt, size = sz, db = d\<rparr> cache))))"

subsection \<open>The cache is transparent\<close>

record load_call =
  lc_files :: files
  lc_file :: string
  lc_pass :: string
  lc_note :: string

fun load_all :: "'e kp_lib \<Rightarrow> load_call list \<Rightarrow> 'e kp_cache \<Rightarrow> 'e kp_cache" where
  "load_all L [] cache = cache"
| "load_all L (c # cs) cache = load_all L cs (snd (snd (Load L (lc_files c) (lc_file c) (lc_pass c) (lc_note c) [] cache)))"

text \<open>
  What the cache relies on: nobody changes a file during a call, and a file whose time and size are those seen before has the content
  seen before.
\<close>

definition honest_files :: "files set \<Rightarrow> bool" where
  "honest_files F \<longleftrightarrow>
     (\<forall>f \<in> F. \<forall>n. file_stat f n = os_stat f n) \<and>
     (\<forall>f \<in> F. \<forall>g \<in> F. \<forall>n b c. os_stat f n \<noteq> None \<longrightarrow> os_stat f n = os_stat g n \<longrightarrow> os_open f n = Inr b \<longrightarrow> os_open g n = Inr c \<longrightarrow> b = c)"

definition cached_right :: "'e kp_lib \<Rightarrow> files set \<Rightarrow> 'e kp_cache \<Rightarrow> bool" where
  "cached_right L F cache \<longleftrightarrow>
     (\<forall>n p en. fmlookup cache (n, p) = Some en \<longrightarrow>
        (\<exists>f \<in> F. \<exists>bs. os_stat f n = Some (modTime en, size en) \<and> os_open f n = Inr bs \<and> read_db L p bs = Inr (db en)))"

lemma Load_cached_right:
  assumes "honest_files F" and "f \<in> F" and "cached_right L F cache"
  shows "cached_right L F (snd (snd (Load L f n p note acc cache)))"
proof (cases "snd (snd (Load L f n p note acc cache)) = cache")
  case False
  then obtain bs d mt sz where "os_open f n = Inr bs" "read_db L p bs = Inr d" "file_stat f n = Some (mt, sz)"
      "snd (snd (Load L f n p note acc cache)) = fmupd (n, p) \<lparr>modTime = mt, size = sz, db = d\<rparr> cache"
    by (auto simp: Load_def Let_def split: option.splits sum.splits prod.splits)
  then show ?thesis using assms by (auto simp: cached_right_def honest_files_def)
qed (use assms in simp)

lemma load_all_cached_right:
  "honest_files F \<Longrightarrow> \<forall>c \<in> set cs. lc_files c \<in> F \<Longrightarrow> cached_right L F cache \<Longrightarrow> cached_right L F (load_all L cs cache)"
  by (induction L cs cache rule: load_all.induct) (auto intro: Load_cached_right)

lemma hit_right:
  assumes "cached_right L F cache" and "f \<in> F" and "honest_files F" and "os_open f n = Inr bs" and "cache_hit f n p cache = Some gs"
  shows "read_db L p bs = Inr gs"
proof -
  obtain en where en: "fmlookup cache (n, p) = Some en" "os_stat f n = Some (modTime en, size en)" "gs = db en"
    using assms(5) by (auto simp: cache_hit_def split: option.splits if_splits)
  then obtain g bs' where g: "g \<in> F" "os_stat g n = Some (modTime en, size en)" "os_open g n = Inr bs'" "read_db L p bs' = Inr gs"
    using assms(1) unfolding cached_right_def by blast
  then have "bs' = bs" using assms(2-4) en(2) unfolding honest_files_def by (metis option.distinct(1))
  then show ?thesis using g(4) by simp
qed

text \<open>
  C21: The cache is transparent.  After any sequence of loads of any files with any passwords, a load that would succeed without the cache
  gives the same items with it, in the order of the groups, and no error, provided that no file changes during a call and that unchanged
  time and size mean unchanged content.  A wrong password is not answered from what the right one left in the cache.
\<close>
theorem cached_load_fresh:
  assumes "honest_files (insert f (lc_files ` set cs))"
    and "Load L f n p note acc fmempty = ([], items, cache')"
  shows "(\<exists>cache''. Load L f n p note acc (load_all L cs fmempty) = ([], items, cache'')) \<and>
    (\<exists>bs d. os_open f n = Inr bs \<and> read_db L p bs = Inr d \<and> items = acc @ found_items (getContent L) note (all_entries d))"
proof -
  let ?F = "insert f (lc_files ` set cs)" and ?c = "load_all L cs fmempty"
  obtain bs d where o: "os_open f n = Inr bs" "read_db L p bs = Inr d" "file_close f n = None"
      "items = getGroups (getContent L) d note acc"
    using assms(2) by (auto simp: Load_def cache_hit_def Let_def split: option.splits sum.splits prod.splits)
  have right: "cached_right L ?F ?c" by (rule load_all_cached_right [OF assms(1)]) (auto simp: cached_right_def)
  have "\<exists>cache''. Load L f n p note acc ?c = ([], items, cache'')"
  proof (cases "cache_hit f n p ?c")
    case None
    then show ?thesis using o by (auto simp: Load_def Let_def)
  next
    case (Some gs)
    then have "read_db L p bs = Inr gs" using hit_right [OF right _ assms(1) o(1)] by blast
    then show ?thesis using Some o by (simp add: Load_def)
  qed
  then show ?thesis using o by (auto simp: getGroups_found)
qed

definition demo_kp_lib :: "string kp_lib" where
  "demo_kp_lib = \<lparr>decode = (\<lambda>p bs. if p = ''pw'' then Inr [Group [Group [] [string_of bs]] [''b'']] else Inl ''wrong key''),
     unlock = Inr, getContent = (\<lambda>e k. if k = ''Notes'' then ''prod'' else e)\<rparr>"

definition demo_files :: files where
  "demo_files = \<lparr>os_stat = (\<lambda>_. Some (5, 1)), os_open = (\<lambda>_. Inr [97]), file_stat = (\<lambda>_. Some (5, 1)), file_close = (\<lambda>_. None)\<rparr>"

theorem cached_load_fresh_witness:
  "\<exists>cache. Load demo_kp_lib demo_files ''f'' ''pw'' ''ro'' [] (load_all demo_kp_lib [\<lparr>lc_files = demo_files, lc_file = ''f'', lc_pass = ''pw'', lc_note = []\<rparr>] fmempty) =
     ([], [\<lparr>Name = ''a'', Pass = ''a'', Notes = ''prod''\<rparr>, \<lparr>Name = ''b'', Pass = ''b'', Notes = ''prod''\<rparr>], cache)"
proof -
  have h: "honest_files (insert demo_files (lc_files ` set [\<lparr>lc_files = demo_files, lc_file = ''f'', lc_pass = ''pw'', lc_note = []\<rparr>]))"
    by (simp add: honest_files_def demo_files_def)
  have "contains ''prod'' ''ro''" by (simp add: contains.simps)
  moreover have "string_of [97 :: byte] = ''a''" by code_simp
  ultimately have l: "Load demo_kp_lib demo_files ''f'' ''pw'' ''ro'' [] fmempty =
      ([], [\<lparr>Name = ''a'', Pass = ''a'', Notes = ''prod''\<rparr>, \<lparr>Name = ''b'', Pass = ''b'', Notes = ''prod''\<rparr>],
       fmupd (''f'', ''pw'') \<lparr>modTime = 5, size = 1, db = [Group [Group [] [''a'']] [''b'']]\<rparr> fmempty)"
    by (simp add: Load_def cache_hit_def demo_files_def demo_kp_lib_def read_db_def Let_def)
  show ?thesis using cached_load_fresh [OF h l] by blast
qed

text \<open>
  The time is read after the file was decoded: when the file is replaced in between, the old content is kept under the new time, and
  every later load gives it.
\<close>

lemma replaced_while_decoding_stays:
  assumes "os_open f n = Inr bs" and "read_db L p bs = Inr d" and "file_close f n = None" and "file_stat f n = Some st"
    and "cache_hit f n p cache = None" and "os_stat g n = Some st"
  shows "fst (snd (Load L g n p note [] (snd (snd (Load L f n p note [] cache))))) = getGroups (getContent L) d note []"
  using assms by (cases st) (simp add: Load_def cache_hit_def [of g])

end
