(* ===== verification/Files.thy ===== *)
theory Files
  imports Prelude
begin

section \<open>Copying a file\<close>

text \<open>
  \<^verbatim>\<open>utils/utilsFile.go\<close>.  The file system maps a path to a file (its bytes and permissions); every call of \<^verbatim>\<open>os\<close> may fail, which is an
  argument.  An open file follows its path's file: when \<^verbatim>\<open>os.Create\<close> truncates the very file that is being read, nothing is left to read.
  Two paths never name one file (no links).
\<close>

record disk_file =
  bytes :: "byte list"
  perm :: nat

type_synonym file_system = "(string, disk_file) gomap"

record faults =
  openErr :: "string option"
  statErr :: "string option"
  createErr :: "string option"
  ioErr :: "(nat \<times> string) option"
  closeErr :: "string option"
  chmodErr :: "string option"
  renameErr :: "string option"
  removeErr :: "string option"

text \<open>\<^verbatim>\<open>os.Open\<close> of a path without a file fails in any case.\<close>

definition no_such_file :: string where
  "no_such_file = ''no such file or directory''"

text \<open>\<^verbatim>\<open>os.Create\<close>: an existing file keeps its permissions and loses its bytes; a new one has those left by the mask.\<close>

definition os_Create :: "nat \<Rightarrow> string \<Rightarrow> file_system \<Rightarrow> file_system" where
  "os_Create umask p fs =
     fmupd p (case fmlookup fs p of None \<Rightarrow> \<lparr>bytes = [], perm = umask\<rparr> | Some f \<Rightarrow> f\<lparr>bytes := []\<rparr>) fs"

definition set_file :: "string \<Rightarrow> (disk_file \<Rightarrow> disk_file) \<Rightarrow> file_system \<Rightarrow> file_system" where
  "set_file p g fs = (case fmlookup fs p of None \<Rightarrow> fs | Some f \<Rightarrow> fmupd p (g f) fs)"

definition os_Rename :: "string \<Rightarrow> string \<Rightarrow> file_system \<Rightarrow> file_system" where
  "os_Rename p q fs = (case fmlookup fs p of None \<Rightarrow> fs | Some f \<Rightarrow> if p = q then fs else fmdrop p (fmupd q f fs))"

text \<open>\<^verbatim>\<open>io.Copy\<close>, cut short by an error after some bytes, and \<^verbatim>\<open>w.Close\<close>: the first error of the two.\<close>

definition copy_bytes :: "faults \<Rightarrow> string \<Rightarrow> string \<Rightarrow> file_system \<Rightarrow> string option \<times> file_system" where
  "copy_bytes x from tmp fs =
     (let data = (case fmlookup fs from of None \<Rightarrow> [] | Some f \<Rightarrow> bytes f) in
      case ioErr x of
        Some (n, e) \<Rightarrow> (Some e, set_file tmp (\<lambda>f. f\<lparr>bytes := take n data\<rparr>) fs)
      | None \<Rightarrow> (closeErr x, set_file tmp (\<lambda>f. f\<lparr>bytes := data\<rparr>) fs))"

definition finish_copy :: "faults \<Rightarrow> nat \<Rightarrow> string \<Rightarrow> string \<Rightarrow> string option \<times> file_system \<Rightarrow> string option \<times> file_system" where
  "finish_copy x mode tmp to r =
     (let (e1, fs1) = r;
          (e2, fs2) = (case e1 of
             Some e \<Rightarrow> (Some e, fs1)
           | None \<Rightarrow> (case chmodErr x of Some e \<Rightarrow> (Some e, fs1) | None \<Rightarrow> (None, set_file tmp (\<lambda>f. f\<lparr>perm := mode\<rparr>) fs1)))
      in case e2 of
           None \<Rightarrow> (case renameErr x of Some e \<Rightarrow> (Some e, fs2) | None \<Rightarrow> (None, os_Rename tmp to fs2))
         | Some e \<Rightarrow> (Some e, case removeErr x of Some _ \<Rightarrow> fs2 | None \<Rightarrow> fmdrop tmp fs2))"

definition CopyFile :: "faults \<Rightarrow> nat \<Rightarrow> string \<Rightarrow> string \<Rightarrow> file_system \<Rightarrow> string option \<times> file_system" where
  "CopyFile x umask from to fs =
     (case (openErr x, fmlookup fs from) of
        (Some e, _) \<Rightarrow> (Some e, fs)
      | (None, None) \<Rightarrow> (Some no_such_file, fs)
      | (None, Some fi) \<Rightarrow>
          (case statErr x of
             Some e \<Rightarrow> (Some e, fs)
           | None \<Rightarrow>
               let tmp = to @ ''.tmp'' in
               (case createErr x of
                  Some e \<Rightarrow> (Some e, fs)
                | None \<Rightarrow> finish_copy x (perm fi) tmp to (copy_bytes x from tmp (os_Create umask tmp fs)))))"

definition FileExists :: "string \<Rightarrow> file_system \<Rightarrow> bool" where
  "FileExists p fs \<longleftrightarrow> fmlookup fs p \<noteq> None"

lemmas copy_defs = CopyFile_def finish_copy_def copy_bytes_def os_Create_def os_Rename_def set_file_def Let_def

lemma tmp_not_target [simp]: "to @ ''.tmp'' \<noteq> to" "to \<noteq> to @ ''.tmp''"
  by simp_all

text \<open>
  C31: A copy is all or nothing.  Whichever of the calls fails, and however many bytes were written before, a copy that reports an error
  leaves every file but the temporary one as it was, the target included; one that reports success has made the target a file with the
  bytes and the permissions of the source, left no temporary file and changed nothing else.  The temporary name must not be that of the source.
\<close>
theorem copy_all_or_nothing:
  assumes "from \<noteq> to @ ''.tmp''" and "CopyFile x umask from to fs = (r, fs')"
  shows "case r of
      Some e \<Rightarrow> (\<forall>p. p \<noteq> to @ ''.tmp'' \<longrightarrow> fmlookup fs' p = fmlookup fs p)
    | None \<Rightarrow> fmlookup fs from \<noteq> None \<and> fmlookup fs' to = fmlookup fs from \<and> fmlookup fs' (to @ ''.tmp'') = None \<and>
        (\<forall>p. p \<noteq> to \<longrightarrow> p \<noteq> to @ ''.tmp'' \<longrightarrow> fmlookup fs' p = fmlookup fs p)"
  using assms by (auto simp: copy_defs split: option.splits prod.splits if_splits)

definition no_faults :: faults where
  "no_faults = \<lparr>openErr = None, statErr = None, createErr = None, ioErr = None, closeErr = None, chmodErr = None, renameErr = None, removeErr = None\<rparr>"

theorem copy_all_or_nothing_witness:
  "\<exists>fs'. CopyFile (no_faults\<lparr>ioErr := Some (1, ''disk full'')\<rparr>) 420 ''a'' ''b'' (fmupd ''b'' \<lparr>bytes = [9], perm = 384\<rparr> (fmupd ''a'' \<lparr>bytes = [1, 2], perm = 420\<rparr> fmempty)) =
       (Some ''disk full'', fs') \<and> fmlookup fs' ''b'' = Some \<lparr>bytes = [9], perm = 384\<rparr>"
proof -
  let ?fs = "fmupd ''b'' \<lparr>bytes = [9], perm = 384\<rparr> (fmupd ''a'' \<lparr>bytes = [1, 2], perm = 420\<rparr> fmempty) :: file_system"
  let ?x = "no_faults\<lparr>ioErr := Some (1, ''disk full'')\<rparr>"
  obtain fs' where c: "CopyFile ?x 420 ''a'' ''b'' ?fs = (Some ''disk full'', fs')" by (simp add: copy_defs no_faults_def)
  then show ?thesis using copy_all_or_nothing [OF _ c] by simp
qed

text \<open>When only the last step, the renaming, fails, the temporary file stays.\<close>

lemma failed_rename_leaves_temporary:
  assumes "fmlookup fs from = Some f" and "from \<noteq> to @ ''.tmp''" and "x = no_faults\<lparr>renameErr := Some e\<rparr>"
  shows "fst (CopyFile x umask from to fs) = Some e \<and> fmlookup (snd (CopyFile x umask from to fs)) (to @ ''.tmp'') = Some f"
  using assms by (simp add: copy_defs no_faults_def split: option.split)

text \<open>Copying \<^verbatim>\<open>b.tmp\<close> to \<^verbatim>\<open>b\<close> reports success, and the content is gone.\<close>

lemma copy_of_own_temporary:
  assumes "fmlookup fs (to @ ''.tmp'') = Some f"
  shows "fst (CopyFile no_faults umask (to @ ''.tmp'') to fs) = None \<and>
    fmlookup (snd (CopyFile no_faults umask (to @ ''.tmp'') to fs)) to = Some (f\<lparr>bytes := []\<rparr>) \<and>
    fmlookup (snd (CopyFile no_faults umask (to @ ''.tmp'') to fs)) (to @ ''.tmp'') = None"
  using assms by (simp add: copy_defs no_faults_def)

end
