(* ===== verification/Processes.thy ===== *)
theory Processes
  imports Prelude "HOL-Library.Word"
begin

section \<open>Lists of processes\<close>

text \<open>
  \<^verbatim>\<open>utils/env/os/envDarwin.go\<close>, which reads the process table of macOS from the bytes the kernel returns, \<^verbatim>\<open>utils/os/win/process.go\<close> and
  \<^verbatim>\<open>utils/env/os/envWindows.go\<close>, which walk a snapshot of the Windows one, and \<^verbatim>\<open>utils/env/checkEnv.go\<close>.  The system calls are arguments.  A
  panic is \<^const>\<open>None\<close>, an error \<^const>\<open>Inl\<close>.
\<close>

subsection \<open>macOS\<close>

definition KINFO_STRUCT_SIZE :: nat where
  "KINFO_STRUCT_SIZE = 648"

record kinfoProc =
  Pid :: int
  Comm :: "byte list"
  PPid :: int

record DarwinProcess =
  pid :: int
  ppid :: int
  binary :: string

definition le_int32 :: "byte list \<Rightarrow> int" where
  "le_int32 bs = sint (word_of_nat (foldr (\<lambda>b n. unat b + 256 * n) bs 0) :: 32 word)"

text \<open>\<^verbatim>\<open>binary.Read\<close> of one record, little endian: 40 bytes, the identifier, 199 bytes, the name, 301 bytes, the parent, 84 bytes.\<close>

definition read_kinfo :: "byte list \<Rightarrow> kinfoProc" where
  "read_kinfo b =
     \<lparr>Pid = le_int32 (take 4 (drop 40 b)), Comm = take 16 (drop 243 b), PPid = le_int32 (take 4 (drop 560 b))\<rparr>"

definition darwinCstring :: "byte list \<Rightarrow> string" where
  "darwinCstring s = string_of (takeWhile (\<lambda>b. b \<noteq> 0) s)"

definition darwin_process :: "kinfoProc \<Rightarrow> DarwinProcess" where
  "darwin_process p = \<lparr>pid = Pid p, ppid = PPid p, binary = darwinCstring (Comm p)\<rparr>"

text \<open>The first call asks for the size, the second for the bytes; taking the address of an empty buffer panics.\<close>

definition darwinSyscall :: "string + nat \<Rightarrow> (nat \<Rightarrow> string + byte list) \<Rightarrow> (string + byte list) option" where
  "darwinSyscall ask fetch =
     (case ask of
        Inl e \<Rightarrow> Some (Inl e)
      | Inr n \<Rightarrow> if n = 0 then None else (case fetch n of Inl e \<Rightarrow> Some (Inl e) | Inr bs \<Rightarrow> Some (Inr bs)))"

text \<open>The loop over the buffer, from offset \<open>k\<close> with the end \<open>i\<close> of the next record.\<close>

function proc_loop :: "byte list \<Rightarrow> nat \<Rightarrow> nat \<Rightarrow> kinfoProc list" where
  "proc_loop buf k i =
     (if i < length buf then read_kinfo (take (i - k) (drop k buf)) # proc_loop buf i (i + KINFO_STRUCT_SIZE) else [])"
  by pat_completeness auto

termination by (relation "measure (\<lambda>(buf, _, i). length buf - i)") (auto simp: KINFO_STRUCT_SIZE_def)

declare proc_loop.simps [simp del]

definition getProcesses :: "string + nat \<Rightarrow> (nat \<Rightarrow> string + byte list) \<Rightarrow> (string + DarwinProcess list) option" where
  "getProcesses ask fetch =
     (case darwinSyscall ask fetch of
        None \<Rightarrow> None
      | Some (Inl e) \<Rightarrow> Some (Inl e)
      | Some (Inr buf) \<Rightarrow> Some (Inr (map darwin_process (proc_loop buf 0 KINFO_STRUCT_SIZE))))"

definition has_suffix :: "string \<Rightarrow> string \<Rightarrow> bool" where
  "has_suffix s suf \<longleftrightarrow> length suf \<le> length s \<and> drop (length s - length suf) s = suf"

fun any_goland :: "DarwinProcess list \<Rightarrow> bool" where
  "any_goland [] = False"
| "any_goland (p # ps) = (if has_suffix (binary p) ''goland'' then True else any_goland ps)"

definition darwin_IsInIDE :: "string + nat \<Rightarrow> (nat \<Rightarrow> string + byte list) \<Rightarrow> bool option" where
  "darwin_IsInIDE ask fetch =
     (case getProcesses ask fetch of None \<Rightarrow> None | Some (Inl _) \<Rightarrow> Some False | Some (Inr ps) \<Rightarrow> Some (any_goland ps))"

definition linux_IsInIDE :: bool where
  "linux_IsInIDE = False"

lemma length_concat_records: "\<forall>r \<in> set rs. length r = n \<Longrightarrow> length (concat rs) = n * length rs"
  by (induction rs) simp_all

lemma proc_loop_records:
  assumes "\<forall>r \<in> set rs. length r = KINFO_STRUCT_SIZE" and "rs \<noteq> []"
  shows "proc_loop (pre @ concat rs) (length pre) (length pre + KINFO_STRUCT_SIZE) = map read_kinfo (butlast rs)"
  using assms
proof (induction rs arbitrary: pre)
  case (Cons r rs)
  have len: "length r = KINFO_STRUCT_SIZE" "length (concat rs) = KINFO_STRUCT_SIZE * length rs" "0 < KINFO_STRUCT_SIZE"
    using Cons.prems(1) by (simp_all add: length_concat_records KINFO_STRUCT_SIZE_def)
  show ?case
  proof (cases "rs = []")
    case True
    then show ?thesis using len by (simp add: proc_loop.simps)
  next
    case False
    have "proc_loop ((pre @ r) @ concat rs) (length (pre @ r)) (length (pre @ r) + KINFO_STRUCT_SIZE) = map read_kinfo (butlast rs)"
      using Cons.prems False by (intro Cons.IH) auto
    then show ?thesis using False len by (subst proc_loop.simps) (simp add: add.assoc)
  qed
qed simp

text \<open>
  What the table of processes is read as: of the records the kernel delivered, every one is decoded, in order, at its own place, except the
  last, which the loop never reaches.
\<close>
theorem getProcesses_all_but_last:
  assumes "\<forall>r \<in> set rs. length r = KINFO_STRUCT_SIZE" and "rs \<noteq> []" and "n > 0" and "fetch n = Inr (concat rs)"
  shows "getProcesses (Inr n) fetch = Some (Inr (map (darwin_process \<circ> read_kinfo) (butlast rs)))"
  using proc_loop_records [OF assms(1,2), of "[]"] assms(3,4) by (simp add: getProcesses_def darwinSyscall_def)

definition demo_kinfo :: "byte \<Rightarrow> byte list" where
  "demo_kinfo n = replicate 40 0 @ [n, 0, 0, 0] @ replicate 199 0 @ bytes_of ''goland'' @ replicate 399 0"

theorem getProcesses_all_but_last_witness:
  "getProcesses (Inr 1296) (\<lambda>_. Inr (demo_kinfo 7 @ demo_kinfo 8)) = Some (Inr [darwin_process (read_kinfo (demo_kinfo 7))])"
  using getProcesses_all_but_last [of "[demo_kinfo 7, demo_kinfo 8]" 1296 "\<lambda>_. Inr (demo_kinfo 7 @ demo_kinfo 8)"]
  by (simp add: demo_kinfo_def KINFO_STRUCT_SIZE_def)

text \<open>So a development environment that is the last process of the table is not seen.\<close>

lemma last_process_unseen: "length r = KINFO_STRUCT_SIZE \<Longrightarrow> darwin_IsInIDE (Inr 648) (\<lambda>_. Inr r) = Some False"
  using proc_loop_records [of "[r]" "[]"] by (simp add: darwin_IsInIDE_def getProcesses_def darwinSyscall_def)

subsection \<open>Windows\<close>

record WinProc =
  ProcessID :: int
  ParentProcessID :: int
  Exe :: string

record win_entry =
  entry_pid :: int
  entry_ppid :: int
  ExeFile :: "16 word list"

text \<open>
  A snapshot: the error of taking it, or what the walk gives, the entries and the error that ends it (\<^const>\<open>None\<close> stands for
  \<^verbatim>\<open>ERROR_NO_MORE_FILES\<close>).  A walk without entries is a failure of \<^verbatim>\<open>Process32First\<close>.
\<close>

type_synonym snapshot = "string + win_entry list \<times> string option"

text \<open>The search for the end of the name; past the end of the array the index panics.\<close>

fun find_end :: "16 word list \<Rightarrow> nat option" where
  "find_end [] = None"
| "find_end (w # ws) = (if w = 0 then Some 0 else map_option Suc (find_end ws))"

definition newWindowsProcess :: "(16 word list \<Rightarrow> string) \<Rightarrow> win_entry \<Rightarrow> WinProc option" where
  "newWindowsProcess utf16 e =
     (case find_end (ExeFile e) of
        None \<Rightarrow> None
      | Some end' \<Rightarrow> Some \<lparr>ProcessID = entry_pid e, ParentProcessID = entry_ppid e, Exe = utf16 (take end' (ExeFile e))\<rparr>)"

fun walk :: "(16 word list \<Rightarrow> string) \<Rightarrow> win_entry list \<Rightarrow> WinProc list \<Rightarrow> WinProc list option" where
  "walk utf16 [] acc = Some acc"
| "walk utf16 (e # es) acc =
     (case newWindowsProcess utf16 e of None \<Rightarrow> None | Some p \<Rightarrow> walk utf16 es (acc @ [p]))"

text \<open>The error, and the stored list, which only a complete walk replaces.\<close>

definition getProcessesList :: "(16 word list \<Rightarrow> string) \<Rightarrow> snapshot \<Rightarrow> WinProc list \<Rightarrow> (string option \<times> WinProc list) option" where
  "getProcessesList utf16 s processList =
     (case s of
        Inl e \<Rightarrow> Some (Some e, processList)
      | Inr ([], err) \<Rightarrow> Some (Some (case err of None \<Rightarrow> ''no more files'' | Some e \<Rightarrow> e), processList)
      | Inr (e # es, err) \<Rightarrow>
          (case walk utf16 (e # es) [] of
             None \<Rightarrow> None
           | Some ps \<Rightarrow> Some (case err of None \<Rightarrow> (None, ps) | Some x \<Rightarrow> (Some x, processList))))"

fun find_pid :: "int \<Rightarrow> WinProc list \<Rightarrow> WinProc option" where
  "find_pid i [] = None"
| "find_pid i (p # ps) = (if ProcessID p = i then Some p else find_pid i ps)"

definition GetProcessByID :: "(16 word list \<Rightarrow> string) \<Rightarrow> snapshot \<Rightarrow> int \<Rightarrow> WinProc list \<Rightarrow> (WinProc option \<times> WinProc list) option" where
  "GetProcessByID utf16 s i processList =
     (case getProcessesList utf16 s processList of
        None \<Rightarrow> None
      | Some (Some _, l) \<Rightarrow> Some (None, l)
      | Some (None, l) \<Rightarrow> Some (find_pid i l, l))"

fun is_part :: "string \<Rightarrow> string \<Rightarrow> bool" where
  "is_part sub [] = (sub = [])"
| "is_part sub (c # s) = (take (length sub) (c # s) = sub \<or> is_part sub s)"

fun win_IsInIDE_walk :: "(16 word list \<Rightarrow> string) \<Rightarrow> win_entry list \<Rightarrow> bool" where
  "win_IsInIDE_walk utf16 [] = False"
| "win_IsInIDE_walk utf16 (e # es) = (if is_part ''goland'' (utf16 (ExeFile e)) then True else win_IsInIDE_walk utf16 es)"

definition win_IsInIDE :: "(16 word list \<Rightarrow> string) \<Rightarrow> snapshot \<Rightarrow> bool" where
  "win_IsInIDE utf16 s = (case s of Inl _ \<Rightarrow> False | Inr (es, _) \<Rightarrow> win_IsInIDE_walk utf16 es)"

lemma find_end_Some: "0 \<in> set ws \<Longrightarrow> find_end ws = Some (length (takeWhile (\<lambda>w. w \<noteq> 0) ws))"
  by (induction ws) auto

lemma find_pid_find: "find_pid i ps = List.find (\<lambda>p. ProcessID p = i) ps"
  by (induction ps) auto

definition win_process :: "(16 word list \<Rightarrow> string) \<Rightarrow> win_entry \<Rightarrow> WinProc" where
  "win_process utf16 e =
     \<lparr>ProcessID = entry_pid e, ParentProcessID = entry_ppid e, Exe = utf16 (takeWhile (\<lambda>w. w \<noteq> 0) (ExeFile e))\<rparr>"

lemma walk_all:
  "\<forall>e \<in> set es. 0 \<in> set (ExeFile e) \<Longrightarrow> walk utf16 es acc = Some (acc @ map (win_process utf16) es)"
  by (induction es arbitrary: acc)
     (auto simp: newWindowsProcess_def find_end_Some win_process_def takeWhile_eq_take [symmetric])

text \<open>
  When every name in a complete snapshot is terminated, the lookup returns the first process with the identifier, its name up to the
  terminator, and stores the whole list; an incomplete walk finds nothing and keeps the old list.
\<close>
theorem GetProcessByID_spec:
  assumes "es \<noteq> []" and "\<forall>e \<in> set es. 0 \<in> set (ExeFile e)"
  shows "GetProcessByID utf16 (Inr (es, None)) i l =
      Some (List.find (\<lambda>p. ProcessID p = i) (map (win_process utf16) es), map (win_process utf16) es)"
    and "GetProcessByID utf16 (Inr (es, Some x)) i l = Some (None, l)"
  using walk_all [OF assms(2), of utf16 "[]"] assms(1)
  by (auto simp: GetProcessByID_def getProcessesList_def find_pid_find neq_Nil_conv)

end
