(* ===== verification/TextUtils.thy ===== *)
theory TextUtils
  imports Utils
begin

section \<open>Text and waiting helpers\<close>

text \<open>
  The rest of \<^verbatim>\<open>utils/utilsString.go\<close> and \<^verbatim>\<open>utils/utilsNumbers.go\<close>, and \<^verbatim>\<open>utils/utilsTime.go\<close>.  A Go \<^verbatim>\<open>[]rune\<close> is the list of the encodings of its
  runes; converting a string turns a byte that belongs to no rune into the replacement character.  The table of graphic characters
  and the random source are arguments.
\<close>

subsection \<open>Reverse\<close>

definition RuneError :: "byte list" where
  "RuneError = [0xEF, 0xBF, 0xBD]"

definition to_runes :: "byte list \<Rightarrow> byte list list" where
  "to_runes s = map (\<lambda>r. if whole_rune r then r else RuneError) (runes s)"

text \<open>The loop that swaps from both ends.\<close>

function swap_loop :: "nat \<Rightarrow> nat \<Rightarrow> 'a list \<Rightarrow> 'a list" where
  "swap_loop i j rs = (if i < j then swap_loop (i + 1) (j - 1) (rs[i := rs ! j, j := rs ! i]) else rs)"
  by pat_completeness auto

termination by (relation "measure (\<lambda>(i, j, _). j - i)") auto

declare swap_loop.simps [simp del]

definition Reverse :: "byte list \<Rightarrow> byte list" where
  "Reverse s = (let rs = to_runes s in concat (swap_loop 0 (length rs - 1) rs))"

lemma swap_loop_nth:
  assumes "i + j = length rs - 1" and "rs \<noteq> []"
  shows "length (swap_loop i j rs) = length rs \<and>
    (\<forall>k<length rs. swap_loop i j rs ! k = (if i \<le> k \<and> k \<le> j then rs ! (i + j - k) else rs ! k))"
  using assms
proof (induction i j rs rule: swap_loop.induct)
  case (1 i j rs)
  show ?case
  proof (cases "i < j")
    case True
    let ?rs = "rs[i := rs ! j, j := rs ! i]"
    have l: "i < length rs" "j < length rs" using 1(2,3) True by auto
    have ih: "length (swap_loop (i + 1) (j - 1) ?rs) = length rs"
      "\<And>k. k < length rs \<Longrightarrow> swap_loop (i + 1) (j - 1) ?rs ! k = (if i + 1 \<le> k \<and> k \<le> j - 1 then ?rs ! (i + j - k) else ?rs ! k)"
      using 1(1) [OF True] 1(2,3) True by auto
    have "swap_loop (i + 1) (j - 1) ?rs ! k = (if i \<le> k \<and> k \<le> j then rs ! (i + j - k) else rs ! k)" if "k < length rs" for k
      using ih(2) [OF that] l True that by (auto simp: nth_list_update)
    then show ?thesis using ih(1) True by (subst (1 2) swap_loop.simps) simp
  next
    case False
    then have "i + j - k = k" if "i \<le> k" "k \<le> j" for k using that by simp
    then show ?thesis using False by (auto simp: swap_loop.simps [of i j rs])
  qed
qed

lemma swap_loop_rev: "swap_loop 0 (length rs - 1) rs = rev rs"
proof (cases "rs = []")
  case False
  then show ?thesis using swap_loop_nth [of 0 "length rs - 1" rs]
    by (intro nth_equalityI) (auto simp: rev_nth)
qed (simp add: swap_loop.simps)

text \<open>An encoded rune is recognised whatever follows it.\<close>

definition encoded :: "byte list \<Rightarrow> bool" where
  "encoded r \<longleftrightarrow> r \<noteq> [] \<and> rune_size r = length r \<and> whole_rune r"

lemma ascii_rng: "unat a < 0x80 \<Longrightarrow> 0x80 \<le> lo \<Longrightarrow> \<not> in_rng lo hi a"
  by (simp add: in_rng_def)

lemma rune_size_le_4: "rune_size bs \<le> 4"
  by (cases bs) (auto split: list.split)

lemma encoded_prefix:
  assumes "encoded r"
  shows "rune_size (r @ rest) = length r"
proof -
  have r: "r \<noteq> []" "rune_size r = length r" "length r = 1 \<Longrightarrow> unat (hd r) < 0x80" "length r \<le> 4"
    using assms rune_size_le_4 [of r] by (auto simp: encoded_def whole_rune_def)
  then consider a where "r = [a]" | a b where "r = [a, b]" | a b c where "r = [a, b, c]" | a b c d where "r = [a, b, c, d]"
    by (auto simp: neq_Nil_conv le_Suc_eq numeral_eq_Suc length_Suc_conv)
  then show ?thesis using r by cases (auto simp: ascii_rng split: if_splits list.split)
qed

lemma rune_encoded:
  assumes "bs \<noteq> []" and "whole_rune (take (rune_size bs) bs)"
  shows "encoded (take (rune_size bs) bs)"
proof -
  obtain a rest where bs: "bs = a # rest" using assms(1) by (cases bs) auto
  consider "rest = []" | b where "rest = [b]" | b c where "rest = [b, c]" | b c d t where "rest = b # c # d # t"
    by (cases rest rule: remdups_adj.cases) (auto, metis neq_Nil_conv)
  then have "rune_size (take (rune_size bs) bs) = rune_size bs"
    unfolding bs by cases simp_all
  then show ?thesis using assms rune_size_pos [OF assms(1)] rune_size_le [of bs] by (auto simp: encoded_def)
qed

lemma runes_concat: "list_all encoded rs \<Longrightarrow> runes (concat rs) = rs"
proof (induction rs)
  case (Cons r rs)
  then have "rune_size (r @ concat rs) = length r" "r \<noteq> []" by (simp_all add: encoded_prefix encoded_def)
  then show ?case using Cons by (subst runes.simps) simp
qed (simp add: runes.simps)

lemma valid_encoded: "valid_utf8 bs \<Longrightarrow> list_all encoded (runes bs)"
proof (induction bs rule: runes.induct)
  case (1 bs)
  show ?case
  proof (cases "bs = []")
    case False
    then have r: "runes bs = take (rune_size bs) bs # runes (drop (rune_size bs) bs)" by (subst runes.simps) simp
    then show ?thesis using 1 False rune_encoded [OF False] by (simp add: valid_utf8_def)
  qed (simp add: runes.simps)
qed

lemma to_runes_valid: "valid_utf8 bs \<Longrightarrow> to_runes bs = runes bs"
  by (simp add: to_runes_def valid_utf8_def list_all_iff map_idI)

lemma Reverse_rev: "valid_utf8 s \<Longrightarrow> Reverse s = concat (rev (runes s))"
  using swap_loop_rev [of "runes s"] by (simp add: Reverse_def to_runes_valid Let_def)

text \<open>
  Reversing works on characters, not bytes: the characters of the reversed text are those of the text in the opposite order, the result
  is valid UTF-8 again, and reversing twice gives the text back, for every valid text.
\<close>
theorem Reverse_involution:
  assumes "valid_utf8 s"
  shows "runes (Reverse s) = rev (runes s) \<and> valid_utf8 (Reverse s) \<and> Reverse (Reverse s) = s"
proof -
  have enc: "list_all encoded (rev (runes s))" using valid_encoded [OF assms] by (simp add: list_all_iff)
  have r: "runes (Reverse s) = rev (runes s)" using runes_concat [OF enc] by (simp add: Reverse_rev [OF assms])
  have v: "valid_utf8 (Reverse s)" using assms by (simp add: valid_utf8_def r list_all_iff)
  show ?thesis using r v by (simp add: Reverse_rev [OF v] concat_runes)
qed

theorem Reverse_involution_witness:
  "Reverse (Reverse (bytes_of ''a'' @ [0xC3, 0xA9, 0xE2, 0x82, 0xAC])) = bytes_of ''a'' @ [0xC3, 0xA9, 0xE2, 0x82, 0xAC]"
proof -
  have "valid_utf8 (bytes_of ''a'' @ [0xC3, 0xA9, 0xE2, 0x82, 0xAC])" by code_simp
  from Reverse_involution [OF this] show ?thesis by blast
qed

subsection \<open>Trim\<close>

text \<open>\<^verbatim>\<open>unicode.IsSpace\<close> on an encoded rune.\<close>

definition is_space :: "byte list \<Rightarrow> bool" where
  "is_space r \<longleftrightarrow>
     r \<in> set [[9], [10], [11], [12], [13], [32], [0xC2, 0x85], [0xC2, 0xA0], [0xE1, 0x9A, 0x80], [0xE2, 0x80, 0xA8], [0xE2, 0x80, 0xA9],
       [0xE2, 0x80, 0xAF], [0xE2, 0x81, 0x9F], [0xE3, 0x80, 0x80]] \<or>
     (length r = 3 \<and> take 2 r = [0xE2, 0x80] \<and> in_rng 0x80 0x8A (r ! 2))"

text \<open>\<^verbatim>\<open>strings.Fields\<close>: the runs of characters that are no spaces; \<open>cur\<close> is the run being read.\<close>

fun fields_loop :: "byte list list \<Rightarrow> byte list \<Rightarrow> byte list list" where
  "fields_loop [] cur = (if cur = [] then [] else [cur])"
| "fields_loop (r # rs) cur =
     (if is_space r then (if cur = [] then fields_loop rs [] else cur # fields_loop rs []) else fields_loop rs (cur @ r))"

definition Fields :: "byte list \<Rightarrow> byte list list" where
  "Fields s = fields_loop (runes s) []"

definition Trim :: "byte list \<Rightarrow> byte list" where
  "Trim s = concat (Fields s)"

lemma concat_fields_loop: "concat (fields_loop rs cur) = cur @ concat (filter (\<lambda>r. \<not> is_space r) rs)"
  by (induction rs cur rule: fields_loop.induct) auto

lemma Trim_filter: "Trim s = concat (filter (\<lambda>r. \<not> is_space r) (runes s))"
  by (simp add: Trim_def Fields_def concat_fields_loop)

text \<open>
  \<^verbatim>\<open>Trim\<close> removes every white space character, inside the text too, and nothing else; on valid text the characters left are the others in
  their order, so trimming again changes nothing.
\<close>
theorem Trim_spec:
  assumes "valid_utf8 s"
  shows "runes (Trim s) = filter (\<lambda>r. \<not> is_space r) (runes s) \<and> Trim (Trim s) = Trim s"
proof -
  have "list_all encoded (filter (\<lambda>r. \<not> is_space r) (runes s))" using valid_encoded [OF assms] by (simp add: list_all_iff)
  then have r: "runes (Trim s) = filter (\<lambda>r. \<not> is_space r) (runes s)" by (simp add: Trim_filter runes_concat)
  then show ?thesis using Trim_filter [of "Trim s"] Trim_filter [of s] by simp
qed

subsection \<open>Filters\<close>

definition strip_keeps :: "char \<Rightarrow> bool" where
  "strip_keeps c \<longleftrightarrow> c \<in> set ''abcdefghijklmnopqrstuvwxyzABCDEFGHIJKLMNOPQRSTUVWXYZ0123456789~@#$^*()_+={}|,.?: -'' \<or> c = CHR 0x5C"

definition StripRegex :: "string \<Rightarrow> string" where
  "StripRegex s = filter strip_keeps s"

definition RemoveUnreadable :: "(byte list \<Rightarrow> bool) \<Rightarrow> byte list \<Rightarrow> byte list" where
  "RemoveUnreadable isGraphic s = concat (filter isGraphic (to_runes s))"

subsection \<open>Printing integers\<close>

definition UInt32ToStr :: "32 word \<Rightarrow> string" where
  "UInt32ToStr i = utoa (unat i)"

definition UInt16ToStr :: "16 word \<Rightarrow> string" where
  "UInt16ToStr i = Itoa (uint i)"

definition Int16ToStr :: "16 word \<Rightarrow> string" where
  "Int16ToStr i = Itoa (sint i)"

definition Int32ToStr :: "32 word \<Rightarrow> string" where
  "Int32ToStr i = Itoa (sint i)"

definition IntToStr :: "64 word \<Rightarrow> string" where
  "IntToStr i = Itoa (sint i)"

definition Int8ToStr :: "8 word \<Rightarrow> string" where
  "Int8ToStr i = IntToStr (scast i)"

subsection \<open>Hexadecimal numbers\<close>

definition hex_val :: "char \<Rightarrow> nat option" where
  "hex_val c =
     (let n = of_char c :: nat in
      if 48 \<le> n \<and> n \<le> 57 then Some (n - 48) else if 97 \<le> n \<and> n \<le> 102 then Some (n - 87)
      else if 65 \<le> n \<and> n \<le> 70 then Some (n - 55) else None)"

fun hex_digits :: "string \<Rightarrow> nat \<Rightarrow> nat option" where
  "hex_digits [] acc = Some acc"
| "hex_digits (c # cs) acc = (case hex_val c of None \<Rightarrow> None | Some d \<Rightarrow> hex_digits cs (16 * acc + d))"

text \<open>\<^verbatim>\<open>strconv.ParseInt(s, 16, 64)\<close>: an optional sign, at least one digit, a value within 64 bits.\<close>

definition ParseInt16 :: "string \<Rightarrow> int option" where
  "ParseInt16 s =
     (let (neg, ds) = (case s of c # cs \<Rightarrow> if c = CHR ''-'' then (True, cs) else if c = CHR ''+'' then (False, cs) else (False, s) | [] \<Rightarrow> (False, []))
      in if ds = [] then None
         else case hex_digits ds 0 of
           None \<Rightarrow> None
         | Some n \<Rightarrow> let v = (if neg then - int n else int n) in if int64_ok v then Some v else None)"

definition HexToInt64Default :: "string \<Rightarrow> int \<Rightarrow> int" where
  "HexToInt64Default ident i = (case ParseInt16 ident of None \<Rightarrow> i | Some v \<Rightarrow> v)"

lemma hex_default_in_range: "int64_ok i \<Longrightarrow> int64_ok (HexToInt64Default s i)"
  by (auto simp: HexToInt64Default_def ParseInt16_def Let_def split: option.split prod.split)

subsection \<open>Waiting\<close>

text \<open>
  How long each function sleeps: \<^const>\<open>None\<close> is the panic of \<^verbatim>\<open>rand.Intn\<close> on a bound that is not positive, \<open>Some None\<close> a return without
  sleeping.  \<open>intn\<close> is the random source.
\<close>

definition second :: duration where
  "second = 1000000000"

definition SleepSec :: "int \<Rightarrow> duration" where
  "SleepSec seconds = wrap64 (seconds * second)"

definition SleepRNDMin :: "(int \<Rightarrow> int) \<Rightarrow> int \<Rightarrow> int \<Rightarrow> duration option option" where
  "SleepRNDMin intn minSec limitSec =
     (if limitSec \<le> 0 then Some None
      else let limit = (if limitSec \<le> minSec then wrap64 (minSec + 1) else limitSec);
               n = wrap64 (limit - minSec)
           in if n \<le> 0 then None else Some (Some (wrap64 (wrap64 (minSec + intn n) * second))))"

definition SleepRND :: "(int \<Rightarrow> int) \<Rightarrow> int \<Rightarrow> duration option option" where
  "SleepRND intn limitSec = SleepRNDMin intn 0 limitSec"

definition SleepRNDMilliSec :: "(int \<Rightarrow> int) \<Rightarrow> int \<Rightarrow> int \<Rightarrow> duration option option" where
  "SleepRNDMilliSec intn minMilliSec limitMilliSec =
     (if limitMilliSec \<le> 0 then Some None
      else Some (Some (wrap64 (wrap64 (intn limitMilliSec + minMilliSec) * 1000000))))"

text \<open>
  For bounds whose seconds fit into a duration, \<^verbatim>\<open>SleepRNDMin\<close> never panics and sleeps at least the minimum and less than the limit (one
  second more than the minimum where the limit is not above it); \<^verbatim>\<open>SleepRNDMilliSec\<close> takes its limit as a length and sleeps up to the sum.
\<close>
theorem sleep_bounds:
  assumes "\<And>n. 0 < n \<Longrightarrow> 0 \<le> intn n \<and> intn n < n" and "0 \<le> a" and "a < 9000000000" and "0 < b" and "b \<le> 9000000000"
  shows "\<exists>d. SleepRNDMin intn a b = Some (Some d) \<and> a * second \<le> d \<and> d < max b (a + 1) * second"
    and "\<exists>d. SleepRNDMilliSec intn a b = Some (Some d) \<and> a * 1000000 \<le> d \<and> d < (a + b) * 1000000"
proof -
  have w: "wrap64 x = x" if "0 \<le> x" "x \<le> 9223372036854775807" for x
    using that by (intro wrap64_id) (simp add: int64_ok_def min_int64_def max_int64_def)
  define l where "l = (if b \<le> a then a + 1 else b)"
  have n: "0 < l - a" "l - a \<le> 9000000000" using assms(2-5) by (auto simp: l_def)
  have r: "0 \<le> intn (l - a)" "intn (l - a) < l - a" using assms(1) [OF n(1)] by simp_all
  have s: "0 \<le> a + intn (l - a)" "a + intn (l - a) \<le> 9000000000" using assms(2-5) r by (auto simp: l_def split: if_splits)
  have "(if b \<le> a then wrap64 (a + 1) else b) = l" "wrap64 (l - a) = l - a" "wrap64 (a + intn (l - a)) = a + intn (l - a)"
      "wrap64 ((a + intn (l - a)) * second) = (a + intn (l - a)) * second"
    using n s assms(2-5) by (auto simp: w l_def second_def)
  then have "SleepRNDMin intn a b = Some (Some ((a + intn (l - a)) * second))"
    using n(1) assms(4) by (simp add: SleepRNDMin_def Let_def)
  moreover have "a * second \<le> (a + intn (l - a)) * second" "(a + intn (l - a)) * second < max b (a + 1) * second"
    using r assms(2-5) by (auto simp: second_def l_def split: if_splits)
  ultimately show "\<exists>d. SleepRNDMin intn a b = Some (Some d) \<and> a * second \<le> d \<and> d < max b (a + 1) * second" by blast
  have "0 \<le> intn b" "intn b < b" using assms(1) [OF assms(4)] by simp_all
  then show "\<exists>d. SleepRNDMilliSec intn a b = Some (Some d) \<and> a * 1000000 \<le> d \<and> d < (a + b) * 1000000"
    using assms(2-5) by (simp add: SleepRNDMilliSec_def w)
qed

end
