(* ===== verification/HtmlText.thy ===== *)
theory HtmlText
  imports Prelude
begin

section \<open>Text of an HTML page\<close>

text \<open>
  \<^verbatim>\<open>utils/html/utilsHTML.go\<close>.  The tokenizer is a library: the function is modelled on the tokens it delivers before its error token, which ends the
  loop.  \<open>clean\<close> is \<^verbatim>\<open>strings.TrimSpace(html.UnescapeString(...))\<close> on the text of a token.
\<close>

datatype token = StartTag string | EndTag string | SelfClosing string | Text string | OtherToken

record html_state =
  inTag :: string
  entered :: bool
  out :: string

definition html_start :: html_state where
  "html_start = \<lparr>inTag = [], entered = False, out = []\<rparr>"

fun html_step :: "(string \<Rightarrow> string) \<Rightarrow> token \<Rightarrow> html_state \<Rightarrow> html_state" where
  "html_step clean (StartTag t) s = (if t = ''script'' \<or> t = ''style'' then s\<lparr>inTag := t\<rparr> else s)"
| "html_step clean (EndTag t) s =
     (let s1 = (if t = inTag s then s\<lparr>inTag := []\<rparr> else s) in
      if inTag s1 = [] \<and> \<not> entered s1 then s1\<lparr>out := out s1 @ [CHR 0x0A], entered := True\<rparr> else s1)"
| "html_step clean (Text x) s =
     (if inTag s \<noteq> [] then s
      else let txt = clean x in if length txt > 0 then s\<lparr>out := out s @ txt, entered := False\<rparr> else s)"
| "html_step clean (SelfClosing t) s = s"
| "html_step clean OtherToken s = s"

definition HtmlToText :: "(string \<Rightarrow> string) \<Rightarrow> token list \<Rightarrow> string" where
  "HtmlToText clean toks = out (fold (html_step clean) toks html_start)"

definition hidden_tag :: "string \<Rightarrow> bool" where
  "hidden_tag t \<longleftrightarrow> t = ''script'' \<or> t = ''style''"

fun is_text :: "token \<Rightarrow> bool" where
  "is_text (Text x) = True"
| "is_text _ = False"

lemma hidden_texts: "inTag s \<noteq> [] \<Longrightarrow> list_all is_text xs \<Longrightarrow> fold (html_step clean) xs s = s"
proof (induction xs arbitrary: s)
  case (Cons x xs)
  then show ?case by (cases x) simp_all
qed simp

text \<open>
  No text of a script or a style sheet reaches the output: wherever such an element occurs outside another one, whatever text it holds,
  the page reads as if the element were empty, its end tag still ending the line.
\<close>
theorem scripts_hidden:
  assumes "hidden_tag t" and "list_all is_text xs" and "inTag (fold (html_step clean) pre html_start) = []"
  shows "HtmlToText clean (pre @ StartTag t # xs @ EndTag t # post) = HtmlToText clean (pre @ EndTag t # post)"
proof -
  let ?s = "fold (html_step clean) pre html_start"
  have t: "t \<noteq> []" "html_step clean (StartTag t) ?s = ?s\<lparr>inTag := t\<rparr>" using assms(1) by (auto simp: hidden_tag_def)
  then have "fold (html_step clean) xs (html_step clean (StartTag t) ?s) = ?s\<lparr>inTag := t\<rparr>"
    using hidden_texts [of "?s\<lparr>inTag := t\<rparr>" xs] assms(2) by simp
  moreover have "html_step clean (EndTag t) (?s\<lparr>inTag := t\<rparr>) = html_step clean (EndTag t) ?s"
    using assms(3) t(1) by (cases ?s) (simp add: Let_def)
  ultimately show ?thesis by (simp add: HtmlToText_def)
qed

theorem scripts_hidden_witness:
  "HtmlToText (\<lambda>x. x) [Text ''a'', StartTag ''script'', Text ''var p = 1'', EndTag ''script'', Text ''b''] = ''a'' @ [CHR 0x0A] @ ''b''"
  using scripts_hidden [of "''script''" "[Text ''var p = 1'']" "\<lambda>x. x" "[Text ''a'']" "[Text ''b'']"]
  by (simp add: hidden_tag_def HtmlToText_def html_start_def)

text \<open>The output never has an empty line of its own: an end tag adds a line end only after text.\<close>

lemma one_line_end:
  "entered (fold (html_step clean) toks html_start) \<Longrightarrow> fold (html_step clean) (toks @ [EndTag t]) html_start =
     (let s = fold (html_step clean) toks html_start in if t = inTag s then s\<lparr>inTag := []\<rparr> else s)"
  by (simp add: Let_def)

text \<open>A break joins the words around it.\<close>

lemma break_joins_words: "HtmlToText (\<lambda>x. x) [Text ''a'', StartTag ''br'', Text ''b''] = ''ab''"
  by (simp add: HtmlToText_def html_start_def)

end
