(* ===== verification/GormLog.thy ===== *)
theory GormLog
  imports Prelude
begin

section \<open>The gorm logger\<close>

text \<open>
  \<^verbatim>\<open>db/helpers/gorm/gl.go\<close>: the adapter that gorm hands its messages, queries and errors.  Levels are gorm's: 1 silent, 2 error, 3 warn, 4 info.  The
  state is the level; each method returns the lines it logs.  Query parameters and SQL are arguments of type \<open>'p\<close> and \<^typ>\<open>string\<close>.
\<close>

datatype log_level = LDebug | LInfo | LWarn | LError

datatype line_attr = AttrMessage string | AttrTime duration | AttrRows int | AttrLevel int

type_synonym gorm_line = "log_level \<times> string \<times> line_attr list"

definition gorm_New :: int where
  "gorm_New = 0"

definition LogMode :: "int \<Rightarrow> int \<Rightarrow> gorm_line list \<times> int" where
  "LogMode lvl level = ([(LDebug, '': LogMode'', [AttrLevel lvl])], lvl)"

definition Info :: "string \<Rightarrow> 'p list \<Rightarrow> int \<Rightarrow> gorm_line list" where
  "Info s params level = (if level \<ge> 4 then [(LInfo, '': '' @ s, [])] else [])"

definition Warn :: "string \<Rightarrow> 'p list \<Rightarrow> int \<Rightarrow> gorm_line list" where
  "Warn s params level = (if level \<ge> 3 then [(LWarn, '': '' @ s, [])] else [])"

definition Error :: "string \<Rightarrow> 'p list \<Rightarrow> int \<Rightarrow> gorm_line list" where
  "Error s params level = (if level \<ge> 2 then [(LError, '': '' @ s, [])] else [])"

text \<open>\<open>fc\<close> gives the statement and the number of rows; it is only called when the line is logged.  \<open>elapsed\<close> is \<^verbatim>\<open>time.Since(begin)\<close>.\<close>

definition Trace :: "duration \<Rightarrow> (unit \<Rightarrow> string \<times> int) \<Rightarrow> string option \<Rightarrow> int \<Rightarrow> gorm_line list" where
  "Trace elapsed fc err level =
     (case err of
        Some e \<Rightarrow> if level \<ge> 2 then [(LError, '': Trace'', [AttrMessage e, AttrTime elapsed])] else []
      | None \<Rightarrow> if level < 4 then []
                else let (_, rowsAffected) = fc () in [(LDebug, '': Trace'', [AttrTime elapsed, AttrRows rowsAffected])])"

datatype 'p gorm_call =
    CLogMode int
  | CInfo string "'p list"
  | CWarn string "'p list"
  | CError string "'p list"
  | CTrace duration "string \<times> int" "string option"

fun gorm_log :: "'p gorm_call list \<Rightarrow> int \<Rightarrow> gorm_line list" where
  "gorm_log [] level = []"
| "gorm_log (CLogMode l # cs) level = (let (ls, level') = LogMode l level in ls @ gorm_log cs level')"
| "gorm_log (CInfo s ps # cs) level = Info s ps level @ gorm_log cs level"
| "gorm_log (CWarn s ps # cs) level = Warn s ps level @ gorm_log cs level"
| "gorm_log (CError s ps # cs) level = Error s ps level @ gorm_log cs level"
| "gorm_log (CTrace t q err # cs) level = Trace t (\<lambda>_. q) err level @ gorm_log cs level"

text \<open>Two calls that an observer of the data base could not tell apart without the parameters and the SQL.\<close>

fun same_but_values :: "'p gorm_call \<Rightarrow> 'p gorm_call \<Rightarrow> bool" where
  "same_but_values (CLogMode l) (CLogMode l') = (l = l')"
| "same_but_values (CInfo s _) (CInfo s' _) = (s = s')"
| "same_but_values (CWarn s _) (CWarn s' _) = (s = s')"
| "same_but_values (CError s _) (CError s' _) = (s = s')"
| "same_but_values (CTrace t (_, n) e) (CTrace t' (_, n') e') = (t = t' \<and> n = n' \<and> e = e')"
| "same_but_values _ _ = False"

text \<open>
  No value of a query is logged.  Two sequences of calls that differ only in query parameters and statements, secrets included, leave
  exactly the same lines in the log, at every level and across changes of the level.
\<close>
theorem gorm_log_no_values:
  assumes "list_all2 same_but_values cs ds"
  shows "gorm_log cs level = gorm_log ds level"
  using assms
proof (induction arbitrary: level)
  case (Cons c cs d ds)
  then show ?case
    by (cases c; cases d) (auto simp: LogMode_def Info_def Warn_def Error_def Trace_def split: option.splits)
qed simp

theorem gorm_log_no_values_witness:
  "gorm_log [CLogMode 4, CInfo ''connect %s'' [''password''], CTrace 3 (''SELECT 1'', 1) None] 0 =
   gorm_log [CLogMode 4, CInfo ''connect %s'' [[] :: string], CTrace 3 (''SELECT 2'', 1) None] 0"
  by (rule gorm_log_no_values) simp

text \<open>
  A new logger is below the silent level and logs nothing before \<^verbatim>\<open>LogMode\<close>, which changes the logger it is called on: a session that asks
  for more lines gets them for every other session too.
\<close>

lemma new_logger_silent: "list_all (\<lambda>c. \<not> (\<exists>l. c = CLogMode l)) cs \<Longrightarrow> gorm_log cs gorm_New = []"
proof (induction cs)
  case (Cons c cs)
  then show ?case by (cases c) (auto simp: gorm_New_def Info_def Warn_def Error_def Trace_def split: option.splits)
qed simp

end
