(* ===== verification/BasicConfig.thy ===== *)
theory BasicConfig
  imports GoStrconv
begin

section \<open>The configuration manager\<close>

text \<open>
  \<^verbatim>\<open>app/v3/config/basic/config.go\<close>.  The configuration is a tree of reflected values: \<open>gvalue\<close> has one constructor per
  \<^verbatim>\<open>reflect.Kind\<close> the code distinguishes, with the type information its assignments depend on (the width of an integer,
  whether a string or a boolean has a defined type, whether a field is exported).  An assignment that
  reflection refuses is a panic, \<^const>\<open>None\<close>.  The environment, the file system, \<^verbatim>\<open>time.ParseDuration\<close>, the floating
  point conversions and the decoder of encrypted values are parameters.
\<close>

subsection \<open>Values and tags\<close>

record tag =
  tagDefault :: "string option"
  tagEnv :: "string option"

record field =
  field_name :: string
  field_tag :: tag
  exported :: bool

datatype 'f gvalue =
    VString bool string
  | VInt nat int
  | VUint nat nat
  | VFloat nat 'f
  | VBool bool bool
  | VNil string
  | VPtr "'f gvalue"
  | VSlice "'f gvalue list"
  | VArray "'f gvalue list"
  | VMap "string list" "'f gvalue list"
  | VStruct "field list" "'f gvalue list"
  | VOther string

record 'f world =
  getenv :: "string \<Rightarrow> string"
  parseDuration :: "string \<Rightarrow> duration option"
  parseFloat :: "string \<Rightarrow> 'f option"
  zeroFloat :: "'f \<Rightarrow> bool"
  convFloat :: "nat \<Rightarrow> 'f \<Rightarrow> 'f"
  decode :: "string \<Rightarrow> string + string"

text \<open>\<^verbatim>\<open>Convert\<close> to a signed or unsigned type of \<open>w\<close> bits.\<close>

definition signed_conv :: "nat \<Rightarrow> int \<Rightarrow> int" where
  "signed_conv w x = (x + 2 ^ (w - 1)) mod 2 ^ w - 2 ^ (w - 1)"

definition unsigned_conv :: "nat \<Rightarrow> nat \<Rightarrow> nat" where
  "unsigned_conv w x = x mod 2 ^ w"

definition ParseBool :: "string \<Rightarrow> bool option" where
  "ParseBool s =
     (if s \<in> set [''1'', ''t'', ''T'', ''TRUE'', ''true'', ''True''] then Some True
      else if s \<in> set [''0'', ''f'', ''F'', ''FALSE'', ''false'', ''False''] then Some False
      else None)"

subsection \<open>Leaves\<close>

definition has_prefix :: "string \<Rightarrow> string \<Rightarrow> bool" where
  "has_prefix s p \<longleftrightarrow> take (length p) s = p"

definition has_suffix :: "string \<Rightarrow> string \<Rightarrow> bool" where
  "has_suffix s p \<longleftrightarrow> length p \<le> length s \<and> drop (length s - length p) s = p"

definition is_encoded :: "string \<Rightarrow> bool" where
  "is_encoded v \<longleftrightarrow> has_prefix v ''ENC('' \<and> has_suffix v '')''"

definition env_value :: "'f world \<Rightarrow> tag \<Rightarrow> string" where
  "env_value w t = (case tagEnv t of None \<Rightarrow> [] | Some n \<Rightarrow> getenv w n)"

definition processString :: "'f world \<Rightarrow> tag \<Rightarrow> string \<Rightarrow> string" where
  "processString w t v0 =
     (let v1 = (case tagDefault t of Some d \<Rightarrow> if v0 = [] then d else v0 | None \<Rightarrow> v0);
          v2 = (if env_value w t \<noteq> [] then env_value w t else v1)
      in if is_encoded v2
         then (case decode w (take (length v2 - 5) (drop 4 v2)) of Inl _ \<Rightarrow> v2 | Inr d \<Rightarrow> d)
         else v2)"

definition processInt :: "'f world \<Rightarrow> tag \<Rightarrow> int \<Rightarrow> int" where
  "processInt w t v0 =
     (let v1 = (case tagDefault t of
            Some d \<Rightarrow>
              if v0 = 0 then (case ParseInt 64 d of
                  (n, None) \<Rightarrow> n
                | (_, Some _) \<Rightarrow> (case parseDuration w d of Some n \<Rightarrow> n | None \<Rightarrow> v0))
              else v0
          | None \<Rightarrow> v0)
      in if env_value w t \<noteq> [] then (case ParseInt 64 (env_value w t) of (n, None) \<Rightarrow> n | (_, Some _) \<Rightarrow> v1) else v1)"

definition processUInt :: "'f world \<Rightarrow> tag \<Rightarrow> nat \<Rightarrow> nat" where
  "processUInt w t v0 =
     (let v1 = (case tagDefault t of
            Some d \<Rightarrow> if v0 = 0 then (case ParseUint 64 d of (n, None) \<Rightarrow> n | (_, Some _) \<Rightarrow> v0) else v0
          | None \<Rightarrow> v0)
      in if env_value w t \<noteq> [] then (case ParseUint 64 (env_value w t) of (n, None) \<Rightarrow> n | (_, Some _) \<Rightarrow> v1) else v1)"

definition processFloat :: "'f world \<Rightarrow> tag \<Rightarrow> 'f \<Rightarrow> 'f" where
  "processFloat w t v0 =
     (let v1 = (case tagDefault t of
            Some d \<Rightarrow> if zeroFloat w v0 then (case parseFloat w d of Some x \<Rightarrow> x | None \<Rightarrow> v0) else v0
          | None \<Rightarrow> v0)
      in if env_value w t \<noteq> [] then (case parseFloat w (env_value w t) of Some x \<Rightarrow> x | None \<Rightarrow> v1) else v1)"

definition processBool :: "'f world \<Rightarrow> tag \<Rightarrow> bool \<Rightarrow> bool" where
  "processBool w t v0 =
     (let v1 = (case tagDefault t of
            Some d \<Rightarrow> if \<not> v0 then (case ParseBool d of Some b \<Rightarrow> b | None \<Rightarrow> v0) else v0
          | None \<Rightarrow> v0)
      in if env_value w t \<noteq> [] then (case ParseBool (env_value w t) of Some b \<Rightarrow> b | None \<Rightarrow> v1) else v1)"

subsection \<open>Trees\<close>

text \<open>The type of a value, up to what an assignment compares: reflection refuses to store a plain string in a defined type.\<close>

fun assignable :: "'f gvalue \<Rightarrow> 'f gvalue \<Rightarrow> bool" where
  "assignable (VString n' _) old = (case old of VString n _ \<Rightarrow> n = n' | _ \<Rightarrow> False)"
| "assignable (VBool n' _) old = (case old of VBool n _ \<Rightarrow> n = n' | _ \<Rightarrow> False)"
| "assignable (VPtr v') old = (case old of VPtr v \<Rightarrow> assignable v' v | _ \<Rightarrow> False)"
| "assignable _ _ = True"

text \<open>\<^verbatim>\<open>dst.Set(new)\<close> for a settable destination of the type of \<open>old\<close>.\<close>

definition set_elem :: "'f gvalue \<Rightarrow> 'f gvalue option \<Rightarrow> 'f gvalue option" where
  "set_elem old new = (case new of None \<Rightarrow> None | Some v \<Rightarrow> if assignable v old then Some v else None)"

definition set_field :: "field \<Rightarrow> 'f gvalue \<Rightarrow> 'f gvalue option \<Rightarrow> 'f gvalue option" where
  "set_field f old new = (if exported f then set_elem old new else None)"

lemma size_zip_right [termination_simp]: "(f, v) \<in> set (zip fs vs) \<Longrightarrow> size v < Suc (size_list size vs)"
  by (drule set_zip_rightD) (simp add: size_list_estimation' less_Suc_eq_le)

fun modifyValue :: "'f world \<Rightarrow> tag \<Rightarrow> 'f gvalue \<Rightarrow> 'f gvalue option" where
  "modifyValue w t (VString n s) = Some (VString False (processString w t s))"
| "modifyValue w t (VInt k i) = Some (VInt k (signed_conv k (processInt w t i)))"
| "modifyValue w t (VUint k i) = Some (VUint k (unsigned_conv k (processUInt w t i)))"
| "modifyValue w t (VFloat k x) = Some (VFloat k (convFloat w k (processFloat w t x)))"
| "modifyValue w t (VBool n b) = Some (VBool False (processBool w t b))"
| "modifyValue w t (VNil k) = Some (VNil k)"
| "modifyValue w t (VPtr v) = map_option VPtr (modifyValue w t v)"
| "modifyValue w t (VSlice vs) = map_option VSlice (those (map (\<lambda>v. set_elem v (modifyValue w t v)) vs))"
| "modifyValue w t (VArray vs) = map_option VArray (those (map (\<lambda>v. set_elem v (modifyValue w t v)) vs))"
| "modifyValue w t (VMap ks vs) = map_option (VMap ks) (those (map (\<lambda>v. set_elem v (modifyValue w t v)) vs))"
| "modifyValue w t (VStruct fs vs) =
     map_option (VStruct fs) (those (map (\<lambda>(f, v). set_field f v (modifyValue w (field_tag f) v)) (zip fs vs)))"
| "modifyValue w t (VOther s) = Some (VOther s)"

text \<open>The zero value of a field's type, which a top-level field keeps when the new value is not assignable.\<close>

fun zero_of :: "'f gvalue \<Rightarrow> 'f gvalue" where
  "zero_of (VString n s) = VString n []"
| "zero_of (VBool n b) = VBool n False"
| "zero_of (VPtr v) = VNil ''ptr''"
| "zero_of v = v"

definition copy_field :: "'f world \<Rightarrow> field \<Rightarrow> 'f gvalue \<Rightarrow> 'f gvalue option" where
  "copy_field w f v =
     (case modifyValue w (field_tag f) v of
        None \<Rightarrow> None
      | Some v' \<Rightarrow> if assignable v' v then (if exported f then Some v' else None) else Some (zero_of v))"

definition modifyStruct :: "'f world \<Rightarrow> 'f gvalue \<Rightarrow> 'f gvalue option" where
  "modifyStruct w cfg =
     (case cfg of
        VPtr (VStruct fs vs) \<Rightarrow>
          map_option (\<lambda>vs'. VPtr (VStruct fs vs')) (those (map (\<lambda>(f, v). copy_field w f v) (zip fs vs)))
      | _ \<Rightarrow> None)"

subsection \<open>Loading\<close>








record CryptDecoder =
  password :: string
  iterations :: int

definition NewDecoder :: "(string \<Rightarrow> string) \<Rightarrow> CryptDecoder" where
  "NewDecoder env =
     \<lparr>password = env ''JASYPT_PASSWORD'',
      iterations = (case ParseInt 64 (env ''JASYPT_ITERATIONS'') of
          (n, None) \<Rightarrow> if env ''JASYPT_ITERATIONS'' \<noteq> [] \<and> n > 0 then n else 1000
        | (_, Some _) \<Rightarrow> 1000)\<rparr>"

subsection \<open>Types are kept\<close>

fun shape :: "'f gvalue \<Rightarrow> unit gvalue" where
  "shape (VString n s) = VString n []"
| "shape (VInt k i) = VInt k 0"
| "shape (VUint k i) = VUint k 0"
| "shape (VFloat k x) = VFloat k ()"
| "shape (VBool n b) = VBool n False"
| "shape (VNil k) = VNil k"
| "shape (VPtr v) = VPtr (shape v)"
| "shape (VSlice vs) = VSlice (map shape vs)"
| "shape (VArray vs) = VArray (map shape vs)"
| "shape (VMap ks vs) = VMap ks (map shape vs)"
| "shape (VStruct fs vs) = VStruct fs (map shape vs)"
| "shape (VOther s) = VOther s"

text \<open>Configurations reflection can rebuild: no defined string or boolean types, only exported fields.\<close>

fun plain :: "'f gvalue \<Rightarrow> bool" where
  "plain (VString n s) = (\<not> n)"
| "plain (VBool n b) = (\<not> n)"
| "plain (VPtr v) = plain v"
| "plain (VSlice vs) = list_all plain vs"
| "plain (VArray vs) = list_all plain vs"
| "plain (VMap ks vs) = list_all plain vs"
| "plain (VStruct fs vs) = (length fs = length vs \<and> list_all exported fs \<and> list_all plain vs)"
| "plain _ = True"

fun in_range :: "'f gvalue \<Rightarrow> bool" where
  "in_range (VInt k i) = (0 < k \<longrightarrow> - (2 ^ (k - 1)) \<le> i \<and> i < 2 ^ (k - 1))"
| "in_range (VUint k i) = (i < 2 ^ k)"
| "in_range (VPtr v) = in_range v"
| "in_range (VSlice vs) = list_all in_range vs"
| "in_range (VArray vs) = list_all in_range vs"
| "in_range (VMap ks vs) = list_all in_range vs"
| "in_range (VStruct fs vs) = list_all in_range vs"
| "in_range _ = True"

lemma signed_conv_range: "0 < k \<Longrightarrow> - (2 ^ (k - 1)) \<le> signed_conv k x \<and> signed_conv k x < 2 ^ (k - 1)"
proof -
  assume "0 < k"
  then have "(2 :: int) ^ k = 2 * 2 ^ (k - 1)" by (simp flip: power_Suc)
  moreover have "0 \<le> (x + 2 ^ (k - 1)) mod 2 ^ k" "(x + 2 ^ (k - 1)) mod 2 ^ k < 2 ^ k" by simp_all
  ultimately show ?thesis unfolding signed_conv_def by linarith
qed

lemma assignable_shape: "shape v' = shape v \<Longrightarrow> assignable v' v"
proof (induction v' arbitrary: v)
  case (VPtr v')
  then show ?case by (cases v) auto
qed (case_tac v; auto)+

lemma those_map_Some:
  "(\<And>x. x \<in> set xs \<Longrightarrow> \<exists>y. f x = Some y \<and> P x y) \<Longrightarrow> \<exists>ys. those (map f xs) = Some ys \<and> list_all2 P xs ys"
proof (induction xs)
  case (Cons x xs)
  then obtain y ys where "f x = Some y" "P x y" "those (map f xs) = Some ys" "list_all2 P xs ys" by (meson list.set_intros)
  then show ?case by simp
qed simp

definition kept :: "'f gvalue \<Rightarrow> 'f gvalue \<Rightarrow> bool" where
  "kept v v' \<longleftrightarrow> shape v' = shape v \<and> in_range v'"

lemma kept_list: "list_all2 kept vs vs' \<Longrightarrow> map shape vs' = map shape vs \<and> list_all in_range vs'"
  by (induction vs vs' rule: list_all2_induct) (auto simp: kept_def)

lemma kept_zip:
  "length fs = length vs \<Longrightarrow> list_all2 (\<lambda>(f, v) v'. kept v v') (zip fs vs) vs' \<Longrightarrow> list_all2 kept vs vs'"
  by (auto simp: list_all2_conv_all_nth)

lemma set_elem_kept: "\<exists>v'. m = Some v' \<and> kept v v' \<Longrightarrow> \<exists>v'. set_elem v m = Some v' \<and> kept v v'"
  using assignable_shape by (fastforce simp: set_elem_def kept_def)

lemma modify_list_kept:
  "(\<And>v. v \<in> set vs \<Longrightarrow> \<exists>v'. g v = Some v' \<and> kept v v') \<Longrightarrow>
   \<exists>vs'. those (map (\<lambda>v. set_elem v (g v)) vs) = Some vs' \<and> map shape vs' = map shape vs \<and> list_all in_range vs'"
  using those_map_Some [of vs "\<lambda>v. set_elem v (g v)" kept] set_elem_kept kept_list by metis

lemma modify_fields_kept:
  assumes "length fs = length vs" and "list_all exported fs"
    and "\<And>f v. (f, v) \<in> set (zip fs vs) \<Longrightarrow> \<exists>v'. g f v = Some v' \<and> kept v v'"
  shows "\<exists>vs'. those (map (\<lambda>(f, v). set_field f v (g f v)) (zip fs vs)) = Some vs' \<and>
           map shape vs' = map shape vs \<and> list_all in_range vs'"
proof -
  have "\<exists>v'. (\<lambda>(f, v). set_field f v (g f v)) x = Some v' \<and> (\<lambda>(f, v) v'. kept v v') x v'" if "x \<in> set (zip fs vs)" for x
  proof -
    obtain f v where x: "x = (f, v)" by (cases x)
    then have "exported f" using that assms(2) by (auto simp: list_all_iff dest: set_zip_leftD)
    then show ?thesis using set_elem_kept [OF assms(3)] that x by (simp add: set_field_def)
  qed
  then obtain vs' where "those (map (\<lambda>(f, v). set_field f v (g f v)) (zip fs vs)) = Some vs'"
    "list_all2 (\<lambda>(f, v) v'. kept v v') (zip fs vs) vs'" using those_map_Some by blast
  then show ?thesis using kept_list kept_zip [OF assms(1)] by blast
qed

lemma modifyValue_kept: "plain v \<Longrightarrow> \<exists>v'. modifyValue w t v = Some v' \<and> kept v v'"
proof (induction w t v rule: modifyValue.induct)
  case (8 w t vs)
  then show ?case using modify_list_kept [of vs "modifyValue w t"] by (auto simp: kept_def list_all_iff)
next
  case (9 w t vs)
  then show ?case using modify_list_kept [of vs "modifyValue w t"] by (auto simp: kept_def list_all_iff)
next
  case (10 w t ks vs)
  then show ?case using modify_list_kept [of vs "modifyValue w t"] by (auto simp: kept_def list_all_iff)
next
  case (11 w t fs vs)
  have "\<exists>v'. modifyValue w (field_tag f) v = Some v' \<and> kept v v'" if "(f, v) \<in> set (zip fs vs)" for f v
  proof -
    have "plain v" using 11(2) that by (auto simp: list_all_iff dest: set_zip_rightD)
    then show ?thesis by (rule 11(1) [OF that refl])
  qed
  then show ?case
    using modify_fields_kept [of fs vs "\<lambda>f. modifyValue w (field_tag f)"] 11(2) by (auto simp: kept_def)
next
  case (2 w t k i)
  then show ?case using signed_conv_range [of k "processInt w t i"] by (simp add: kept_def)
qed (auto simp: kept_def unsigned_conv_def)

lemma copy_fields:
  assumes "length fs = length vs" and "list_all exported fs" and "list_all plain vs"
  shows "\<exists>vs'. those (map (\<lambda>(f, v). copy_field w f v) (zip fs vs)) = Some vs' \<and>
     list_all2 (\<lambda>(f, v) v'. modifyValue w (field_tag f) v = Some v' \<and> kept v v') (zip fs vs) vs'"
proof (rule those_map_Some)
  fix x assume x: "x \<in> set (zip fs vs)"
  obtain f v where fv: "x = (f, v)" by (cases x)
  then have "exported f" "plain v"
    using x assms by (auto simp: list_all_iff dest: set_zip_leftD set_zip_rightD)
  moreover obtain v' where "modifyValue w (field_tag f) v = Some v'" "kept v v'"
    using modifyValue_kept [OF \<open>plain v\<close>] by blast
  ultimately show "\<exists>v'. (\<lambda>(f, v). copy_field w f v) x = Some v' \<and>
      (\<lambda>(f, v) v'. modifyValue w (field_tag f) v = Some v' \<and> kept v v') x v'"
    using fv assignable_shape [of v' v] by (simp add: copy_field_def kept_def)
qed

lemma modifyStruct_plain:
  assumes "plain (VPtr (VStruct fs vs))"
  obtains vs' where "modifyStruct w (VPtr (VStruct fs vs)) = Some (VPtr (VStruct fs vs'))"
    "list_all2 kept vs vs'" "\<And>i. i < length vs \<Longrightarrow> modifyValue w (field_tag (fs ! i)) (vs ! i) = Some (vs' ! i)"
proof -
  from assms obtain vs' where t: "those (map (\<lambda>(f, v). copy_field w f v) (zip fs vs)) = Some vs'"
    and l: "list_all2 (\<lambda>(f, v) v'. modifyValue w (field_tag f) v = Some v' \<and> kept v v') (zip fs vs) vs'"
    using copy_fields [of fs vs w] by auto
  have "list_all2 kept vs vs'" "\<And>i. i < length vs \<Longrightarrow> modifyValue w (field_tag (fs ! i)) (vs ! i) = Some (vs' ! i)"
    using l assms by (auto simp: list_all2_conv_all_nth)
  with t that show thesis by (simp add: modifyStruct_def)
qed

subsection \<open>Properties\<close>


text \<open>
  C10: Processing a configuration of plain types never panics and keeps its type: every string, number, slice, map entry and
  field keeps its place and its kind, and every integer of the result fits the width of its field.
\<close>
theorem modify_keeps_types:
  assumes "plain (VPtr (VStruct fs vs))"
  shows "\<exists>cfg. modifyStruct w (VPtr (VStruct fs vs)) = Some cfg \<and> shape cfg = shape (VPtr (VStruct fs vs)) \<and> in_range cfg"
  using modifyStruct_plain [OF assms] kept_list by (metis in_range.simps(3,7) shape.simps(7,11))

definition demo_fields :: "field list" where
  "demo_fields =
     [\<lparr>field_name = ''Level'', field_tag = \<lparr>tagDefault = Some ''info'', tagEnv = Some ''LEVEL''\<rparr>, exported = True\<rparr>,
      \<lparr>field_name = ''Port'', field_tag = \<lparr>tagDefault = Some ''300'', tagEnv = None\<rparr>, exported = True\<rparr>,
      \<lparr>field_name = ''Period'', field_tag = \<lparr>tagDefault = Some ''1s'', tagEnv = Some ''PERIOD''\<rparr>, exported = True\<rparr>]"

definition demo_world :: "unit world" where
  "demo_world =
     \<lparr>getenv = (\<lambda>n. if n = ''PERIOD'' then ''5s'' else []),
      parseDuration = (\<lambda>s. if s = ''5s'' then Some 5000000000 else if s = ''1s'' then Some 1000000000 else None),
      parseFloat = (\<lambda>_. None), zeroFloat = (\<lambda>_. True), convFloat = (\<lambda>_ x. x), decode = (\<lambda>_. Inl ''no key'')\<rparr>"

theorem modify_keeps_types_witness:
  "\<exists>cfg. modifyStruct demo_world (VPtr (VStruct demo_fields [VString False [], VInt 8 0, VInt 64 0])) = Some cfg \<and> in_range cfg"
  using modify_keeps_types [of demo_fields "[VString False [], VInt 8 0, VInt 64 0]" demo_world]
  by (auto simp: demo_fields_def)

text \<open>Values without parts.\<close>

fun leaf :: "'f gvalue \<Rightarrow> bool" where
  "leaf (VPtr v) = False"
| "leaf (VSlice vs) = False"
| "leaf (VArray vs) = False"
| "leaf (VMap ks vs) = False"
| "leaf (VStruct fs vs) = False"
| "leaf v = True"













text \<open>
  An environment value that is not a decimal integer has no effect on an integer field, even when it is a duration that the
  \<^verbatim>\<open>default\<close> tag of the same field would accept: a \<^verbatim>\<open>time.Duration\<close> field keeps its file or default value.
\<close>
theorem env_duration_ignored:
  assumes "ParseInt 64 (env_value w t) = (n, Some e)"
  shows "modifyValue w t (VInt 64 v) = modifyValue w (t\<lparr>tagEnv := None\<rparr>) (VInt 64 v)"
  using assms by (simp add: processInt_def env_value_def Let_def)

theorem env_duration_ignored_witness:
  "parseDuration demo_world ''5s'' = Some 5000000000 \<and> getenv demo_world ''PERIOD'' = ''5s'' \<and>
   modifyValue demo_world \<lparr>tagDefault = Some ''1s'', tagEnv = Some ''PERIOD''\<rparr> (VInt 64 0) = Some (VInt 64 1000000000)"
  using env_duration_ignored [of demo_world "\<lparr>tagDefault = Some ''1s'', tagEnv = Some ''PERIOD''\<rparr>" 0 SyntaxError 0]
  by (simp add: demo_world_def env_value_def ParseInt_def is_digit_def processInt_def signed_conv_def)

subsection \<open>Zero values\<close>

text \<open>
  \<^verbatim>\<open>isZero\<close> on the whole tree.  \<open>opaque\<close> answers for what the tree does not look into: a structure that is a \<^verbatim>\<open>time.Time\<close> (none for any other
  structure), and values of the remaining kinds.
\<close>

fun isZero :: "('f gvalue \<Rightarrow> bool option) \<Rightarrow> 'f world \<Rightarrow> 'f gvalue \<Rightarrow> bool" where
  "isZero opaque w (VPtr v) = False"
| "isZero opaque w (VNil k) = True"
| "isZero opaque w (VSlice vs) = (vs = [])"
| "isZero opaque w (VArray vs) = (vs = [])"
| "isZero opaque w (VStruct fs vs) = (case opaque (VStruct fs vs) of Some z \<Rightarrow> z | None \<Rightarrow> False)"
| "isZero opaque w (VString n s) = (s = [])"
| "isZero opaque w (VInt k i) = (i = 0)"
| "isZero opaque w (VUint k i) = (i = 0)"
| "isZero opaque w (VFloat k x) = zeroFloat w x"
| "isZero opaque w (VBool n b) = (\<not> b)"
| "isZero opaque w (VMap ks vs) = False"
| "isZero opaque w (VOther s) = (case opaque (VOther s) of Some z \<Rightarrow> z | None \<Rightarrow> False)"

text \<open>
  A setting that is not zero ignores its default, whatever its kind; on the leaves, the only values it is asked about, the test does not depend on
  \<open>opaque\<close>.
\<close>

lemma env_value_default [simp]: "env_value w (t\<lparr>tagDefault := d\<rparr>) = env_value w t"
  by (simp add: env_value_def)

lemma nonzero_ignores_default:
  assumes "\<not> isZero opaque w v" and "leaf v"
  shows "modifyValue w t v = modifyValue w (t\<lparr>tagDefault := None\<rparr>) v"
  using assms by (cases v)
    (auto simp: processString_def processInt_def processUInt_def processFloat_def processBool_def Let_def split: option.split sum.split)

end
