(* ===== verification/WebAuth.thy ===== *)
theory WebAuth
  imports HttpClient
begin

unbundle bit_operations_syntax

section \<open>The authentication middlewares\<close>

text \<open>
  The basic authentication handlers (\<^verbatim>\<open>web/gin/middleware/auth\<close>) and the two NTLM handlers (\<^verbatim>\<open>ntlm\<close>, \<^verbatim>\<open>ntlm-ext\<close>).  A gin context
  is the record \<open>ctx\<close>; \<open>next\<close>, the rest of the chain that \<^verbatim>\<open>c.Next()\<close> runs, is a parameter.  A slice or index out of
  range is a panic, \<^const>\<open>None\<close>.
\<close>

subsection \<open>The gin context\<close>

record ctx =
  url_path :: string
  authorization :: string
  resp_headers :: "(string, string) gomap"
  resp_status :: "nat option"
  aborted :: bool
  keys :: "(string, string) gomap"

definition put_header :: "string \<Rightarrow> string \<Rightarrow> ctx \<Rightarrow> ctx" where
  "put_header k v c = c\<lparr>resp_headers := fmupd k v (resp_headers c)\<rparr>"

definition put_key :: "string \<Rightarrow> string \<Rightarrow> ctx \<Rightarrow> ctx" where
  "put_key k v c = c\<lparr>keys := fmupd k v (keys c)\<rparr>"

text \<open>What gin documents of \<^verbatim>\<open>Abort\<close>: no pending handler runs after it.\<close>

definition gin_next :: "(ctx \<Rightarrow> ctx) \<Rightarrow> bool" where
  "gin_next next \<longleftrightarrow> (\<forall>c. aborted c \<longrightarrow> next c = c)"

fun split_on :: "char \<Rightarrow> string \<Rightarrow> string list" where
  "split_on s [] = [[]]"
| "split_on s (c # cs) =
     (if c = s then [] # split_on s cs
      else (case split_on s cs of [] \<Rightarrow> [[c]] | w # ws \<Rightarrow> (c # w) # ws))"

definition split_n2 :: "char \<Rightarrow> string \<Rightarrow> string list" where
  "split_n2 s cs =
     (if s \<in> set cs then [takeWhile (\<lambda>c. c \<noteq> s) cs, tl (dropWhile (\<lambda>c. c \<noteq> s) cs)] else [cs])"

subsection \<open>Basic authentication\<close>

definition respondWithUnauthorized :: "ctx \<Rightarrow> ctx" where
  "respondWithUnauthorized c =
     (put_header ''WWW-Authenticate'' ''Basic realm=\"Authorization Required\"'' c)\<lparr>resp_status := Some 401, aborted := True\<rparr>"

definition BasicAuthFunc :: "(ctx \<Rightarrow> ctx) \<Rightarrow> (string \<Rightarrow> string \<Rightarrow> bool) \<Rightarrow> ctx \<Rightarrow> ctx" where
  "BasicAuthFunc next authFunc c =
     (case split_n2 CHR '' '' (authorization c) of
        [scheme, rest] \<Rightarrow>
          if scheme \<noteq> ''Basic'' then respondWithUnauthorized c
          else (case split_n2 CHR '':'' (string_of (fst (decodeBase64 rest))) of
            [user, pass] \<Rightarrow> if \<not> authFunc user pass then respondWithUnauthorized c else next c
          | _ \<Rightarrow> respondWithUnauthorized c)
      | _ \<Rightarrow> respondWithUnauthorized c)"

text \<open>\<^verbatim>\<open>auth/authBasicCustom.go\<close> has the handler as a method of an empty service; its \<^verbatim>\<open>Start\<close> and \<^verbatim>\<open>Stop\<close> do nothing.\<close>

definition custom_respondWithUnauthorized :: "ctx \<Rightarrow> ctx" where
  "custom_respondWithUnauthorized c =
     (put_header ''WWW-Authenticate'' ''Basic realm=\"Authorization Required\"'' c)\<lparr>resp_status := Some 401, aborted := True\<rparr>"

definition custom_BasicAuthFunc :: "(ctx \<Rightarrow> ctx) \<Rightarrow> (string \<Rightarrow> string \<Rightarrow> bool) \<Rightarrow> ctx \<Rightarrow> ctx" where
  "custom_BasicAuthFunc next authFunc c =
     (let auth = split_n2 CHR '' '' (authorization c) in
      if length auth \<noteq> 2 \<or> auth ! 0 \<noteq> ''Basic'' then custom_respondWithUnauthorized c
      else let payload = fst (decodeBase64 (auth ! 1)); pair = split_n2 CHR '':'' (string_of payload) in
        if length pair \<noteq> 2 \<or> \<not> authFunc (pair ! 0) (pair ! 1) then custom_respondWithUnauthorized c else next c)"

lemma custom_same_as_basic: "custom_BasicAuthFunc next authFunc c = BasicAuthFunc next authFunc c"
  by (auto simp: custom_BasicAuthFunc_def BasicAuthFunc_def custom_respondWithUnauthorized_def respondWithUnauthorized_def split_n2_def Let_def)

subsection \<open>NTLM messages\<close>

definition le32 :: "32 word \<Rightarrow> byte list" where
  "le32 v = [ucast v, ucast (drop_bit 8 v), ucast (drop_bit 16 v), ucast (drop_bit 24 v)]"

definition put32 :: "nat \<Rightarrow> 32 word \<Rightarrow> byte list \<Rightarrow> byte list" where
  "put32 off v b = take off b @ le32 v @ drop (off + 4) b"

definition put16 :: "nat \<Rightarrow> 16 word \<Rightarrow> byte list \<Rightarrow> byte list" where
  "put16 off v b = take off b @ [ucast v, ucast (drop_bit 8 v)] @ drop (off + 2) b"

definition get16 :: "byte list \<Rightarrow> nat option" where
  "get16 b = (case b of x # y # _ \<Rightarrow> Some (unat x + 256 * unat y) | _ \<Rightarrow> None)"

definition slice :: "byte list \<Rightarrow> nat \<Rightarrow> nat \<Rightarrow> byte list option" where
  "slice b i j = (if i \<le> j \<and> j \<le> length b then Some (take (j - i) (drop i b)) else None)"

definition negotiateFlags :: "32 word" where
  "negotiateFlags = 0x8000 OR 0x80000 OR 0x0200 OR 0x0001 OR 0x0000"

definition ntlmAuthChallenge :: "byte list" where
  "ntlmAuthChallenge =
     (let b0 = replicate 40 0;
          b1 = bytes_of ''NTLMSSP'' @ [0] @ drop 8 b0
      in put16 36 0 (put32 32 0 (put32 28 0 (put32 24 33554944 (put32 20 negotiateFlags
           (put32 16 40 (put32 12 0 (put32 8 2 b1))))))))"

definition pathMatches :: "string \<Rightarrow> string \<Rightarrow> bool" where
  "pathMatches reqPath path \<longleftrightarrow> reqPath = path \<or> take (length path + 1) reqPath = path @ ''/''"

text \<open>
  A rune above \<^verbatim>\<open>MaxASCII\<close> consists of bytes above it, and an invalid byte is one such rune, so dropping these runes drops
  exactly these bytes.
\<close>

definition removeZeros :: "string \<Rightarrow> string" where
  "removeZeros s = filter (\<lambda>c. 0 < (of_char c :: nat) \<and> (of_char c :: nat) \<le> 127) s"

definition getNTLMField :: "byte list \<Rightarrow> nat \<Rightarrow> (string \<times> bool) option" where
  "getNTLMField data fieldBase =
     (if fieldBase + 8 > length data then Some ([], False)
      else case get16 (drop fieldBase data) of None \<Rightarrow> None | Some len \<Rightarrow>
      (case get16 (drop (fieldBase + 4) data) of None \<Rightarrow> None | Some strStart \<Rightarrow>
        if strStart > length data \<or> len > length data - strStart then Some ([], False)
        else (case slice data strStart (strStart + len) of
            None \<Rightarrow> None
          | Some s \<Rightarrow> Some (removeZeros (string_of s), True))))"

subsection \<open>NTLM handlers\<close>

definition sendUnauthorized :: "string \<Rightarrow> ctx \<Rightarrow> ctx" where
  "sendUnauthorized value c =
     (put_header ''Connection'' ''keep-alive'' (put_header ''WWW-Authenticate'' value c))\<lparr>resp_status := Some 401, aborted := True\<rparr>"

definition cors_headers :: "ctx \<Rightarrow> ctx" where
  "cors_headers c =
     put_header ''Access-Control-Allow-Origin'' ''*''
       (put_header ''Access-Control-Allow-Headers''
         ''Authorization,Content-Type, Content-Range, Content-Disposition, Content-Description,Origin, X-Requested-With, sessionId'' c)"

type_synonym verifier = "string \<Rightarrow> string \<Rightarrow> string option"

definition NTLMMiddleware :: "(ctx \<Rightarrow> ctx) \<Rightarrow> string \<Rightarrow> verifier option \<Rightarrow> ctx \<Rightarrow> ctx option" where
  "NTLMMiddleware next path verifier c0 =
     (if pathMatches (url_path c0) path
      then let c = cors_headers c0 in
        if authorization c \<noteq> [] then
          (case split_on CHR '' '' (authorization c) of
             [scheme, token] \<Rightarrow>
               if scheme \<noteq> ''NTLM'' then Some (sendUnauthorized ''NTLM'' c)
               else (case decodeBase64 token of
                 (_, True) \<Rightarrow> Some (sendUnauthorized ''NTLM'' c)
               | (byteData, False) \<Rightarrow>
                   if length byteData > 8 \<and> byteData ! 8 = 1
                   then Some (next (sendUnauthorized (''NTLM '' @ encodeBase64 ntlmAuthChallenge) c))
                   else if length byteData > 8 \<and> byteData ! 8 = 3
                   then (case getNTLMField byteData 38 of None \<Rightarrow> None | Some (username, okUser) \<Rightarrow>
                        (case getNTLMField byteData 30 of None \<Rightarrow> None | Some (domain, okDomain) \<Rightarrow>
                          if \<not> okUser \<or> \<not> okDomain then Some (sendUnauthorized ''NTLM'' c)
                          else (case verifier of
                              None \<Rightarrow> Some (sendUnauthorized ''NTLM'' c)
                            | Some verify \<Rightarrow>
                                (case verify username domain of
                                   Some _ \<Rightarrow> Some (sendUnauthorized ''NTLM'' c)
                                 | None \<Rightarrow> Some (next (put_key ''domain'' domain (put_key ''username'' username c)))))))
                   else Some (sendUnauthorized ''NTLM'' c))
           | _ \<Rightarrow> Some (sendUnauthorized ''NTLM'' c))
        else Some (next (sendUnauthorized ''NTLM'' c))
      else Some (next c0))"

text \<open>The extended handler: the cookie manager (\<open>isAuthorized\<close>, \<open>setAuthorized\<close>) is a parameter.\<close>

definition Step2NTLM :: string where
  "Step2NTLM = ''NTLM TlRMTVNTUAACAAAAAAAAACgAAAABgggAAAIAAgAAAAAAAAAAAAAAAA==''"

text \<open>The package has its own copies of the helpers.\<close>

definition ext_removeZeros :: "string \<Rightarrow> string" where
  "ext_removeZeros s = filter (\<lambda>c. 0 < (of_char c :: nat) \<and> (of_char c :: nat) \<le> 127) s"

definition ext_getNTLMField :: "byte list \<Rightarrow> nat \<Rightarrow> (string \<times> bool) option" where
  "ext_getNTLMField data fieldBase =
     (if fieldBase + 8 > length data then Some ([], False)
      else case get16 (drop fieldBase data) of None \<Rightarrow> None | Some len \<Rightarrow>
      (case get16 (drop (fieldBase + 4) data) of None \<Rightarrow> None | Some strStart \<Rightarrow>
        if strStart > length data \<or> len > length data - strStart then Some ([], False)
        else (case slice data strStart (strStart + len) of
            None \<Rightarrow> None
          | Some s \<Rightarrow> Some (ext_removeZeros (string_of s), True))))"

definition ext_sendUnauthorized :: "string \<Rightarrow> ctx \<Rightarrow> ctx" where
  "ext_sendUnauthorized value c =
     (put_header ''Connection'' ''keep-alive'' (put_header ''WWW-Authenticate'' value c))\<lparr>resp_status := Some 401, aborted := True\<rparr>"

definition NTLMMiddleware_ext :: "(ctx \<Rightarrow> ctx) \<Rightarrow> string \<Rightarrow> (ctx \<Rightarrow> bool) \<Rightarrow> (ctx \<Rightarrow> string \<Rightarrow> string \<Rightarrow> ctx) \<Rightarrow> verifier option \<Rightarrow> ctx \<Rightarrow> ctx option" where
  "NTLMMiddleware_ext next path isAuthorized setAuthorized verifier c0 =
     (if url_path c0 = path \<or> take (length path + 1) (url_path c0) = path @ ''/''
      then if isAuthorized c0 then Some (next c0)
        else let c = cors_headers c0 in
        if authorization c \<noteq> [] then
          (case split_on CHR '' '' (authorization c) of
             [scheme, token] \<Rightarrow>
               if scheme \<noteq> ''NTLM'' then Some (ext_sendUnauthorized ''NTLM'' c)
               else (case decodeBase64 token of
                 (_, True) \<Rightarrow> Some (ext_sendUnauthorized ''NTLM'' c)
               | (byteData, False) \<Rightarrow>
                   if length byteData > 8 \<and> byteData ! 8 = 1
                   then Some (next (ext_sendUnauthorized Step2NTLM c))
                   else if length byteData > 8 \<and> byteData ! 8 = 3
                   then (case ext_getNTLMField byteData 38 of None \<Rightarrow> None | Some (username, okUser) \<Rightarrow>
                        (case ext_getNTLMField byteData 30 of None \<Rightarrow> None | Some (domain, okDomain) \<Rightarrow>
                          if \<not> okUser \<or> \<not> okDomain then Some (ext_sendUnauthorized ''NTLM'' c)
                          else (case verifier of
                              None \<Rightarrow> Some (ext_sendUnauthorized ''NTLM'' c)
                            | Some verify \<Rightarrow>
                                (case verify username domain of
                                   Some _ \<Rightarrow> Some (ext_sendUnauthorized ''NTLM'' c)
                                 | None \<Rightarrow> Some (next (setAuthorized c username domain))))))
                   else Some (ext_sendUnauthorized ''NTLM'' c))
           | _ \<Rightarrow> Some (ext_sendUnauthorized ''NTLM'' c))
        else Some (next (ext_sendUnauthorized ''NTLM'' c))
      else Some c0)"

subsection \<open>Helper facts\<close>

lemma ext_helpers [simp]: "ext_removeZeros = removeZeros" "ext_getNTLMField = getNTLMField" "ext_sendUnauthorized = sendUnauthorized"
proof -
  show z: "ext_removeZeros = removeZeros" by (rule ext) (simp add: ext_removeZeros_def removeZeros_def)
  show "ext_getNTLMField = getNTLMField" by (intro ext) (unfold ext_getNTLMField_def getNTLMField_def z, rule refl)
  show "ext_sendUnauthorized = sendUnauthorized" by (intro ext) (simp add: ext_sendUnauthorized_def sendUnauthorized_def)
qed

lemma get16_total: "2 \<le> length b \<Longrightarrow> \<exists>n. get16 b = Some n"
  by (cases b; cases "tl b") (auto simp: get16_def)

lemma getNTLMField_total: "\<exists>s ok. getNTLMField data base = Some (s, ok)"
proof (cases "base + 8 > length data")
  case False
  then have "2 \<le> length (drop base data)" "2 \<le> length (drop (base + 4) data)"
    unfolding length_drop by linarith+
  from get16_total [OF this(1)] get16_total [OF this(2)]
  obtain m n where "get16 (drop base data) = Some m" "get16 (drop (base + 4) data) = Some n" by blast
  then show ?thesis using False by (auto simp: getNTLMField_def slice_def)
qed (auto simp: getNTLMField_def)

lemma split_on_not_Nil [simp]: "split_on s cs \<noteq> []"
  by (cases cs) (auto split: list.splits)

lemma split_on_one: "split_on s xs = [a] \<longleftrightarrow> xs = a \<and> s \<notin> set a"
proof (induction xs arbitrary: a)
  case (Cons c cs)
  obtain w ws where w: "split_on s cs = w # ws" by (meson list.exhaust split_on_not_Nil)
  show ?case using Cons.IH [of "tl a"] w by (cases a) auto
qed auto

lemma split_on_two: "split_on s cs = [a, b] \<longleftrightarrow> cs = a @ s # b \<and> s \<notin> set a \<and> s \<notin> set b"
proof (induction cs arbitrary: a)
  case (Cons c cs)
  obtain w ws where w: "split_on s cs = w # ws" by (meson list.exhaust split_on_not_Nil)
  show ?case
  proof (cases "c = s")
    case True
    then show ?thesis using split_on_one [of s cs b] by (cases a) auto
  next
    case False
    then show ?thesis using Cons.IH [of "tl a"] w by (cases a) auto
  qed
qed auto

lemma challenge_bytes: "ntlmAuthChallenge =
    [78, 84, 76, 77, 83, 83, 80, 0, 2, 0, 0, 0, 0, 0, 0, 0, 40, 0, 0, 0, 1, 130, 8, 0, 0, 2, 0, 2, 0, 0, 0, 0, 0, 0, 0, 0, 0, 0, 0, 0]"
proof -
  have r: "replicate 40 (0 :: byte) = [0, 0, 0, 0, 0, 0, 0, 0, 0, 0, 0, 0, 0, 0, 0, 0, 0, 0, 0, 0, 0, 0, 0, 0, 0, 0, 0, 0, 0, 0, 0, 0, 0, 0, 0, 0, 0, 0, 0, 0]"
    by (simp add: eval_nat_numeral)
  have f: "negotiateFlags = 0x88201" by (simp add: negotiateFlags_def)
  have l: "le32 0 = [0, 0, 0, 0]" "le32 2 = [2, 0, 0, 0]" "le32 40 = [40, 0, 0, 0]" "le32 0x88201 = [1, 130, 8, 0]"
    "le32 33554944 = [0, 2, 0, 2]" by (simp_all add: le32_def)
  have b: "bytes_of ''NTLMSSP'' = [78, 84, 76, 77, 83, 83, 80]" by (simp add: bytes_of_def byte_of_def)
  have z: "[ucast (0 :: 16 word), ucast (drop_bit 8 (0 :: 16 word))] = [0 :: byte, 0]" by simp
  show ?thesis unfolding ntlmAuthChallenge_def r f b put32_def put16_def l z Let_def by simp
qed

lemma challenge_constant: "''NTLM '' @ encodeBase64 ntlmAuthChallenge = Step2NTLM"
  unfolding challenge_bytes Step2NTLM_def
  by (simp add: sextet_def b64_char_def char_of_def bit_0)

lemma decodeBase64_cases:
  obtains bs where "decodeBase64 t = (bs, True)" | bs where "decodeBase64 t = (bs, False)"
  by (metis (full_types) surj_pair)

lemma ctx_fields [simp]:
  "authorization (cors_headers c) = authorization c" "keys (cors_headers c) = keys c" "aborted (cors_headers c) = aborted c"
  "aborted (sendUnauthorized v c)" "resp_status (sendUnauthorized v c) = Some 401" "keys (sendUnauthorized v c) = keys c"
  by (simp_all add: cors_headers_def put_header_def sendUnauthorized_def)

subsection \<open>Properties\<close>

text \<open>The header carries a well-formed type-3 message that names this user and domain.\<close>

definition claims :: "string \<Rightarrow> string \<Rightarrow> string \<Rightarrow> bool" where
  "claims hdr user domain \<longleftrightarrow>
     (\<exists>token data. hdr = ''NTLM '' @ token \<and> decodeBase64 token = (data, False) \<and> length data > 8 \<and> data ! 8 = 3 \<and>
        getNTLMField data 38 = Some (user, True) \<and> getNTLMField data 30 = Some (domain, True))"

lemma ntlm_outcomes:
  assumes "gin_next next" and "pathMatches (url_path c) path"
  shows "(\<exists>user domain verify. claims (authorization c) user domain \<and> verifier = Some verify \<and> verify user domain = None \<and>
            NTLMMiddleware next path verifier c =
              Some (next (put_key ''domain'' domain (put_key ''username'' user (cors_headers c))))) \<or>
         (\<exists>c'. NTLMMiddleware next path verifier c = Some c' \<and> aborted c' \<and> resp_status c' = Some 401 \<and> keys c' = keys c)"
proof (cases "authorization c = []")
  case True
  then show ?thesis using assms by (simp add: NTLMMiddleware_def gin_next_def Let_def)
next
  case False
  note open_def = NTLMMiddleware_def Let_def assms(2) False
  show ?thesis
  proof (cases "\<exists>token. split_on CHR '' '' (authorization c) = [''NTLM'', token]")
    case True
    then obtain token where t: "split_on CHR '' '' (authorization c) = [''NTLM'', token]" by blast
    then have hdr: "authorization c = ''NTLM '' @ token" by (simp add: split_on_two)
    show ?thesis
    proof (rule decodeBase64_cases [of token])
      fix data assume d: "decodeBase64 token = (data, False)"
      obtain u ok d' ok' where f: "getNTLMField data 38 = Some (u, ok)" "getNTLMField data 30 = Some (d', ok')"
        using getNTLMField_total by metis
      show ?thesis
      proof (cases "length data > 8 \<and> data ! 8 = 3 \<and> ok \<and> ok' \<and> (\<exists>v. verifier = Some v \<and> v u d' = None)")
        case True
        then show ?thesis using t d f hdr by (intro disjI1) (auto simp: open_def claims_def)
      next
        case False
        then show ?thesis
          using t d f assms(1) by (intro disjI2) (auto simp: open_def gin_next_def split: option.splits)
      qed
    qed (use t in \<open>simp add: open_def\<close>)
  next
    case False
    then have "NTLMMiddleware next path verifier c = Some (sendUnauthorized ''NTLM'' (cors_headers c))"
      by (auto simp: open_def split: list.splits)
    then show ?thesis by simp
  qed
qed

text \<open>
  C4: The NTLM middleware is fail-closed.  On a protected path it never panics, and the rest of the chain runs only for
  a request whose header carries a well-formed type-3 message naming a user the configured verifier
  accepted, with exactly this user and domain set in the context; every other request, whatever its
  bytes, is answered 401, aborted, and leaves the context's keys alone.
\<close>
theorem ntlm_fail_closed:
  assumes "gin_next next" and "pathMatches (url_path c) path"
  shows "(\<exists>user domain verify. claims (authorization c) user domain \<and> verifier = Some verify \<and> verify user domain = None \<and>
            NTLMMiddleware next path verifier c =
              Some (next (put_key ''domain'' domain (put_key ''username'' user (cors_headers c))))) \<or>
         (\<exists>c'. NTLMMiddleware next path verifier c = Some c' \<and> aborted c' \<and> resp_status c' = Some 401 \<and> keys c' = keys c)"
  by (rule ntlm_outcomes [OF assms])

definition demo_ctx :: "string \<Rightarrow> ctx" where
  "demo_ctx hdr = \<lparr>url_path = ''/p/x'', authorization = hdr, resp_headers = fmempty, resp_status = None, aborted = False, keys = fmempty\<rparr>"

definition demo_next :: "ctx \<Rightarrow> ctx" where
  "demo_next c = (if aborted c then c else c\<lparr>resp_status := Some 200\<rparr>)"

theorem ntlm_fail_closed_witness:
  "\<exists>c'. NTLMMiddleware demo_next ''/p'' None (demo_ctx ''NTLM TlRMTQ=='') = Some c' \<and> aborted c' \<and> resp_status c' = Some 401"
proof -
  have g: "gin_next demo_next" by (simp add: gin_next_def demo_next_def)
  have p: "pathMatches (url_path (demo_ctx ''NTLM TlRMTQ=='')) ''/p''" by (simp add: pathMatches_def demo_ctx_def)
  from ntlm_fail_closed [OF g p, of None] show ?thesis by auto
qed

text \<open>
  The extended NTLM middleware with a cookie manager that knows nobody yet, and that records a login in the context's keys, is
  the plain one, request for request: in particular its constant challenge is the challenge message the plain
  middleware builds and encodes.
\<close>
theorem ntlm_ext_equivalent:
  assumes "pathMatches (url_path c) path" and "\<not> isAuthorized c"
  shows "NTLMMiddleware_ext next path isAuthorized (\<lambda>c u d. put_key ''domain'' d (put_key ''username'' u c)) verifier c =
         NTLMMiddleware next path verifier c"
  using assms unfolding NTLMMiddleware_def NTLMMiddleware_ext_def ext_helpers pathMatches_def challenge_constant by simp

theorem ntlm_ext_equivalent_witness:
  "NTLMMiddleware_ext demo_next ''/p'' (\<lambda>_. False) (\<lambda>c u d. put_key ''domain'' d (put_key ''username'' u c)) None (demo_ctx ''NTLM AAAA'') =
   NTLMMiddleware demo_next ''/p'' None (demo_ctx ''NTLM AAAA'')"
  using ntlm_ext_equivalent [of "demo_ctx ''NTLM AAAA''" "''/p''" "\<lambda>_. False" demo_next None]
  by (simp add: pathMatches_def demo_ctx_def)

lemma split_n2_at: "s \<notin> set a \<Longrightarrow> split_n2 s (a @ s # b) = [a, b]"
  unfolding split_n2_def by (induction a) auto

text \<open>
  C38: The server understands what the HTTP client sends: a request with the header that \<^verbatim>\<open>AddBasicAuth\<close> sets is decided by the
  authentication function on exactly this user and this password, for any bytes in the password and any in the
  user name but a colon.
\<close>
theorem basic_auth_round_trip:
  assumes "CHR '':'' \<notin> set user" and "(''Authorization'', hdr) \<in> set (header (AddBasicAuth user pass (NewHTTPClient cfg)))"
      and "authorization c = hdr"
  shows "BasicAuthFunc next authFunc c = (if authFunc user pass then next c else respondWithUnauthorized c)"
proof -
  have "authorization c = ''Basic'' @ CHR '' '' # basicAuth user pass"
    using assms(2,3) by (simp add: AddBasicAuth_def NewHTTPClient_def)
  moreover have "split_n2 CHR '' '' (''Basic'' @ CHR '' '' # basicAuth user pass) = [''Basic'', basicAuth user pass]"
    by (rule split_n2_at) simp
  moreover have "string_of (fst (decodeBase64 (basicAuth user pass))) = user @ CHR '':'' # pass"
    by (simp add: basicAuth_def)
  ultimately show ?thesis using split_n2_at [OF assms(1), of pass] by (simp add: BasicAuthFunc_def)
qed

theorem basic_auth_round_trip_witness:
  "BasicAuthFunc demo_next (\<lambda>u p. u = ''bob'' \<and> p = ''a:b'') (demo_ctx (''Basic '' @ basicAuth ''bob'' ''a:b'')) =
   demo_next (demo_ctx (''Basic '' @ basicAuth ''bob'' ''a:b''))"
  using basic_auth_round_trip [of "''bob''" "''Basic '' @ basicAuth ''bob'' ''a:b''" "''a:b''" demo_http_config
      "demo_ctx (''Basic '' @ basicAuth ''bob'' ''a:b'')" demo_next "\<lambda>u p. u = ''bob'' \<and> p = ''a:b''"]
  by (simp add: AddBasicAuth_def NewHTTPClient_def demo_ctx_def)

text \<open>
  The error of the base64 decoder is dropped: a header whose token is not base64 authenticates when the part before the
  malformed quantum decodes to valid credentials.
\<close>
theorem basic_auth_malformed_accepted:
  "snd (decodeBase64 ''dTpw!'') \<and>
   BasicAuthFunc demo_next (\<lambda>u p. u = ''u'' \<and> p = ''p'') (demo_ctx ''Basic dTpw!'') = demo_next (demo_ctx ''Basic dTpw!'')"
proof -
  have d: "decodeBase64 ''dTpw!'' = (bytes_of ''u:p'', True)"
    by (simp add: decodeBase64_def b64_val_def quantum_def bytes_of_def byte_of_def)
  have "split_n2 CHR '' '' ''Basic dTpw!'' = [''Basic'', ''dTpw!'']" "split_n2 CHR '':'' ''u:p'' = [''u'', ''p'']"
    by (simp_all add: split_n2_def)
  then show ?thesis using d by (simp add: BasicAuthFunc_def demo_ctx_def)
qed

subsection \<open>Options of the NTLM handlers\<close>

text \<open>Both constructors apply their options in order to an empty record; the verifier may be nil.\<close>

record middlewareOptions =
  o_verifier :: "verifier option"

definition WithUserVerifier :: "verifier option \<Rightarrow> middlewareOptions \<Rightarrow> middlewareOptions" where
  "WithUserVerifier v opts = opts\<lparr>o_verifier := v\<rparr>"

definition ntlm_options :: "(middlewareOptions \<Rightarrow> middlewareOptions) list \<Rightarrow> middlewareOptions" where
  "ntlm_options opts = fold (\<lambda>opt s. opt s) opts \<lparr>o_verifier = None\<rparr>"

definition ext_WithUserVerifier :: "verifier option \<Rightarrow> middlewareOptions \<Rightarrow> middlewareOptions" where
  "ext_WithUserVerifier v opts = opts\<lparr>o_verifier := v\<rparr>"

text \<open>The last verifier counts; without one, or when the last is nil, the handler has none and rejects.\<close>

lemma last_verifier: "o_verifier (ntlm_options (map WithUserVerifier vs)) = (if vs = [] then None else last vs)"
  by (induction vs rule: rev_induct) (simp_all add: ntlm_options_def WithUserVerifier_def)

end
