(* ===== verification/GoTime.thy ===== *)
theory GoTime
  imports GoStrconv
begin

section \<open>Dates\<close>

text \<open>
  The part of Go's \<^verbatim>\<open>time\<close> the components use: the calendar, locations, the parsing of the layout \<^verbatim>\<open>20060102150405Z\<close> and the printing of
  \<^verbatim>\<open>2006-01-02 15:04:05\<close> and \<^verbatim>\<open>2006-01-02T15:04:05.000Z\<close>.  An instant is the number of seconds since 1970 and its nanoseconds.
\<close>

subsection \<open>The calendar\<close>

definition leap :: "int \<Rightarrow> bool" where
  "leap y \<longleftrightarrow> y mod 4 = 0 \<and> (y mod 100 \<noteq> 0 \<or> y mod 400 = 0)"

definition month_lengths :: "int \<Rightarrow> int list" where
  "month_lengths y = [31, if leap y then 29 else 28, 31, 30, 31, 30, 31, 31, 30, 31, 30, 31]"

definition days_in :: "int \<Rightarrow> nat \<Rightarrow> int" where
  "days_in y m = month_lengths y ! (m - 1)"

text \<open>Days from 1970 to the first day of a year, and to a date.\<close>

definition year_start :: "int \<Rightarrow> int" where
  "year_start y = 365 * (y - 1) + (y - 1) div 4 - (y - 1) div 100 + (y - 1) div 400 - 719162"

definition days_of :: "int \<Rightarrow> nat \<Rightarrow> int \<Rightarrow> int" where
  "days_of y m d = year_start y + sum_list (take (m - 1) (month_lengths y)) + (d - 1)"

text \<open>Back: periods of 400, 100 and 4 years and single years are taken off, the last of the hundreds and of the years being a day longer.\<close>

definition year_of :: "int \<Rightarrow> int" where
  "year_of n =
     (let d = n + 719162;
          a = d div 146097; d1 = d mod 146097;
          b = min 3 (d1 div 36524); d2 = d1 - 36524 * b;
          c = d2 div 1461; d3 = d2 mod 1461;
          e = min 3 (d3 div 365)
      in 400 * a + 100 * b + 4 * c + e + 1)"

fun locate :: "int list \<Rightarrow> int \<Rightarrow> nat \<times> int" where
  "locate [] d = (0, d)"
| "locate (l # ls) d = (if d < l then (0, d) else apfst Suc (locate ls (d - l)))"

definition civil_of :: "int \<Rightarrow> int \<times> nat \<times> int" where
  "civil_of n =
     (let y = year_of n; (i, j) = locate (month_lengths y) (n - year_start y) in (y, Suc i, j + 1))"

lemma div_pred:
  fixes y k :: int
  assumes "0 < k"
  shows "y div k = (y - 1) div k + (if y mod k = 0 then 1 else 0)"
proof (cases "y mod k = 0")
  case True
  then have "y - 1 = k * (y div k - 1) + (k - 1)" using mult_div_mod_eq [of k y] by (simp add: algebra_simps)
  from int_div_pos_eq [OF this] show ?thesis using True assms by simp
next
  case False
  then have "y - 1 = k * (y div k) + (y mod k - 1)" using mult_div_mod_eq [of k y] by (simp add: algebra_simps)
  moreover have "0 < y mod k" using False assms pos_mod_sign [of k y] by linarith
  ultimately have "(y - 1) div k = y div k" using pos_mod_bound [OF assms, of y] by (intro int_div_pos_eq [where r = "y mod k - 1"]) linarith+
  then show ?thesis using False by simp
qed

lemma leap_days:
  "(r \<longrightarrow> q) \<Longrightarrow> (q \<longrightarrow> p) \<Longrightarrow>
   (if p \<and> (\<not> q \<or> r) then 366 else 365 :: int) = 365 + (if p then 1 else 0) - (if q then 1 else 0) + (if r then 1 else 0)"
  by (cases p; cases q; cases r) simp_all

lemma year_start_Suc: "year_start (y + 1) = year_start y + (if leap y then 366 else 365)"
proof -
  have sum: "365 * y + u - v + w - 719162 = (365 * (y - 1) + u' - v' + w' - 719162) + x"
    if "u = u' + i" "v = v' + j" "w = w' + k" "x = 365 + i - j + k" for u v w u' v' w' x i j k :: int
    using that by simp
  have "(100 :: int) dvd 400" "(4 :: int) dvd 100" by simp_all
  then have "y mod 400 = 0 \<longrightarrow> y mod 100 = 0" "y mod 100 = 0 \<longrightarrow> y mod 4 = 0" unfolding mod_eq_0_iff_dvd by (meson dvd_trans)+
  from sum [OF div_pred div_pred div_pred leap_days [OF this]] show ?thesis
    unfolding year_start_def leap_def by (simp only: add_diff_cancel_right' zero_less_numeral)
qed

lemma sum_month_lengths: "sum_list (month_lengths y) = (if leap y then 366 else 365)"
  by (simp add: month_lengths_def)

lemma year_start_mono: "y < z \<Longrightarrow> year_start (y + 1) \<le> year_start z"
proof (induction "nat (z - y)" arbitrary: z)
  case (Suc n)
  show ?case
  proof (cases "z = y + 1")
    case False
    then have "year_start (y + 1) \<le> year_start (z - 1)" using Suc by simp
    then show ?thesis using year_start_Suc [of "z - 1"] by (simp split: if_splits)
  qed simp
qed simp

lemma div_parts:
  fixes x k :: int
  assumes "0 < k"
  obtains q r where "x div k = q" "x mod k = r" "x = k * q + r" "0 \<le> r" "r < k"
  using assms by (metis mult_div_mod_eq pos_mod_bound pos_mod_sign)

lemma year_of_bounds: "year_start (year_of n) \<le> n \<and> n < year_start (year_of n + 1)"
proof -
  define d where "d = n + 719162"
  define a where "a = d div 146097"
  define d1 where "d1 = d mod 146097"
  define b where "b = min 3 (d1 div 36524)"
  define d2 where "d2 = d1 - 36524 * b"
  define c where "c = d2 div 1461"
  define d3 where "d3 = d2 mod 1461"
  define e where "e = min 3 (d3 div 365)"
  define k where "k = 400 * a + 100 * b + 4 * c + e"
  have y: "year_of n = k + 1"
    unfolding year_of_def Let_def k_def e_def d3_def c_def d2_def b_def d1_def a_def d_def by (rule refl)
  have d: "d = 146097 * a + d1" "0 \<le> d1" "d1 < 146097" unfolding a_def d1_def by simp_all
  obtain q r where q: "d1 div 36524 = q" "d1 = 36524 * q + r" "0 \<le> r" "r < 36524" by (rule div_parts [of 36524 d1]) simp_all
  then have "0 \<le> q" "q \<le> 3 \<or> q = 4 \<and> r \<le> 0" using d(2,3) by linarith+
  then have b: "0 \<le> b" "b \<le> 3" "0 \<le> d2" "d2 < 36524 \<or> b = 3 \<and> d2 \<le> 36524" using q unfolding d2_def b_def by (auto simp: min_def)
  have c: "d2 = 1461 * c + d3" "0 \<le> d3" "d3 < 1461" unfolding c_def d3_def by simp_all
  then have c': "0 \<le> c" "c \<le> 24" using b(3,4) by linarith+
  note c = c c'
  obtain q r where q: "d3 div 365 = q" "d3 = 365 * q + r" "0 \<le> r" "r < 365" by (rule div_parts [of 365 d3]) simp_all
  then have "0 \<le> q" "q \<le> 3 \<or> q = 4 \<and> r \<le> 0" using c(2,3) by linarith+
  then have e: "0 \<le> e" "e \<le> 3" "365 * e \<le> d3" "d3 < 365 * e + 365 \<or> e = 3 \<and> d3 = 1460" using q unfolding e_def by (auto simp: min_def)
  have "k div 4 = 100 * a + 25 * b + c" using e unfolding k_def by (intro int_div_pos_eq [where r = e]) simp_all
  moreover have "k div 100 = 4 * a + b" using c e unfolding k_def by (intro int_div_pos_eq [where r = "4 * c + e"]) simp_all
  moreover have "k div 400 = a" using b c e unfolding k_def by (intro int_div_pos_eq [where r = "100 * b + 4 * c + e"]) simp_all
  ultimately have s: "year_start (k + 1) = 146097 * a + 36524 * b + 1461 * c + 365 * e - 719162"
    by (simp add: year_start_def k_def)
  have n: "n = 146097 * a + 36524 * b + 1461 * c + d3 - 719162" using d(1) c(1) d_def d2_def by linarith
  have "leap (k + 1)" if "d3 = 1460"
  proof -
    have "e = 3" using that e by linarith
    moreover have "c < 24 \<or> b = 3" using that b c by linarith
    moreover have "(k + 1) mod 100 = (if c = 24 then 0 else 4 * c + 4)" if "e = 3"
      using c that unfolding k_def by (intro int_mod_pos_eq [where q = "if c = 24 then 4 * a + b + 1 else 4 * a + b"]) auto
    moreover have "(k + 1) mod 400 = 0" if "e = 3" "c = 24" "b = 3"
      using that unfolding k_def by (intro int_mod_pos_eq [where q = "a + 1"]) simp_all
    moreover have "(k + 1) mod 4 = 0" if "e = 3"
      using that unfolding k_def by (intro int_mod_pos_eq [where q = "100 * a + 25 * b + c + 1"]) simp_all
    ultimately show ?thesis using c unfolding leap_def by auto
  qed
  then show ?thesis unfolding y using n e s year_start_Suc [of "k + 1"] by (cases "leap (k + 1)") auto
qed

lemma year_of_eq: "year_start y \<le> n \<Longrightarrow> n < year_start (y + 1) \<Longrightarrow> year_of n = y"
  using year_of_bounds [of n] year_start_mono [of y "year_of n"] year_start_mono [of "year_of n" y]
  by (cases y "year_of n" rule: linorder_cases) auto

lemma locate_take:
  "i < length ls \<Longrightarrow> 0 \<le> j \<Longrightarrow> j < ls ! i \<Longrightarrow> list_all (\<lambda>l. 0 \<le> l) ls \<Longrightarrow> locate ls (sum_list (take i ls) + j) = (i, j)"
proof (induction ls arbitrary: i)
  case (Cons l ls)
  show ?case
  proof (cases i)
    case (Suc k)
    then have "0 \<le> sum_list (take k ls)" using Cons.prems by (auto intro!: sum_list_nonneg simp: list_all_iff dest: in_set_takeD)
    then show ?thesis using Suc Cons by simp
  qed (use Cons in simp)
qed simp

lemma locate_sound:
  assumes "0 \<le> d" and "d < sum_list ls" and "locate ls d = (i, j)"
  shows "i < length ls \<and> 0 \<le> j \<and> j < ls ! i \<and> d = sum_list (take i ls) + j"
  using assms
proof (induction ls arbitrary: d i)
  case (Cons l ls)
  show ?case
  proof (cases "d < l")
    case False
    then obtain k where k: "locate ls (d - l) = (k, j)" "i = Suc k" using Cons.prems(3) by (cases "locate ls (d - l)") auto
    then show ?thesis using Cons.IH [of "d - l" k] Cons.prems False by simp
  qed (use Cons in auto)
qed simp

definition valid_date :: "int \<Rightarrow> nat \<Rightarrow> int \<Rightarrow> bool" where
  "valid_date y m d \<longleftrightarrow> 1 \<le> m \<and> m \<le> 12 \<and> 1 \<le> d \<and> d \<le> days_in y m"

lemma month_lengths_facts [simp]:
  "length (month_lengths y) = 12" "list_all (\<lambda>l. 0 \<le> l) (month_lengths y)"
  by (simp_all add: month_lengths_def)

text \<open>Dates and day numbers correspond to each other.\<close>

theorem civil_of_days_of:
  assumes "valid_date y m d"
  shows "civil_of (days_of y m d) = (y, m, d)"
proof -
  let ?ls = "month_lengths y" and ?i = "m - 1"
  have i: "?i < length ?ls" "0 \<le> d - 1" "d - 1 < ?ls ! ?i" using assms by (auto simp: valid_date_def days_in_def)
  let ?n = "sum_list (take ?i ?ls) + (d - 1)"
  have "0 \<le> sum_list (take ?i ?ls)" using month_lengths_facts(2) [of y] by (intro sum_list_nonneg) (auto simp: list_all_iff dest: in_set_takeD)
  moreover have "?n < sum_list ?ls"
  proof -
    have "sum_list ?ls = sum_list (take ?i ?ls) + sum_list (drop ?i ?ls)" by (metis append_take_drop_id sum_list_append)
    moreover have "?ls ! ?i \<le> sum_list (drop ?i ?ls)"
    proof (rule member_le_sum_list)
      show "?ls ! ?i \<in> set (drop ?i ?ls)" using i(1) by (metis Cons_nth_drop_Suc list.set_intros(1))
    qed (use month_lengths_facts(2) [of y] in \<open>auto simp: list_all_iff dest: in_set_dropD\<close>)
    ultimately show ?thesis using i by linarith
  qed
  ultimately have "year_of (days_of y m d) = y"
    using i(2) by (intro year_of_eq) (simp_all add: days_of_def year_start_Suc sum_month_lengths split: if_splits)
  moreover have "days_of y m d - year_start y = ?n" by (simp add: days_of_def)
  ultimately show ?thesis using locate_take [OF i month_lengths_facts(2)] assms by (simp add: civil_of_def valid_date_def)
qed

theorem days_of_civil_of:
  assumes "civil_of n = (y, m, d)"
  shows "valid_date y m d \<and> days_of y m d = n"
proof -
  obtain i j where l: "locate (month_lengths (year_of n)) (n - year_start (year_of n)) = (i, j)" by fastforce
  then have e: "y = year_of n" "m = Suc i" "d = j + 1" using assms by (simp_all add: civil_of_def)
  have "0 \<le> n - year_start y" "n - year_start y < sum_list (month_lengths y)"
    using year_of_bounds [of n] e(1) by (simp_all add: year_start_Suc sum_month_lengths)
  from locate_sound [OF this] l e show ?thesis by (auto simp: valid_date_def days_in_def days_of_def)
qed

subsection \<open>Locations\<close>

text \<open>
  A location answers, for a second, the offset in force and the first and last second of the period in which it is, as \<^verbatim>\<open>(*Location).lookup\<close> does.
  \<^verbatim>\<open>time.Date\<close> looks the clock reading up as if it were a second of universal time, and looks again when that was the wrong period.
\<close>

type_synonym location = "int \<Rightarrow> int \<times> int \<times> int"

definition utc_location :: location where
  "utc_location t = (0, - (2 ^ 63), 2 ^ 63 - 1)"

definition offset_at :: "location \<Rightarrow> int \<Rightarrow> int" where
  "offset_at loc t = fst (loc t)"

definition Date_unix :: "location \<Rightarrow> int \<Rightarrow> int" where
  "Date_unix loc wall =
     (case loc wall of (off, start, stop) \<Rightarrow>
        if off = 0 then wall
        else if wall - off < start \<or> stop \<le> wall - off then wall - offset_at loc (wall - off)
        else wall - off)"

text \<open>What the time zone data base promises: periods of constant offset that last at least two days, offsets below a day.\<close>

definition lawful_location :: "location \<Rightarrow> bool" where
  "lawful_location loc \<longleftrightarrow>
     (\<forall>t off start stop. \<bar>t\<bar> < 2 ^ 62 \<and> loc t = (off, start, stop) \<longrightarrow>
        start \<le> t \<and> t < stop \<and> \<bar>off\<bar> < 86400 \<and> start + 172800 \<le> stop \<and>
        (\<forall>u. \<bar>u\<bar> < 2 ^ 62 \<and> start \<le> u \<and> u < stop \<longrightarrow> loc u = (off, start, stop)))"

lemma periods_apart:
  assumes "lawful_location loc" and "\<bar>t\<bar> < 2 ^ 62" and "\<bar>u\<bar> < 2 ^ 62" and "t < u"
      and "loc t = (o1, s1, e1)" and "loc u = (o2, s2, e2)" and "loc t \<noteq> loc u"
  shows "e1 \<le> s2"
proof (rule ccontr)
  assume "\<not> e1 \<le> s2"
  note t = assms(1) [unfolded lawful_location_def, rule_format, OF conjI [OF assms(2,5)]]
  note u = assms(1) [unfolded lawful_location_def, rule_format, OF conjI [OF assms(3,6)]]
  show False
  proof (cases "s2 \<le> t")
    case True
    then show False using u assms(2,4,6,7) by auto
  next
    case False
    then have s: "s1 \<le> s2" "s2 < e1" "\<bar>s2\<bar> < 2 ^ 62" "s2 \<le> u" "u < e2" using t u \<open>\<not> e1 \<le> s2\<close> assms(2,3) by auto
    then have "loc s2 = (o1, s1, e1)" "loc s2 = (o2, s2, e2)" using t u by auto
    then show False using assms(5-7) by simp
  qed
qed

text \<open>A clock reading that occurs in the location is the reading of the instant \<^verbatim>\<open>Date\<close> makes of it.\<close>

lemma Date_unix_wall:
  assumes "lawful_location loc" and "\<bar>wall\<bar> < 2 ^ 61" and "t + offset_at loc t = wall" and "\<bar>t\<bar> < 2 ^ 62"
  shows "Date_unix loc wall + offset_at loc (Date_unix loc wall) = wall \<and> \<bar>Date_unix loc wall\<bar> < 2 ^ 62"
proof -
  obtain o0 s0 e0 where w: "loc wall = (o0, s0, e0)" by (cases "loc wall") auto
  have bw: "\<bar>wall\<bar> < 2 ^ 62" using assms(2) by simp
  note W = assms(1) [unfolded lawful_location_def, rule_format, OF conjI [OF bw w]]
  define utc where "utc = wall - o0"
  have bu: "\<bar>utc\<bar> < 2 ^ 62" using assms(2) W unfolding utc_def by auto
  obtain o1 s1 e1 where u: "loc utc = (o1, s1, e1)" by (cases "loc utc") auto
  note U = assms(1) [unfolded lawful_location_def, rule_format, OF conjI [OF bu u]]
  obtain o2 s2 e2 where t: "loc t = (o2, s2, e2)" by (cases "loc t") auto
  note T = assms(1) [unfolded lawful_location_def, rule_format, OF conjI [OF assms(4) t]]
  have tw: "t = wall - o2" using assms(3) t by (simp add: offset_at_def)
  consider (zero) "o0 = 0" | (same) "o0 \<noteq> 0" "s0 \<le> utc" "utc < e0" | (other) "o0 \<noteq> 0" "utc < s0 \<or> e0 \<le> utc" by linarith
  then show ?thesis
  proof cases
    case zero
    then show ?thesis using w bw by (simp add: Date_unix_def offset_at_def)
  next
    case same
    then have "loc utc = (o0, s0, e0)" using W bu by blast
    then show ?thesis using w same bu by (simp add: Date_unix_def offset_at_def utc_def)
  next
    case other
    have ne: "loc utc \<noteq> loc wall" using other U u w by auto
    have tne: "loc t \<noteq> loc wall" using other T t w tw utc_def by auto
    have "loc t = loc utc"
    proof (rule ccontr)
      assume d: "loc t \<noteq> loc utc"
      have "t \<noteq> utc" "t \<noteq> wall" "utc \<noteq> wall" using d tne ne by auto
      moreover have "t < utc \<Longrightarrow> e2 \<le> s1" "utc < t \<Longrightarrow> e1 \<le> s2" "t < wall \<Longrightarrow> e2 \<le> s0" "wall < t \<Longrightarrow> e0 \<le> s2"
        "utc < wall \<Longrightarrow> e1 \<le> s0" "wall < utc \<Longrightarrow> e0 \<le> s1"
        using periods_apart [OF assms(1,4) bu _ t u] periods_apart [OF assms(1) bu assms(4) _ u t] periods_apart [OF assms(1,4) bw _ t w]
          periods_apart [OF assms(1) bw assms(4) _ w t] periods_apart [OF assms(1) bu bw _ u w] periods_apart [OF assms(1) bw bu _ w u] d tne ne
        by auto
      moreover have "s0 \<le> wall" "wall < e0" "s0 + 172800 \<le> e0" "s1 \<le> utc" "utc < e1" "s1 + 172800 \<le> e1" "s2 \<le> t" "t < e2" "s2 + 172800 \<le> e2"
        "- 86400 < o0" "o0 < 86400" "- 86400 < o2" "o2 < 86400" using W U T by auto
      ultimately show False unfolding tw utc_def by linarith
    qed
    then show ?thesis using w u t tw other assms(4) by (auto simp: Date_unix_def offset_at_def utc_def)
  qed
qed

subsection \<open>Text\<close>

text \<open>\<^verbatim>\<open>appendInt\<close>: at least \<open>w\<close> digits.\<close>

definition padded :: "nat \<Rightarrow> nat \<Rightarrow> string" where
  "padded w n = replicate (w - length (utoa n)) (digit 0) @ utoa n"

definition appendInt :: "int \<Rightarrow> nat \<Rightarrow> string" where
  "appendInt x w = (if x < 0 then CHR ''-'' # padded w (nat (- x)) else padded w (nat x))"

text \<open>One or two digits; \<open>fixed\<close> asks for two.\<close>

definition getnum :: "bool \<Rightarrow> string \<Rightarrow> (nat \<times> string) option" where
  "getnum fixed s =
     (case s of
        [] \<Rightarrow> None
      | a # r \<Rightarrow>
          if \<not> is_digit a then None
          else if r \<noteq> [] \<and> is_digit (hd r) then Some (10 * digit_val a + digit_val (hd r), tl r)
          else if fixed then None
          else Some (digit_val a, r))"

definition long_year :: "string \<Rightarrow> (nat \<times> string) option" where
  "long_year s = (if 4 \<le> length s \<and> list_all is_digit (take 4 s) then Some (digits_val (take 4 s), drop 4 s) else None)"

text \<open>A fraction of a second is accepted after the seconds; nine digits of it count.\<close>

definition fraction :: "string \<Rightarrow> nat \<times> string" where
  "fraction s =
     (case s of
        a # b # r \<Rightarrow>
          if a \<in> {CHR ''.'', CHR '',''} \<and> is_digit b
          then let ds = takeWhile is_digit (b # r); n = take 9 ds in (digits_val n * 10 ^ (9 - length n), dropWhile is_digit (b # r))
          else (0, s)
      | _ \<Rightarrow> (0, s))"

definition checked :: "(nat \<Rightarrow> bool) \<Rightarrow> (nat \<times> string) option \<Rightarrow> (nat \<times> string) option" where
  "checked P x = (case x of Some (n, r) \<Rightarrow> if P n then Some (n, r) else None | None \<Rightarrow> None)"

definition clock :: "int \<Rightarrow> nat \<Rightarrow> int \<Rightarrow> nat \<Rightarrow> nat \<Rightarrow> nat \<Rightarrow> int" where
  "clock y mo d h mi sec = 86400 * days_of y mo d + int (3600 * h + 60 * mi + sec)"

text \<open>\<^verbatim>\<open>ParseInLocation\<close> with the layout \<^verbatim>\<open>20060102150405Z\<close>; the hour may have one digit.\<close>

definition parse_stamp :: "location \<Rightarrow> string \<Rightarrow> (int \<times> nat) option" where
  "parse_stamp loc s =
     Option.bind (long_year s) (\<lambda>(y, s).
     Option.bind (checked (\<lambda>n. 1 \<le> n \<and> n \<le> 12) (getnum True s)) (\<lambda>(mo, s).
     Option.bind (getnum True s) (\<lambda>(d, s).
     Option.bind (checked (\<lambda>n. n < 24) (getnum False s)) (\<lambda>(h, s).
     Option.bind (checked (\<lambda>n. n < 60) (getnum True s)) (\<lambda>(mi, s).
     Option.bind (checked (\<lambda>n. n < 60) (getnum True s)) (\<lambda>(sec, s).
     let (ns, s) = fraction s in
     if s = ''Z'' \<and> valid_date (int y) mo (int d)
     then Some (Date_unix loc (clock (int y) mo (int d) h mi sec), ns) else None))))))"

text \<open>\<^verbatim>\<open>time.UnixMilli\<close>.\<close>

definition UnixMilli :: "int \<Rightarrow> int \<times> nat" where
  "UnixMilli ms = (ms div 1000, nat (ms mod 1000) * 10 ^ 6)"

text \<open>The date and the time of day a location shows at an instant.\<close>

definition show_date :: "location \<Rightarrow> string \<Rightarrow> int \<Rightarrow> string" where
  "show_date loc sep unix =
     (let w = unix + offset_at loc unix; (y, mo, d) = civil_of (w div 86400); t = w mod 86400
      in appendInt y 4 @ ''-'' @ appendInt (int mo) 2 @ ''-'' @ appendInt d 2 @ sep @
         appendInt (t div 3600) 2 @ '':'' @ appendInt (t mod 3600 div 60) 2 @ '':'' @ appendInt (t mod 60) 2)"

definition format_CpgDateTime :: "location \<Rightarrow> int \<times> nat \<Rightarrow> string" where
  "format_CpgDateTime loc t = show_date loc '' '' (fst t)"

definition format_CpgDateTimeT :: "location \<Rightarrow> int \<times> nat \<Rightarrow> string" where
  "format_CpgDateTimeT loc t = show_date loc ''T'' (fst t) @ ''.'' @ padded 3 (snd t div 10 ^ 6) @ ''Z''"

lemma padded_two: "n < 100 \<Longrightarrow> padded 2 n = [digit (n div 10), digit (n mod 10)]"
  by (simp add: padded_def utoa.simps [of n] utoa.simps [of "n div 10"] less_mult_imp_div_less)

lemma padded_four: "n < 10000 \<Longrightarrow> padded 4 n = [digit (n div 1000), digit (n div 100 mod 10), digit (n div 10 mod 10), digit (n mod 10)]"
  by (simp add: padded_def utoa.simps [of n] utoa.simps [of "n div 10"] utoa.simps [of "n div 100"] utoa.simps [of "n div 1000"]
      div_mult2_eq [symmetric] numeral_2_eq_2 numeral_3_eq_3)

lemma getnum_padded [simp]: "n < 100 \<Longrightarrow> getnum f (padded 2 n @ s) = Some (n, s)"
  by (simp add: padded_two getnum_def less_mult_imp_div_less)

lemma long_year_padded [simp]:
  assumes "n < 10000"
  shows "long_year (padded 4 n @ s) = Some (n, s)"
proof -
  have t: "10 * (n div 1000) + n div 100 mod 10 = n div 100" "10 * (n div 100) + n div 10 mod 10 = n div 10"
    using mult_div_mod_eq [of 10 "n div 100"] mult_div_mod_eq [of 10 "n div 10"] by (simp_all only: div_mult2_eq [symmetric]) simp_all
  have "n div 1000 < 10" using assms by (simp add: less_mult_imp_div_less)
  then show ?thesis using assms by (simp add: padded_four long_year_def digits_val_def t)
qed

lemma fraction_Z [simp]: "fraction ''Z'' = (0, ''Z'')"
  by (simp add: fraction_def)

lemma clock_parts:
  assumes "h < 24" and "mi < 60" and "sec < 60"
  shows "clock y mo d h mi sec div 86400 = days_of y mo d" and "clock y mo d h mi sec mod 86400 = int (3600 * h + 60 * mi + sec)"
proof -
  have "0 \<le> int (3600 * h + 60 * mi + sec)" "int (3600 * h + 60 * mi + sec) < 86400" using assms by linarith+
  then show "clock y mo d h mi sec div 86400 = days_of y mo d" "clock y mo d h mi sec mod 86400 = int (3600 * h + 60 * mi + sec)"
    unfolding clock_def by (intro int_div_pos_eq int_mod_pos_eq; simp)+
qed

lemma day_parts:
  assumes "mi < 60" and "sec < 60"
  shows "int (3600 * h + 60 * mi + sec) div 3600 = int h" and "int (3600 * h + 60 * mi + sec) mod 3600 div 60 = int mi"
    and "int (3600 * h + 60 * mi + sec) mod 60 = int sec"
proof -
  show "int (3600 * h + 60 * mi + sec) div 3600 = int h" using assms by (intro int_div_pos_eq [where r = "int (60 * mi + sec)"]) simp_all
  have "int (3600 * h + 60 * mi + sec) mod 3600 = int (60 * mi + sec)" using assms by (intro int_mod_pos_eq [where q = "int h"]) simp_all
  then show "int (3600 * h + 60 * mi + sec) mod 3600 div 60 = int mi" using assms by (auto intro: int_div_pos_eq [where r = "int sec"])
  show "int (3600 * h + 60 * mi + sec) mod 60 = int sec" using assms by (intro int_mod_pos_eq [where q = "int (60 * h + mi)"]) simp_all
qed

definition date_text :: "nat \<Rightarrow> nat \<Rightarrow> nat \<Rightarrow> string \<Rightarrow> nat \<Rightarrow> nat \<Rightarrow> nat \<Rightarrow> string" where
  "date_text y mo d sep h mi sec =
     padded 4 y @ ''-'' @ padded 2 mo @ ''-'' @ padded 2 d @ sep @ padded 2 h @ '':'' @ padded 2 mi @ '':'' @ padded 2 sec"

text \<open>An instant whose clock reading in the location is a date and a time of day is shown as these.\<close>

lemma show_date_clock:
  assumes "valid_date (int y) mo (int d)" and "h < 24" and "mi < 60" and "sec < 60"
      and "u + offset_at loc u = clock (int y) mo (int d) h mi sec"
  shows "show_date loc sep u = date_text y mo d sep h mi sec"
  unfolding show_date_def Let_def assms(5) clock_parts [OF assms(2-4)] civil_of_days_of [OF assms(1)]
  by (simp add: appendInt_def date_text_def day_parts [OF assms(3,4)] del: of_nat_add of_nat_mult)

lemma parse_stamp_padded:
  assumes "y < 10000" and "valid_date (int y) mo (int d)" and "h < 24" and "mi < 60" and "sec < 60"
  shows "parse_stamp loc (padded 4 y @ padded 2 mo @ padded 2 d @ padded 2 h @ padded 2 mi @ padded 2 sec @ ''Z'') =
     Some (Date_unix loc (clock (int y) mo (int d) h mi sec), 0)"
proof -
  have "days_in (int y) mo \<le> 31" using assms(2) by (auto simp: valid_date_def days_in_def month_lengths_def nth_Cons' split: if_splits)
  then have "mo < 100" "d < 100" using assms(2) by (auto simp: valid_date_def)
  then show ?thesis using assms by (simp add: parse_stamp_def checked_def valid_date_def)
qed

lemma clock_small:
  assumes "y < 10000" and "valid_date (int y) mo (int d)" and "h < 24" and "mi < 60" and "sec < 60"
  shows "\<bar>clock (int y) mo (int d) h mi sec\<bar> < 2 ^ 61"
proof -
  have y: "year_start 0 \<le> year_start (int y)" "year_start (int y) \<le> year_start 10000"
    using year_start_mono [of 0 "int y"] year_start_mono [of "int y" 10000] year_start_Suc [of 0] year_start_Suc [of "int y"] assms(1)
    by (cases "y = 0"; simp split: if_splits)+
  obtain n where n: "days_of (int y) mo (int d) = n" by simp
  then have c: "civil_of n = (int y, mo, int d)" using civil_of_days_of [OF assms(2)] by simp
  then have "year_of n = int y" by (auto simp: civil_of_def Let_def split: prod.splits)
  then have "year_start (int y) \<le> n" "n < year_start (int y) + 367" using year_of_bounds [of n] year_start_Suc [of "int y"] by (simp_all split: if_splits)
  moreover have "int (3600 * h + 60 * mi + sec) < 86400" using assms(3-5) by linarith
  moreover have "year_start 0 = - 719528" "year_start 10000 = 2932897" by (simp_all add: year_start_def)
  ultimately show ?thesis using y unfolding clock_def n by simp
qed

end
