(* ===== verification/Ldap.thy ===== *)
theory Ldap
  imports GoTime
begin

unbundle bit_operations_syntax

section \<open>The LDAP client\<close>

text \<open>
  \<^verbatim>\<open>ldap/client.go\<close> and \<^verbatim>\<open>ldap/utils.go\<close>: the verification of a user against the directory, with one reconnection, and the
  conversions of attribute values.  The directory (dialling, binding, searching) is a parameter on a world
  \<^typ>\<open>'w\<close>; a connection is a number.  The time zones of the machine are a parameter.  Here the calls of one client
  come one after the other; \<open>LdapPool\<close> interleaves them.
\<close>

subsection \<open>Hexadecimal text\<close>

definition hex_digit :: "nat \<Rightarrow> char" where
  "hex_digit n = char_of (if n < 10 then 48 + n else 55 + n)"

text \<open>The format \<^verbatim>\<open>%02X\<close> of a byte.\<close>

definition hex2 :: "byte \<Rightarrow> string" where
  "hex2 b = [hex_digit (unat b div 16), hex_digit (unat b mod 16)]"

text \<open>\<^verbatim>\<open>strings.ToUpper(strconv.FormatInt(n, 16))\<close> of a non-negative number.\<close>

fun hex_upper :: "nat \<Rightarrow> string" where
  "hex_upper n = (if n < 16 then [hex_digit n] else hex_upper (n div 16) @ [hex_digit (n mod 16)])"

declare hex_upper.simps [simp del]

subsection \<open>GUIDs\<close>

definition is_alnum :: "char \<Rightarrow> bool" where
  "is_alnum c \<longleftrightarrow> (let n = of_char c :: nat in 97 \<le> n \<and> n \<le> 122 \<or> 65 \<le> n \<and> n \<le> 90 \<or> 48 \<le> n \<and> n \<le> 57)"

definition IsGUIDValidSize :: "string \<Rightarrow> bool" where
  "IsGUIDValidSize guid \<longleftrightarrow> length (filter is_alnum guid) = 32"

definition guidStripReplacer :: "string \<Rightarrow> string" where
  "guidStripReplacer s = filter (\<lambda>c. c \<noteq> CHR ''{'' \<and> c \<noteq> CHR ''}'' \<and> c \<noteq> CHR ''-'') s"

definition guid_idxs :: "nat list" where
  "guid_idxs = [3, 2, 1, 0, 5, 4, 7, 6, 8, 9, 10, 11, 12, 13, 14, 15]"

definition GuidToOctetString :: "string \<Rightarrow> string" where
  "GuidToOctetString guid =
     (let strip = guidStripReplacer guid in
      if length strip \<noteq> 32 then []
      else concat (map (\<lambda>idx. CHR 0x5C # take 2 (drop (idx * 2) strip)) guid_idxs))"

definition ConvertToDashedString :: "byte list \<Rightarrow> string" where
  "ConvertToDashedString guid =
     (if length guid \<ge> 16 then
        hex2 (guid ! 3) @ hex2 (guid ! 2) @ hex2 (guid ! 1) @ hex2 (guid ! 0) @ ''-'' @
        hex2 (guid ! 5) @ hex2 (guid ! 4) @ ''-'' @ hex2 (guid ! 7) @ hex2 (guid ! 6) @ ''-'' @
        hex2 (guid ! 8) @ hex2 (guid ! 9) @ ''-'' @ hex2 (guid ! 10) @ hex2 (guid ! 11) @ hex2 (guid ! 12) @
        hex2 (guid ! 13) @ hex2 (guid ! 14) @ hex2 (guid ! 15)
      else [])"

subsection \<open>SIDs\<close>

text \<open>The loop over the six authority bytes; a byte is ored in at its place.\<close>

definition sid_authority :: "byte list \<Rightarrow> int" where
  "sid_authority b =
     fold (\<lambda>i a. a OR push_bit (8 * (5 - (i - 2))) (uint (b ! i))) [2, 3, 4, 5, 6, 7] 0"

definition sub_authority :: "byte list \<Rightarrow> nat \<Rightarrow> int" where
  "sub_authority b offset = fold (\<lambda>k a. a OR push_bit (8 * k) (uint (b ! (offset + k)) AND 255)) [0, 1, 2, 3] 0"

fun sid_loop :: "byte list \<Rightarrow> nat \<Rightarrow> nat \<Rightarrow> string \<Rightarrow> string" where
  "sid_loop b 0 offset sb = sb"
| "sid_loop b (Suc n) offset sb =
     (if offset + 4 > length b then []
      else sid_loop b n (offset + 4) (sb @ ''-'' @ Itoa (sub_authority b offset)))"

definition decodeSID :: "byte list \<Rightarrow> string" where
  "decodeSID b =
     (if length b \<ge> 8 then
        sid_loop b (unat (b ! 1)) 8 (''S-'' @ Itoa (uint (b ! 0)) @ ''-'' @ hex_upper (nat (sid_authority b)))
      else [])"

subsection \<open>Names of codes\<close>

definition getUserAccountControl :: "string \<Rightarrow> string" where
  "getUserAccountControl s =
     (case map_of
        [(''512'', ''Enabled Account''), (''514'', ''Disabled Account''),
         (''544'', ''Enabled, Password Not Required''), (''546'', ''Disabled, Password Not Required''),
         (''66048'', ''Enabled, Password Doesn't Expire''), (''66050'', ''Disabled, Password Doesn't Expire''),
         (''66080'', ''Enabled, Password Doesn't Expire & Not Required''),
         (''66082'', ''Disabled, Password Doesn't Expire & Not Required''),
         (''262656'', ''Enabled, Smartcard Required''), (''262658'', ''Disabled, Smartcard Required''),
         (''262688'', ''Enabled, Smartcard Required, Password Not Required''),
         (''262690'', ''Disabled, Smartcard Required, Password Not Required''),
         (''328192'', ''Enabled, Smartcard Required, Password Doesn't Expire''),
         (''328194'', ''Disabled, Smartcard Required, Password Doesn't Expire''),
         (''328224'', ''Enabled, Smartcard Required, Password Doesn't Expire & Not Required''),
         (''328226'', ''Disabled, Smartcard Required, Password Doesn't Expire & Not Required'')] s of
        Some t \<Rightarrow> t | None \<Rightarrow> s)"

definition getGroupType :: "string \<Rightarrow> string" where
  "getGroupType s =
     (case map_of
        [(''2'', ''Global group''), (''4'', ''Domain local group''), (''8'', ''Universal group''),
         (''-2147483648'', ''Security group''), (''-2147483646'', ''Global Security Group''),
         (''-2147483644'', ''Local Security Group''), (''-2147483643'', ''BuiltIn Group''),
         (''-2147483640'', ''Universal Security Group'')] s of
        Some t \<Rightarrow> t | None \<Rightarrow> s)"

text \<open>Go divides towards zero.\<close>

definition go_div :: "int \<Rightarrow> int \<Rightarrow> int" where
  "go_div a b = (if (a < 0) = (b < 0) then \<bar>a\<bar> div \<bar>b\<bar> else - (\<bar>a\<bar> div \<bar>b\<bar>))"

text \<open>Milliseconds since the Unix epoch of a Windows file time.\<close>

definition file_time_ms :: "int \<Rightarrow> int" where
  "file_time_ms v = go_div v 10000 - 11644473600000"

text \<open>\<open>localLoc\<close> is \<^verbatim>\<open>time.Local\<close>; the location of Novosibirsk is loaded once and falls back to it.\<close>

record dates =
  localLoc :: location
  novosibirskLoc :: location

definition loadNovosibirskLoc :: "(string \<Rightarrow> string + location) \<Rightarrow> location \<Rightarrow> location" where
  "loadNovosibirskLoc loadLocation local = (case loadLocation ''Asia/Novosibirsk'' of Inl err \<Rightarrow> local | Inr loc \<Rightarrow> loc)"

definition getDateFromString :: "dates \<Rightarrow> string \<Rightarrow> string" where
  "getDateFromString d s =
     (case parse_stamp (novosibirskLoc d) s of Some t \<Rightarrow> format_CpgDateTime (novosibirskLoc d) t | None \<Rightarrow> s)"

definition getDateFromStringT :: "string \<Rightarrow> string" where
  "getDateFromStringT s = (case parse_stamp utc_location s of Some t \<Rightarrow> format_CpgDateTimeT utc_location t | None \<Rightarrow> s)"

definition getTSFromLong :: "dates \<Rightarrow> string \<Rightarrow> string" where
  "getTSFromLong d s =
     (if s \<noteq> [] \<and> s \<noteq> ''0'' \<and> s \<noteq> Itoa max_int64
      then (case ParseInt 64 s of (v, None) \<Rightarrow> format_CpgDateTime (localLoc d) (UnixMilli (file_time_ms v)) | (_, Some _) \<Rightarrow> s)
      else s)"

record attribute =
  attr_name :: string
  attr_values :: "string list"
  attr_bytes :: "byte list list"

definition lower :: "string \<Rightarrow> string" where
  "lower s = map (\<lambda>c. let n = of_char c :: nat in if 65 \<le> n \<and> n \<le> 90 then char_of (n + 32) else c) s"

text \<open>The first value of an attribute; there is a panic, \<^const>\<open>None\<close>, when it has none.\<close>

definition with_first :: "attribute \<Rightarrow> (string \<Rightarrow> string) \<Rightarrow> string list option" where
  "with_first a f = (case attr_values a of [] \<Rightarrow> None | v # _ \<Rightarrow> Some [f v])"

definition ConvertAttributeToStringArray :: "dates \<Rightarrow> attribute \<Rightarrow> bool \<Rightarrow> string list option" where
  "ConvertAttributeToStringArray d a withT =
     (let n = lower (attr_name a) in
      if n = ''thumbnailphoto'' then Some [[]]
      else if n = ''objectguid'' then
        (case attr_bytes a of [] \<Rightarrow> Some [[]] | b # _ \<Rightarrow> Some [ConvertToDashedString b])
      else if n = ''objectsid'' then
        (case attr_bytes a of [] \<Rightarrow> Some [[]] | b # _ \<Rightarrow> Some [decodeSID b])
      else if n = ''useraccountcontrol'' then with_first a getUserAccountControl
      else if n \<in> set [''whencreated'', ''whenchanged''] then
        with_first a (if withT then getDateFromStringT else getDateFromString d)
      else if n \<in> set [''pwdlastset'', ''lastlogon'', ''lastlogontimestamp'', ''accountexpires''] then with_first a (getTSFromLong d)
      else if n = ''grouptype'' then with_first a getGroupType
      else Some (attr_values a))"

subsection \<open>The connection\<close>

record ConfigLDAPClient =
  Url :: string
  User :: string
  Pass :: string
  Base :: string
  Insecure :: bool
  SearchTimeout :: string

text \<open>An entry answers \<^verbatim>\<open>GetAttributeValue\<close>: the empty string for an attribute it does not have.\<close>

type_synonym entry = "string \<Rightarrow> string"

datatype search_outcome = Entries "entry list" | SearchError string | NoAnswer

record 'w directory =
  parseUrl :: "string \<Rightarrow> string + string \<times> string"
  dialURL :: "bool \<Rightarrow> bool \<Rightarrow> string \<Rightarrow> 'w \<Rightarrow> (string + nat) \<times> 'w"
  bind :: "nat \<Rightarrow> string \<Rightarrow> string \<Rightarrow> 'w \<Rightarrow> string option \<times> 'w"
  search :: "nat \<Rightarrow> string \<Rightarrow> string \<Rightarrow> 'w \<Rightarrow> search_outcome \<times> 'w"
  closeConn :: "nat \<Rightarrow> 'w \<Rightarrow> string option \<times> 'w"
  escapeFilter :: "string \<Rightarrow> string"

record Client =
  config :: ConfigLDAPClient
  searchTimeout :: duration
  conn :: "nat option"

text \<open>Errors are lists, as \<^verbatim>\<open>errors.Join\<close> builds them.\<close>

type_synonym errs = "string list"

definition dial :: "'w directory \<Rightarrow> Client \<Rightarrow> 'w \<Rightarrow> (errs + nat) \<times> 'w" where
  "dial d c w =
     (case parseUrl d (Url (config c)) of
        Inl e \<Rightarrow> (Inl [e], w)
      | Inr (host, scheme) \<Rightarrow>
          if host = [] then (Inl [''empty ldap url host''], w)
          else let s = lower scheme in
            if s \<noteq> ''ldaps'' \<and> s \<noteq> ''ldap'' then (Inl [''unsupported ldap scheme: '' @ scheme], w)
            else (case dialURL d (s = ''ldaps'') (Insecure (config c)) (Url (config c)) w of
                (Inl e, w1) \<Rightarrow> (Inl [e], w1)
              | (Inr h, w1) \<Rightarrow>
                  if User (config c) \<noteq> [] then
                    (case bind d h (User (config c)) (Pass (config c)) w1 of
                       (Some e, w2) \<Rightarrow> (Inl [e], snd (closeConn d h w2))
                     | (None, w2) \<Rightarrow> (Inr h, w2))
                  else (Inr h, w1)))"

definition connectLocked :: "'w directory \<Rightarrow> Client \<Rightarrow> 'w \<Rightarrow> errs option \<times> Client \<times> 'w" where
  "connectLocked d c w =
     (case conn c of
        Some _ \<Rightarrow> (None, c, w)
      | None \<Rightarrow> (case dial d c w of
          (Inl e, w1) \<Rightarrow> (Some e, c, w1)
        | (Inr h, w1) \<Rightarrow> (None, c\<lparr>conn := Some h\<rparr>, w1)))"

text \<open>\<open>parseDuration\<close> is \<^verbatim>\<open>time.ParseDuration\<close>.\<close>

definition NewClient :: "(string \<Rightarrow> duration option) \<Rightarrow> 'w directory \<Rightarrow> ConfigLDAPClient \<Rightarrow> 'w \<Rightarrow> (errs + Client) \<times> 'w" where
  "NewClient parseDuration d cfg w =
     (let timeout = (case parseDuration (SearchTimeout cfg) of
            None \<Rightarrow> 10000000000 | Some t \<Rightarrow> if t \<le> 0 then 10000000000 else t)
      in case connectLocked d \<lparr>config = cfg, searchTimeout = timeout, conn = None\<rparr> w of
           (Some e, c, w1) \<Rightarrow> (Inl e, w1)
         | (None, c, w1) \<Rightarrow> (Inr c, w1))"

definition Close :: "'w directory \<Rightarrow> Client \<Rightarrow> 'w \<Rightarrow> string option \<times> Client \<times> 'w" where
  "Close d c w =
     (case conn c of
        None \<Rightarrow> (None, c, w)
      | Some h \<Rightarrow> (let (e, w1) = closeConn d h w in (e, c\<lparr>conn := None\<rparr>, w1)))"

definition searchOnce :: "'w directory \<Rightarrow> Client \<Rightarrow> nat \<Rightarrow> string \<Rightarrow> 'w \<Rightarrow> (string + entry list) \<times> 'w" where
  "searchOnce d c h flt w =
     (case search d h (Base (config c)) flt w of
        (Entries es, w1) \<Rightarrow> (Inr es, w1)
      | (SearchError e, w1) \<Rightarrow> (Inl e, w1)
      | (NoAnswer, w1) \<Rightarrow> (Inl ''ldap search timed out'', snd (closeConn d h w1)))"

definition searchWithTimeout :: "'w directory \<Rightarrow> string \<Rightarrow> Client \<Rightarrow> 'w \<Rightarrow> (errs + entry list) \<times> Client \<times> 'w" where
  "searchWithTimeout d flt c w =
     (case conn c of
        None \<Rightarrow> (Inl [''no ldap connection''], c, w)
      | Some h \<Rightarrow>
          (case searchOnce d c h flt w of
             (Inr es, w1) \<Rightarrow> (Inr es, c, w1)
           | (Inl e, w1) \<Rightarrow>
               let (ce, w2) = closeConn d h w1;
                   errs1 = [e] @ (case ce of None \<Rightarrow> [] | Some x \<Rightarrow> [x])
               in (case connectLocked d (c\<lparr>conn := None\<rparr>) w2 of
                     (Some re, c1, w3) \<Rightarrow> (Inl (errs1 @ re), c1, w3)
                   | (None, c1, w3) \<Rightarrow>
                       (case conn c1 of
                          None \<Rightarrow> (Inl errs1, c1, w3)
                        | Some h1 \<Rightarrow>
                            (case searchOnce d c1 h1 flt w3 of
                               (Inr es, w4) \<Rightarrow> (Inr es, c1, w4)
                             | (Inl e2, w4) \<Rightarrow> (Inl (errs1 @ [e2]), c1\<lparr>conn := None\<rparr>, w4))))))"

subsection \<open>Verifying a user\<close>

definition check_entry :: "time \<Rightarrow> entry \<Rightarrow> string option" where
  "check_entry now en =
     (let disabled = (case ParseInt 64 (en ''userAccountControl'') of (uac, None) \<Rightarrow> uac AND 2 \<noteq> 0 | (_, Some _) \<Rightarrow> False);
          expired = (en ''accountExpires'' \<noteq> [] \<and>
            (case ParseInt 64 (en ''accountExpires'') of
               (v, None) \<Rightarrow> v \<noteq> 0 \<and> v \<noteq> max_int64 \<and> file_time_ms v * 1000000 < now
             | (_, Some _) \<Rightarrow> False))
      in if disabled then Some ''user is disabled'' else if expired then Some ''user account is expired'' else None)"

definition VerifyUser :: "'w directory \<Rightarrow> time \<Rightarrow> string \<Rightarrow> Client \<Rightarrow> 'w \<Rightarrow> errs option \<times> Client \<times> 'w" where
  "VerifyUser d now username c w =
     (if username = [] then (Some [''empty username''], c, w)
      else case connectLocked d c w of
        (Some e, c1, w1) \<Rightarrow> (Some e, c1, w1)
      | (None, c1, w1) \<Rightarrow>
          (case searchWithTimeout d (''(sAMAccountName='' @ escapeFilter d username @ '')'') c1 w1 of
             (Inl e, c2, w2) \<Rightarrow> (Some e, c2, w2)
           | (Inr [], c2, w2) \<Rightarrow> (Some [''user not found''], c2, w2)
           | (Inr (en # _), c2, w2) \<Rightarrow>
               (case check_entry now en of Some e \<Rightarrow> (Some [e], c2, w2) | None \<Rightarrow> (None, c2, w2))))"

subsection \<open>Facts\<close>

lemma hex_digit_kept: "n < 16 \<Longrightarrow> hex_digit n \<noteq> CHR ''{'' \<and> hex_digit n \<noteq> CHR ''}'' \<and> hex_digit n \<noteq> CHR ''-''"
proof -
  assume "n < 16"
  then have "of_char (hex_digit n) = (if n < 10 then 48 + n else 55 + n)" by (simp add: hex_digit_def)
  then have r: "48 \<le> (of_char (hex_digit n) :: nat) \<and> (of_char (hex_digit n) :: nat) \<le> 70" using \<open>n < 16\<close> by simp
  have "(of_char CHR ''{'' :: nat) = 123" "(of_char CHR ''}'' :: nat) = 125" "(of_char CHR ''-'' :: nat) = 45" by simp_all
  with r show ?thesis by auto
qed

lemma strip_hex2 [simp]: "guidStripReplacer (hex2 b @ s) = hex2 b @ guidStripReplacer s"
proof -
  have "unat b div 16 < 16" "unat b mod 16 < 16" using unat_byte_less [of b] by (simp_all add: less_mult_imp_div_less)
  then show ?thesis using hex_digit_kept by (simp add: guidStripReplacer_def hex2_def)
qed

lemma strip_dash [simp]: "guidStripReplacer (CHR ''-'' # s) = guidStripReplacer s" "guidStripReplacer [] = []"
  by (simp_all add: guidStripReplacer_def)

lemma strip_hex2_last [simp]: "guidStripReplacer (hex2 b) = hex2 b"
  using strip_hex2 [of b "[]"] by simp

lemma take_16: "length g \<ge> 16 \<Longrightarrow>
    take 16 g = [g ! 0, g ! 1, g ! 2, g ! 3, g ! 4, g ! 5, g ! 6, g ! 7, g ! 8, g ! 9, g ! 10, g ! 11, g ! 12, g ! 13, g ! 14, g ! 15]"
proof -
  assume "length g \<ge> 16"
  then have "take 16 g = map ((!) g) [0..<16]" by (intro nth_equalityI) auto
  then show ?thesis by (simp add: upt_rec eval_nat_numeral)
qed

lemma connectLocked_config: "connectLocked d c w = (e, c', w') \<Longrightarrow> config c' = config c"
  by (auto simp: connectLocked_def split: option.splits prod.splits sum.splits)

lemma uac_disable_bit: "(uac AND 2 \<noteq> 0) = bit uac 1" for uac :: int
  using and_exp_eq_0_iff_not_bit [of uac 1] by simp

subsection \<open>Properties\<close>

text \<open>
  An entry that is not barred: no readable control word has the disable bit on, and no readable expiration is past.  An entry whose \<^verbatim>\<open>userAccountControl\<close> is
  missing or not a number is not barred, although the comment of \<^verbatim>\<open>VerifyUser\<close> says the account is checked to be enabled (\<open>VerifyUser_fails_open\<close>).
\<close>

definition not_barred :: "time \<Rightarrow> entry \<Rightarrow> bool" where
  "not_barred now en \<longleftrightarrow>
     (\<forall>uac. ParseInt 64 (en ''userAccountControl'') = (uac, None) \<longrightarrow> \<not> bit uac 1) \<and>
     (\<forall>v. ParseInt 64 (en ''accountExpires'') = (v, None) \<longrightarrow> v = 0 \<or> v = max_int64 \<or> now \<le> file_time_ms v * 1000000)"

lemma check_entry_passes: "check_entry now en = None \<longleftrightarrow> not_barred now en"
proof -
  have e: "en ''accountExpires'' = [] \<Longrightarrow> ParseInt 64 (en ''accountExpires'') = (0, Some SyntaxError)"
    by (simp add: ParseInt_def)
  show ?thesis
    by (cases "ParseInt 64 (en ''userAccountControl'')"; cases "ParseInt 64 (en ''accountExpires'')")
       (use e in \<open>auto simp: check_entry_def not_barred_def Let_def uac_disable_bit not_less split: option.splits\<close>)
qed

text \<open>
  The searches a call really makes.  \<open>logged d\<close> is the directory \<open>d\<close> with a list in its world to which every search is appended, with its connection, base,
  filter and answer; nothing else changes.
\<close>

type_synonym search_log = "(nat \<times> string \<times> string \<times> search_outcome) list"

definition logged :: "'w directory \<Rightarrow> ('w \<times> search_log) directory" where
  "logged d = \<lparr>parseUrl = parseUrl d,
     dialURL = (\<lambda>t i url (w, l). case dialURL d t i url w of (r, w') \<Rightarrow> (r, w', l)),
     bind = (\<lambda>h a b (w, l). case bind d h a b w of (r, w') \<Rightarrow> (r, w', l)),
     search = (\<lambda>h base flt (w, l). case search d h base flt w of (r, w') \<Rightarrow> (r, w', l @ [(h, base, flt, r)])),
     closeConn = (\<lambda>h (w, l). case closeConn d h w of (r, w') \<Rightarrow> (r, w', l)), escapeFilter = escapeFilter d\<rparr>"

lemma logged_simps [simp]:
  "parseUrl (logged d) = parseUrl d" "escapeFilter (logged d) = escapeFilter d"
  "dialURL (logged d) t i url (w, l) = (case dialURL d t i url w of (r, w') \<Rightarrow> (r, w', l))"
  "bind (logged d) h a b (w, l) = (case bind d h a b w of (r, w') \<Rightarrow> (r, w', l))"
  "search (logged d) h base flt (w, l) = (case search d h base flt w of (r, w') \<Rightarrow> (r, w', l @ [(h, base, flt, r)]))"
  "closeConn (logged d) h (w, l) = (case closeConn d h w of (r, w') \<Rightarrow> (r, w', l))"
  by (simp_all add: logged_def)

lemma dial_logged: "dial (logged d) c (w, l) = (case dial d c w of (r, w') \<Rightarrow> (r, w', l))"
  by (simp add: dial_def Let_def split: sum.split prod.split option.split)

lemma connectLocked_logged: "connectLocked (logged d) c (w, l) = (case connectLocked d c w of (e, c', w') \<Rightarrow> (e, c', w', l))"
  by (simp add: connectLocked_def dial_logged split: sum.split prod.split option.split)

lemma searchOnce_logged:
  "searchOnce (logged d) c h flt (w, l) =
     (case searchOnce d c h flt w of (r, w') \<Rightarrow> (r, w', l @ [(h, Base (config c), flt, fst (search d h (Base (config c)) flt w))]))"
  by (simp add: searchOnce_def split: prod.split search_outcome.split)

lemma searchOnce_answer: "searchOnce d c h flt w = (Inr es, w') \<Longrightarrow> fst (search d h (Base (config c)) flt w) = Entries es"
  by (auto simp: searchOnce_def split: prod.splits search_outcome.splits)

text \<open>What a search with its reconnection adds to the log; an answer is that of the last search.\<close>

lemma searchWithTimeout_logged:
  "\<exists>l'. searchWithTimeout (logged d) flt c (w, l) = (case searchWithTimeout d flt c w of (r, c', w') \<Rightarrow> (r, c', w', l @ l')) \<and>
     (\<forall>es. fst (searchWithTimeout d flt c w) = Inr es \<longrightarrow> (\<exists>h l''. l' = l'' @ [(h, Base (config c), flt, Entries es)]))"
proof (cases "conn c")
  case None
  then show ?thesis by (simp add: searchWithTimeout_def)
next
  case (Some h)
  obtain r w1 where s: "searchOnce d c h flt w = (r, w1)" by (metis surj_pair)
  let ?a = "(h, Base (config c), flt, fst (search d h (Base (config c)) flt w))"
  show ?thesis
  proof (cases r)
    case (Inr es)
    then show ?thesis using Some s searchOnce_answer [of d c h flt w es w1]
      by (intro exI [of _ "[?a]"]) (simp add: searchWithTimeout_def searchOnce_logged)
  next
    case (Inl e)
    obtain ce w2 where cl: "closeConn d h w1 = (ce, w2)" by (metis surj_pair)
    obtain x c1 w3 where k: "connectLocked d (c\<lparr>conn := None\<rparr>) w2 = (x, c1, w3)" by (metis surj_pair)
    have cfg: "config c1 = config c" using connectLocked_config [OF k] by simp
    show ?thesis
    proof (cases "x = None \<and> conn c1 \<noteq> None")
      case False
      then show ?thesis using Some s Inl cl k
        by (intro exI [of _ "[?a]"])
           (auto simp: searchWithTimeout_def searchOnce_logged connectLocked_logged Let_def split: option.split)
    next
      case True
      then obtain h1 where h1: "x = None" "conn c1 = Some h1" by blast
      obtain r2 w4 where s2: "searchOnce d c1 h1 flt w3 = (r2, w4)" by (metis surj_pair)
      let ?b = "(h1, Base (config c), flt, fst (search d h1 (Base (config c)) flt w3))"
      show ?thesis using Some s Inl cl k h1 s2 cfg searchOnce_answer [of d c1 h1 flt w3 _ w4]
        by (intro exI [of _ "[?a, ?b]"])
           (auto simp: searchWithTimeout_def searchOnce_logged connectLocked_logged Let_def split: sum.split)
    qed
  qed
qed

definition user_filter :: "'w directory \<Rightarrow> string \<Rightarrow> string" where
  "user_filter d username = ''(sAMAccountName='' @ escapeFilter d username @ '')''"

definition searches_made :: "'w directory \<Rightarrow> time \<Rightarrow> string \<Rightarrow> Client \<Rightarrow> 'w \<Rightarrow> search_log" where
  "searches_made d now username c w = snd (snd (snd (VerifyUser (logged d) now username c (w, []))))"

lemma user_filter_logged [simp]: "user_filter (logged d) = user_filter d"
  by (simp add: user_filter_def fun_eq_iff)

lemma VerifyUser_search:
  assumes "user \<noteq> []" and "connectLocked d c w = (None, c1, w1)"
  shows "VerifyUser d now user c w =
     (case searchWithTimeout d (user_filter d user) c1 w1 of
        (Inl e, c2, w2) \<Rightarrow> (Some e, c2, w2)
      | (Inr [], c2, w2) \<Rightarrow> (Some [''user not found''], c2, w2)
      | (Inr (en # _), c2, w2) \<Rightarrow> (case check_entry now en of Some e \<Rightarrow> (Some [e], c2, w2) | None \<Rightarrow> (None, c2, w2)))"
  using assms by (simp add: VerifyUser_def user_filter_def)

lemma VerifyUser_logged:
  "\<exists>l'. VerifyUser (logged d) now user c (w, l) = (case VerifyUser d now user c w of (r, c', w') \<Rightarrow> (r, c', w', l @ l')) \<and>
     (fst (VerifyUser d now user c w) = None \<longrightarrow>
        user \<noteq> [] \<and> (\<exists>h en es l''. l' = l'' @ [(h, Base (config c), user_filter d user, Entries (en # es))] \<and> not_barred now en))"
proof (cases "user = []")
  case True
  then show ?thesis by (simp add: VerifyUser_def)
next
  case False
  obtain x c1 w1 where k: "connectLocked d c w = (x, c1, w1)" by (metis surj_pair)
  show ?thesis
  proof (cases x)
    case (Some e)
    then show ?thesis using False k by (simp add: VerifyUser_def connectLocked_logged)
  next
    case None
    obtain l' where l': "searchWithTimeout (logged d) (user_filter d user) c1 (w1, l) =
        (case searchWithTimeout d (user_filter d user) c1 w1 of (r, c', w') \<Rightarrow> (r, c', w', l @ l'))"
      and a: "\<forall>es. fst (searchWithTimeout d (user_filter d user) c1 w1) = Inr es \<longrightarrow>
        (\<exists>h l''. l' = l'' @ [(h, Base (config c1), user_filter d user, Entries es)])"
      using searchWithTimeout_logged [of d "user_filter d user" c1 w1 l] by blast
    obtain r c2 w2 where s: "searchWithTimeout d (user_filter d user) c1 w1 = (r, c2, w2)" by (metis surj_pair)
    have cfg: "config c1 = config c" using connectLocked_config [OF k] .
    have "connectLocked (logged d) c (w, l) = (None, c1, w1, l)" using k None by (simp add: connectLocked_logged)
    note v = VerifyUser_search [OF False this, of now] VerifyUser_search [OF False k [unfolded None], of now]
    show ?thesis
    proof (cases "\<exists>en es. r = Inr (en # es)")
      case True
      then obtain en es where r: "r = Inr (en # es)" by blast
      show ?thesis using False l' a s r cfg
        by (intro exI [of _ l']) (auto simp: v check_entry_passes [symmetric] split: option.split)
    next
      case no: False
      then show ?thesis using l' s by (intro exI [of _ l']) (auto simp: v split: sum.split list.split)
    qed
  qed
qed

text \<open>
  Acceptance is the answer of the last search the call made: it was under the configured base, for exactly this account name, escaped, and its first entry is
  not barred.
\<close>

lemma VerifyUser_accepts:
  assumes "VerifyUser d now user c w = (None, c', w')"
  shows "user \<noteq> [] \<and> (\<exists>h en es l. searches_made d now user c w = l @ [(h, Base (config c), user_filter d user, Entries (en # es))] \<and> not_barred now en)"
  using VerifyUser_logged [of d now user c w "[]"] assms by (auto simp: searches_made_def)

text \<open>
  \<^verbatim>\<open>VerifyUser\<close> accepts only what the directory answered.  Whatever connection state it starts from and whether or not it
  had to reconnect, acceptance means that the name is not empty and that the last search it made, under the configured
  base for exactly this account name, escaped, returned a first entry that is not barred; and
  such an answer is never refused.
\<close>
theorem VerifyUser_sound:
  "(\<forall>c' w'. VerifyUser d now user c w = (None, c', w') \<longrightarrow>
      user \<noteq> [] \<and> (\<exists>h en es l. searches_made d now user c w = l @ [(h, Base (config c), user_filter d user, Entries (en # es))] \<and>
        not_barred now en)) \<and>
   (\<forall>h en es w2. user \<noteq> [] \<and> conn c = Some h \<and> not_barred now en \<and>
      search d h (Base (config c)) (user_filter d user) w = (Entries (en # es), w2) \<longrightarrow>
      VerifyUser d now user c w = (None, c, w2))"
proof (rule conjI)
  show "\<forall>c' w'. VerifyUser d now user c w = (None, c', w') \<longrightarrow>
      user \<noteq> [] \<and> (\<exists>h en es l. searches_made d now user c w = l @ [(h, Base (config c), user_filter d user, Entries (en # es))] \<and> not_barred now en)"
    by (intro allI impI) (rule VerifyUser_accepts)
  show "\<forall>h en es w2. user \<noteq> [] \<and> conn c = Some h \<and> not_barred now en \<and>
      search d h (Base (config c)) (user_filter d user) w = (Entries (en # es), w2) \<longrightarrow> VerifyUser d now user c w = (None, c, w2)"
    by (simp add: VerifyUser_def connectLocked_def searchWithTimeout_def searchOnce_def user_filter_def check_entry_passes [symmetric])
qed

definition demo_dir :: "entry \<Rightarrow> unit directory" where
  "demo_dir en = \<lparr>parseUrl = (\<lambda>_. Inl ''bad''), dialURL = (\<lambda>_ _ _ w. (Inl ''down'', w)), bind = (\<lambda>_ _ _ w. (None, w)),
     search = (\<lambda>_ _ _ w. (Entries [en], w)), closeConn = (\<lambda>_ w. (None, w)), escapeFilter = id\<rparr>"

definition demo_ldap :: Client where
  "demo_ldap = \<lparr>config = \<lparr>Url = ''ldap://x'', User = [], Pass = [], Base = ''dc=x'', Insecure = False, SearchTimeout = []\<rparr>,
     searchTimeout = 10000000000, conn = Some 7\<rparr>"

text \<open>An enabled account that expires far in the future.\<close>

definition demo_entry :: entry where
  "demo_entry n = (if n = ''userAccountControl'' then ''512'' else if n = ''accountExpires'' then ''0'' else [])"

theorem VerifyUser_sound_witness: "VerifyUser (demo_dir demo_entry) 5 ''bob'' demo_ldap () = (None, demo_ldap, ())"
proof -
  have "not_barred 5 demo_entry"
    by (simp add: not_barred_def demo_entry_def ParseInt_def is_digit_def digits_val_def digit_val_def bit_iff_odd)
  then show ?thesis
    using VerifyUser_sound [of "demo_dir demo_entry" 5 "''bob''" demo_ldap "()"] by (simp add: demo_dir_def demo_ldap_def user_filter_def)
qed

text \<open>
  A GUID survives the way through its printed form: for every 16-byte GUID, the octet string built from its dashed print is the
  escaped bytes in their original order, so that a search filter made of it finds the object.
\<close>
theorem guid_round_trip:
  assumes "length guid = 16"
  shows "GuidToOctetString (ConvertToDashedString guid) = concat (map (\<lambda>b. CHR 0x5C # hex2 b) guid) \<and>
         guidStripReplacer (ConvertToDashedString guid) \<noteq> [] \<and> length (guidStripReplacer (ConvertToDashedString guid)) = 32"
proof -
  have g: "guid = [guid ! 0, guid ! 1, guid ! 2, guid ! 3, guid ! 4, guid ! 5, guid ! 6, guid ! 7, guid ! 8, guid ! 9, guid ! 10,
      guid ! 11, guid ! 12, guid ! 13, guid ! 14, guid ! 15]" using take_16 [of guid] assms by simp
  have s: "guidStripReplacer (ConvertToDashedString guid) =
      concat (map hex2 [guid ! 3, guid ! 2, guid ! 1, guid ! 0, guid ! 5, guid ! 4, guid ! 7, guid ! 6, guid ! 8, guid ! 9, guid ! 10,
        guid ! 11, guid ! 12, guid ! 13, guid ! 14, guid ! 15])"
    using assms by (simp add: ConvertToDashedString_def)
  have "concat (map (\<lambda>b. CHR 0x5C # hex2 b) guid) = GuidToOctetString (ConvertToDashedString guid)"
    by (subst g) (simp add: GuidToOctetString_def s guid_idxs_def hex2_def)
  then show ?thesis by (simp add: s hex2_def)
qed

theorem guid_round_trip_witness:
  "GuidToOctetString (ConvertToDashedString (replicate 15 1 @ [255])) = concat (map (\<lambda>b. CHR 0x5C # hex2 b) (replicate 15 1 @ [255]))"
  using guid_round_trip [of "replicate 15 1 @ [255]"] by simp

text \<open>
  \<^verbatim>\<open>VerifyUser\<close> fails open: an entry whose \<^verbatim>\<open>userAccountControl\<close> is missing or not a decimal number is accepted as an enabled
  account, although the function is documented to check that the account is enabled.
\<close>
theorem VerifyUser_fails_open:
  "VerifyUser (demo_dir (\<lambda>_. [])) now ''bob'' demo_ldap () = (None, demo_ldap, ()) \<and>
   VerifyUser (demo_dir (\<lambda>n. if n = ''userAccountControl'' then ''0x202'' else [])) now ''bob'' demo_ldap () = (None, demo_ldap, ())"
  by (simp add: VerifyUser_def connectLocked_def searchWithTimeout_def searchOnce_def check_entry_def demo_dir_def demo_ldap_def
      ParseInt_def is_digit_def)

subsection \<open>Dates of an entry\<close>

definition stamp :: "nat \<Rightarrow> nat \<Rightarrow> nat \<Rightarrow> nat \<Rightarrow> nat \<Rightarrow> nat \<Rightarrow> string" where
  "stamp y mo d h mi sec = padded 4 y @ padded 2 mo @ padded 2 d @ padded 2 h @ padded 2 mi @ padded 2 sec @ ''Z''"

lemma lawful_utc: "lawful_location utc_location"
  by (auto simp: lawful_location_def utc_location_def)

lemma digit_chars:
  "digit 0 = CHR ''0''" "digit (Suc 0) = CHR ''1''" "digit 2 = CHR ''2''" "digit 3 = CHR ''3''" "digit 4 = CHR ''4''"
  "digit 5 = CHR ''5''" "digit 6 = CHR ''6''" "digit 7 = CHR ''7''" "digit 8 = CHR ''8''" "digit 9 = CHR ''9''"
  by code_simp+

lemma getDateFromString_digits:
  assumes "lawful_location (novosibirskLoc dts)" and "y < 10000" and "valid_date (int y) mo (int d)" and "h < 24" and "mi < 60" and "sec < 60"
      and "\<bar>t\<bar> < 2 ^ 62" and "t + offset_at (novosibirskLoc dts) t = clock (int y) mo (int d) h mi sec"
  shows "getDateFromString dts (stamp y mo d h mi sec) = date_text y mo d '' '' h mi sec"
proof -
  let ?w = "clock (int y) mo (int d) h mi sec"
  have "show_date (novosibirskLoc dts) '' '' (Date_unix (novosibirskLoc dts) ?w) = date_text y mo d '' '' h mi sec"
    using Date_unix_wall [OF assms(1) clock_small [OF assms(2-6)] assms(8,7)] by (intro show_date_clock [OF assms(3-6)]) simp
  then show ?thesis using parse_stamp_padded [OF assms(2-6)] by (simp add: getDateFromString_def stamp_def format_CpgDateTime_def)
qed

text \<open>
  C34: The two texts of a creation date: every stamp of the years before 10000 that is a date and a time of day is shown with its own digits, by
  \<^verbatim>\<open>getDateFromString\<close> in whatever zone it is loaded with, provided the reading occurs there (it is not skipped by a change of the clocks), and by
  \<^verbatim>\<open>getDateFromStringT\<close> always.
\<close>

theorem stamp_shown:
  assumes "lawful_location (novosibirskLoc dts)" and "y < 10000" and "valid_date (int y) mo (int d)" and "h < 24" and "mi < 60" and "sec < 60"
      and "\<bar>t\<bar> < 2 ^ 62" and "t + offset_at (novosibirskLoc dts) t = clock (int y) mo (int d) h mi sec"
  shows "getDateFromString dts (stamp y mo d h mi sec) = date_text y mo d '' '' h mi sec \<and>
         getDateFromStringT (stamp y mo d h mi sec) = date_text y mo d ''T'' h mi sec @ ''.000Z''"
proof -
  let ?w = "clock (int y) mo (int d) h mi sec"
  have w: "\<bar>?w\<bar> < 2 ^ 61" by (rule clock_small [OF assms(2-6)])
  have "?w + offset_at utc_location ?w = ?w" "\<bar>?w\<bar> < 2 ^ 62" using w by (simp_all add: offset_at_def utc_location_def)
  then have "show_date utc_location ''T'' (Date_unix utc_location ?w) = date_text y mo d ''T'' h mi sec"
    using Date_unix_wall [OF lawful_utc w, of ?w] by (intro show_date_clock [OF assms(3-6)]) simp
  moreover have "padded 3 0 = ''000''" by (simp add: padded_def utoa.simps digit_chars numeral_2_eq_2)
  ultimately show ?thesis
    using parse_stamp_padded [OF assms(2-6)] getDateFromString_digits [OF assms]
    by (simp add: getDateFromStringT_def stamp_def format_CpgDateTimeT_def)
qed

text \<open>A zone seven hours ahead of universal time.\<close>

definition seven_hours :: location where
  "seven_hours t = (25200, - (2 ^ 63), 2 ^ 63 - 1)"

lemma seven_hours_facts: "lawful_location seven_hours" "offset_at seven_hours t = 25200"
  by (auto simp: lawful_location_def seven_hours_def offset_at_def)

lemma demo_date:
  "valid_date (int 2024) 3 (int 4)" "clock (int 2024) 3 (int 4) 5 18 4 = 1709529484" "clock (int 2024) 3 (int 4) 12 18 4 = 1709554684"
  by (simp_all add: valid_date_def days_in_def clock_def days_of_def year_start_def month_lengths_def leap_def)

theorem stamp_shown_witness:
  "getDateFromString \<lparr>localLoc = utc_location, novosibirskLoc = seven_hours\<rparr> (stamp 2024 3 4 5 18 4) = date_text 2024 3 4 '' '' 5 18 4 \<and>
   getDateFromStringT (stamp 2024 3 4 5 18 4) = date_text 2024 3 4 ''T'' 5 18 4 @ ''.000Z''"
  by (rule stamp_shown [where t = "1709529484 - 25200"]) (use seven_hours_facts demo_date in simp_all)

text \<open>The value of a file time shows its second in the local zone.\<close>

lemma file_time_shown:
  assumes "0 < 10000000 * (u + 11644473600)" and "10000000 * (u + 11644473600) < max_int64"
  shows "getTSFromLong dts (Itoa (10000000 * (u + 11644473600))) = show_date (localLoc dts) '' '' u"
proof -
  let ?v = "10000000 * (u + 11644473600)"
  have p: "ParseInt 64 (Itoa ?v) = (?v, None)" using assms by (intro ParseInt_Itoa) (simp_all add: max_int64_def)
  have "go_div ?v 10000 = 1000 * (u + 11644473600)" using assms(1) by (simp add: go_div_def)
  then have "UnixMilli (file_time_ms ?v) = (u, 0)" by (simp add: UnixMilli_def file_time_ms_def)
  moreover have "Itoa ?v \<noteq> ''0''" "Itoa ?v \<noteq> []" "Itoa ?v \<noteq> Itoa max_int64"
  proof -
    have "''0'' = Itoa 0" by (simp add: Itoa_def utoa.simps digit_chars)
    then show "Itoa ?v \<noteq> ''0''" "Itoa ?v \<noteq> Itoa max_int64" using assms by simp_all
    show "Itoa ?v \<noteq> []" by (simp add: Itoa_def)
  qed
  ultimately show ?thesis using p by (simp add: getTSFromLong_def format_CpgDateTime_def)
qed

text \<open>
  A stamp is universal time, and so is a file time; shown by these functions in a zone seven hours ahead, one instant gets two texts: the creation date
  keeps the universal reading, the time of the last logon is converted.
\<close>

theorem one_instant_two_texts:
  "getDateFromString \<lparr>localLoc = seven_hours, novosibirskLoc = seven_hours\<rparr> ''20240304051804Z'' = ''2024-03-04 05:18:04'' \<and>
   getTSFromLong \<lparr>localLoc = seven_hours, novosibirskLoc = seven_hours\<rparr> ''133540030840000000'' = ''2024-03-04 12:18:04''"
proof -
  let ?d = "\<lparr>localLoc = seven_hours, novosibirskLoc = seven_hours\<rparr>"
  have s: "''20240304051804Z'' = stamp 2024 3 4 5 18 4" "date_text 2024 3 4 '' '' 5 18 4 = ''2024-03-04 05:18:04''"
    "date_text 2024 3 4 '' '' 12 18 4 = ''2024-03-04 12:18:04''" "''133540030840000000'' = Itoa (10000000 * (1709529484 + 11644473600))"
    by (simp_all add: stamp_def date_text_def padded_def Itoa_def utoa.simps digit_chars)
  have "getDateFromString ?d (stamp 2024 3 4 5 18 4) = date_text 2024 3 4 '' '' 5 18 4"
    by (rule getDateFromString_digits [where t = "1709529484 - 25200"]) (use seven_hours_facts demo_date in simp_all)
  moreover have "show_date seven_hours '' '' 1709529484 = date_text 2024 3 4 '' '' 12 18 4"
    by (rule show_date_clock [OF demo_date(1)]) (use seven_hours_facts demo_date in simp_all)
  moreover have "getTSFromLong ?d (Itoa (10000000 * (1709529484 + 11644473600))) = show_date (localLoc ?d) '' '' 1709529484"
    by (rule file_time_shown) (simp_all add: max_int64_def)
  ultimately show ?thesis unfolding s by simp
qed

end
