(* ===== verification/LdapPool.thy ===== *)
theory LdapPool
  imports Ldap
begin

section \<open>Concurrent calls of one LDAP client\<close>

text \<open>
  The client of \<^verbatim>\<open>ldap/client.go\<close> is shared by the requests of a web server.  Its mutex guards the field \<^verbatim>\<open>conn\<close> only: it is released while
  \<^verbatim>\<open>connectLocked\<close> dials and while a search runs.  Here any number of calls of \<^verbatim>\<open>VerifyUser\<close> and \<^verbatim>\<open>Close\<close> interleave, one critical section or
  one call of the directory at a time.  Shown: acceptance means what it means for a single call, connections are lost only by second searches that
  fail with an error, a call that runs undisturbed does what \<open>VerifyUser\<close> of \<open>Ldap\<close> says; and a run in which a call ends the program.
\<close>

subsection \<open>The sections of a call\<close>

text \<open>
  Where a call stands: what it does next, with its local variables.  The dialling sections carry \<^const>\<open>None\<close> in the first connection of
  \<^verbatim>\<open>VerifyUser\<close> and the errors so far in the reconnection.  \<open>VCrashed\<close> is a search on a nil connection, in a goroutine of its own: a panic that
  ends the program.
\<close>

datatype vpc =
    VBegin
  | VDial "errs option"
  | VStore "errs option" nat
  | VRead1
  | VSearch1 nat
  | VClose1 nat string
  | VReset1 nat errs
  | VConnect2 errs
  | VRead2 errs
  | VSearch2 nat errs
  | VReset2 nat errs
  | VReturned "errs option"
  | VCrashed

text \<open>What \<^verbatim>\<open>VerifyUser\<close> answers for the entries found.\<close>

fun judge :: "time \<Rightarrow> entry list \<Rightarrow> errs option" where
  "judge now [] = Some [''user not found'']"
| "judge now (en # _) = map_option (\<lambda>e. [e]) (check_entry now en)"

text \<open>Where a call goes on once it is connected.\<close>

fun connected :: "errs option \<Rightarrow> vpc" where
  "connected None = VRead1"
| "connected (Some es) = VRead2 es"

definition forget :: "nat \<Rightarrow> Client \<Rightarrow> Client" where
  "forget h c = (if conn c = Some h then c\<lparr>conn := None\<rparr> else c)"

fun call_exec :: "'w directory \<Rightarrow> time \<Rightarrow> string \<Rightarrow> vpc \<Rightarrow> Client \<Rightarrow> 'w \<Rightarrow> vpc \<times> Client \<times> 'w" where
  "call_exec d now u VBegin c w =
     (if u = [] then (VReturned (Some [''empty username'']), c, w)
      else case conn c of Some _ \<Rightarrow> (VRead1, c, w) | None \<Rightarrow> (VDial None, c, w))"
| "call_exec d now u (VDial k) c w =
     (case dial d c w of
        (Inl e, w1) \<Rightarrow> (VReturned (Some (case k of None \<Rightarrow> e | Some es \<Rightarrow> es @ e)), c, w1)
      | (Inr h, w1) \<Rightarrow> (VStore k h, c, w1))"
| "call_exec d now u (VStore k h) c w =
     (case conn c of
        Some _ \<Rightarrow> (connected k, c, snd (closeConn d h w))
      | None \<Rightarrow> (connected k, c\<lparr>conn := Some h\<rparr>, w))"
| "call_exec d now u VRead1 c w =
     (case conn c of None \<Rightarrow> (VReturned (Some [''no ldap connection'']), c, w) | Some h \<Rightarrow> (VSearch1 h, c, w))"
| "call_exec d now u (VSearch1 h) c w =
     (case searchOnce d c h (user_filter d u) w of
        (Inr es, w1) \<Rightarrow> (VReturned (judge now es), c, w1)
      | (Inl e, w1) \<Rightarrow> (VClose1 h e, c, w1))"
| "call_exec d now u (VClose1 h e) c w =
     (let (ce, w1) = closeConn d h w in (VReset1 h ([e] @ (case ce of None \<Rightarrow> [] | Some x \<Rightarrow> [x])), c, w1))"
| "call_exec d now u (VReset1 h es) c w = (VConnect2 es, forget h c, w)"
| "call_exec d now u (VConnect2 es) c w =
     (case conn c of Some _ \<Rightarrow> (VRead2 es, c, w) | None \<Rightarrow> (VDial (Some es), c, w))"
| "call_exec d now u (VRead2 es) c w = (case conn c of None \<Rightarrow> (VCrashed, c, w) | Some h \<Rightarrow> (VSearch2 h es, c, w))"
| "call_exec d now u (VSearch2 h es) c w =
     (case searchOnce d c h (user_filter d u) w of
        (Inr en, w1) \<Rightarrow> (VReturned (judge now en), c, w1)
      | (Inl e, w1) \<Rightarrow> (VReset2 h (es @ [e]), c, w1))"
| "call_exec d now u (VReset2 h es) c w = (VReturned (Some es), forget h c, w)"
| "call_exec d now u (VReturned r) c w = (VReturned r, c, w)"
| "call_exec d now u VCrashed c w = (VCrashed, c, w)"

subsection \<open>Calls that interleave\<close>

text \<open>\<open>abandoned\<close> is ghost: the connections on which a second search ended with an error of the directory.\<close>

record 'w pool =
  client :: Client
  world :: 'w
  calls :: "(string \<times> vpc) list"
  abandoned :: "nat set"

datatype event = Verify string | Move nat time | CloseClient

definition gave_up :: "'w directory \<Rightarrow> Client \<Rightarrow> string \<Rightarrow> 'w \<Rightarrow> vpc \<Rightarrow> nat set" where
  "gave_up d c u w p =
     (case p of
        VSearch2 h _ \<Rightarrow> (case fst (search d h (Base (config c)) (user_filter d u) w) of SearchError _ \<Rightarrow> {h} | _ \<Rightarrow> {})
      | _ \<Rightarrow> {})"

definition crashed :: "'w pool \<Rightarrow> bool" where
  "crashed p \<longleftrightarrow> VCrashed \<in> snd ` set (calls p)"

definition move :: "'w directory \<Rightarrow> nat \<Rightarrow> time \<Rightarrow> 'w pool \<Rightarrow> 'w pool" where
  "move d i now p =
     (let (u, q) = calls p ! i; (q', c', w') = call_exec d now u q (client p) (world p)
      in p\<lparr>client := c', world := w', calls := (calls p)[i := (u, q')],
           abandoned := abandoned p \<union> gave_up d (client p) u (world p) q\<rparr>)"

definition pool_exec :: "'w directory \<Rightarrow> event \<Rightarrow> 'w pool \<Rightarrow> 'w pool" where
  "pool_exec d e p =
     (if crashed p then p
      else case e of
        Verify u \<Rightarrow> p\<lparr>calls := calls p @ [(u, VBegin)]\<rparr>
      | Move i now \<Rightarrow> if i < length (calls p) then move d i now p else p
      | CloseClient \<Rightarrow> (case Close d (client p) (world p) of (_, c', w') \<Rightarrow> p\<lparr>client := c', world := w'\<rparr>))"

definition fresh_pool :: "Client \<Rightarrow> 'w \<Rightarrow> 'w pool" where
  "fresh_pool c w = \<lparr>client = c, world = w, calls = [], abandoned = {}\<rparr>"

definition run_pool :: "'w directory \<Rightarrow> event list \<Rightarrow> Client \<Rightarrow> 'w \<Rightarrow> 'w pool" where
  "run_pool d es c w = fold (pool_exec d) es (fresh_pool c w)"

text \<open>
  What the directory library documents: dialling gives a new connection, closing closes it, nothing else opens or closes one.  \<open>opens\<close> reads
  the open connections off the world, \<open>issued\<close> all there have been; two connections are never equal.
\<close>

definition lawful_directory :: "'w directory \<Rightarrow> ('w \<Rightarrow> nat set) \<Rightarrow> ('w \<Rightarrow> nat set) \<Rightarrow> bool" where
  "lawful_directory d opens issued \<longleftrightarrow>
     (\<forall>t i url w r w'. dialURL d t i url w = (r, w') \<longrightarrow>
        (case r of Inl _ \<Rightarrow> opens w' = opens w \<and> issued w' = issued w
         | Inr h \<Rightarrow> h \<notin> issued w \<and> opens w' = insert h (opens w) \<and> issued w' = insert h (issued w))) \<and>
     (\<forall>h a b w. opens (snd (bind d h a b w)) = opens w \<and> issued (snd (bind d h a b w)) = issued w) \<and>
     (\<forall>h a b w. opens (snd (search d h a b w)) = opens w \<and> issued (snd (search d h a b w)) = issued w) \<and>
     (\<forall>h w. opens (snd (closeConn d h w)) = opens w - {h} \<and> issued (snd (closeConn d h w)) = issued w)"


subsection \<open>One section\<close>

lemma forget_config [simp]: "config (forget h c) = config c"
  by (simp add: forget_def)

lemma call_config: "call_exec d now u p c w = (p', c', w') \<Longrightarrow> config c' = config c"
  by (cases p) (auto split: if_splits option.splits prod.splits sum.splits)

lemma Close_config: "config (fst (snd (Close d c w))) = config c"
  by (simp add: Close_def split: option.split prod.split)

text \<open>A call that is about to search on a connection; the answer is that of the directory in the world of that moment.\<close>

fun searching :: "vpc \<Rightarrow> nat \<Rightarrow> bool" where
  "searching (VSearch1 h) g = (g = h)"
| "searching (VSearch2 h es) g = (g = h)"
| "searching _ g = False"

definition vouched_now :: "'w directory \<Rightarrow> Client \<Rightarrow> string \<Rightarrow> time \<Rightarrow> vpc \<Rightarrow> 'w \<Rightarrow> bool" where
  "vouched_now d c u now p w \<longleftrightarrow>
     (\<exists>h en rest. searching p h \<and> fst (search d h (Base (config c)) (user_filter d u) w) = Entries (en # rest) \<and> not_barred now en)"

text \<open>
  That a run contains a step of call \<open>i\<close>, which is for user \<open>u\<close>, in which this call searched the directory, in the world the run had reached, and got a
  first entry that was not barred at that time.
\<close>

definition vouched :: "'w directory \<Rightarrow> event list \<Rightarrow> Client \<Rightarrow> 'w \<Rightarrow> nat \<Rightarrow> string \<Rightarrow> bool" where
  "vouched d es c w i u \<longleftrightarrow>
     (\<exists>es1 now es2 p1 q. es = es1 @ Move i now # es2 \<and> p1 = run_pool d es1 c w \<and> \<not> crashed p1 \<and> i < length (calls p1) \<and> calls p1 ! i = (u, q) \<and>
        vouched_now d c u now q (world p1))"

lemma judge_accepts: "judge now es = None \<longleftrightarrow> (\<exists>en rest. es = en # rest \<and> not_barred now en)"
  by (cases es) (auto simp: check_entry_passes)

lemma search_vouches:
  "searchOnce d c h (user_filter d u) w = (Inr es, w') \<Longrightarrow> judge now es = None \<Longrightarrow> searching p h \<Longrightarrow> vouched_now d c u now p w"
  using searchOnce_answer [of d c h "user_filter d u" w es w'] by (auto simp: judge_accepts vouched_now_def)

lemma connected_goes_on [simp]: "connected k \<noteq> VReturned r" "connected k \<noteq> VCrashed"
  by (cases k; simp)+

lemma call_accepts:
  "call_exec d now u p c w = (VReturned None, c', w') \<Longrightarrow> p = VReturned None \<or> vouched_now d c u now p w"
  by (cases p)
     (auto split: if_splits option.splits prod.splits sum.splits intro: search_vouches)

definition named :: "string \<Rightarrow> vpc \<Rightarrow> bool" where
  "named u p \<longleftrightarrow> u = [] \<longrightarrow> (\<exists>e. p \<in> {VBegin, VReturned (Some e)})"

lemma call_named: "call_exec d now u p c w = (p', c', w') \<Longrightarrow> named u p \<Longrightarrow> named u p'"
  by (auto simp: named_def)

text \<open>Every section brings a call closer to its end.\<close>

fun sections_left :: "vpc \<Rightarrow> nat" where
  "sections_left VBegin = 13"
| "sections_left (VDial k) = (if k = None then 12 else 5)"
| "sections_left (VStore k h) = (if k = None then 11 else 4)"
| "sections_left VRead1 = 10"
| "sections_left (VSearch1 h) = 9"
| "sections_left (VClose1 h e) = 8"
| "sections_left (VReset1 h es) = 7"
| "sections_left (VConnect2 es) = 6"
| "sections_left (VRead2 es) = 3"
| "sections_left (VSearch2 h es) = 2"
| "sections_left (VReset2 h es) = 1"
| "sections_left (VReturned r) = 0"
| "sections_left VCrashed = 0"

lemma sections_connected [simp]: "sections_left (connected k) = (if k = None then 10 else 3)"
  by (cases k) simp_all

lemma call_advances: "call_exec d now u p c w = (p', c', w') \<Longrightarrow> sections_left p' \<le> sections_left p - 1"
  by (cases p) (auto split: if_splits option.splits prod.splits sum.splits)

subsection \<open>A call that runs undisturbed\<close>

fun call_run :: "nat \<Rightarrow> 'w directory \<Rightarrow> time \<Rightarrow> string \<Rightarrow> vpc \<Rightarrow> Client \<Rightarrow> 'w \<Rightarrow> vpc \<times> Client \<times> 'w" where
  "call_run 0 d now u p c w = (p, c, w)"
| "call_run (Suc n) d now u p c w = (case call_exec d now u p c w of (p1, c1, w1) \<Rightarrow> call_run n d now u p1 c1 w1)"

lemma run_returned [simp]: "call_run n d now u (VReturned r) c w = (VReturned r, c, w)"
  by (induction n) simp_all

lemma run_second:
  assumes "conn c = None" and "n = n1 + 6"
  shows "call_run n d now u (VConnect2 es) c w =
     (case dial d c w of
        (Inl e, w1) \<Rightarrow> (VReturned (Some (es @ e)), c, w1)
      | (Inr h, w1) \<Rightarrow> (case searchOnce d (c\<lparr>conn := Some h\<rparr>) h (user_filter d u) w1 of
            (Inr en, w2) \<Rightarrow> (VReturned (judge now en), c\<lparr>conn := Some h\<rparr>, w2)
          | (Inl e, w2) \<Rightarrow> (VReturned (Some (es @ [e])), c, w2)))"
proof -
  have n: "n = Suc (Suc (Suc (Suc (Suc (Suc n1)))))" using assms(2) by simp
  have c: "c\<lparr>conn := None\<rparr> = c" using assms(1) by simp
  show ?thesis using assms(1) c by (simp add: n forget_def split: prod.split sum.split)
qed

lemma run_search:
  assumes "conn c = Some h" and "n = n1 + 10"
  shows "call_run n d now u VRead1 c w =
     (case searchWithTimeout d (user_filter d u) c w of
        (Inl e, c2, w2) \<Rightarrow> (VReturned (Some e), c2, w2)
      | (Inr en, c2, w2) \<Rightarrow> (VReturned (judge now en), c2, w2))"
proof -
  define m where "m = n1 + 6"
  have n: "n = Suc (Suc (Suc (Suc m)))" using assms(2) by (simp add: m_def)
  have r: "call_run m d now u (VConnect2 es) (c\<lparr>conn := None\<rparr>) w =
     (case dial d (c\<lparr>conn := None\<rparr>) w of
        (Inl e, w1) \<Rightarrow> (VReturned (Some (es @ e)), c\<lparr>conn := None\<rparr>, w1)
      | (Inr h', w1) \<Rightarrow> (case searchOnce d (c\<lparr>conn := Some h'\<rparr>) h' (user_filter d u) w1 of
            (Inr en, w2) \<Rightarrow> (VReturned (judge now en), c\<lparr>conn := Some h'\<rparr>, w2)
          | (Inl e, w2) \<Rightarrow> (VReturned (Some (es @ [e])), c\<lparr>conn := None\<rparr>, w2)))" for es w
    using run_second [of "c\<lparr>conn := None\<rparr>" m n1 d now u es w] by (simp add: m_def cong: prod.case_cong sum.case_cong)
  show ?thesis
    unfolding n using assms(1)
    by (simp add: r searchWithTimeout_def connectLocked_def forget_def Let_def split: prod.split sum.split option.split)
qed

lemma verify_searches:
  assumes "u \<noteq> []" and "connectLocked d c w = (None, c1, w1)"
  shows "(case VerifyUser d now u c w of (r, c', w') \<Rightarrow> (VReturned r, c', w')) =
     (case searchWithTimeout d (user_filter d u) c1 w1 of
        (Inl e, c2, w2) \<Rightarrow> (VReturned (Some e), c2, w2)
      | (Inr en, c2, w2) \<Rightarrow> (VReturned (judge now en), c2, w2))"
  using assms by (simp add: VerifyUser_def user_filter_def split: prod.split sum.split list.split option.split)

text \<open>A call with nothing in between is the function of \<open>Ldap\<close>: thirteen sections are enough.\<close>

theorem undisturbed_call:
  "call_run 13 d now u VBegin c w = (case VerifyUser d now u c w of (r, c', w') \<Rightarrow> (VReturned r, c', w'))"
proof -
  have s: "call_run 13 d now u p c w = (case call_exec d now u p c w of (p1, c1, w1) \<Rightarrow> call_run 12 d now u p1 c1 w1)"
    and s12: "call_run 12 d now u p c w = (case call_exec d now u p c w of (p1, c1, w1) \<Rightarrow> call_run 11 d now u p1 c1 w1)"
    and s11: "call_run 11 d now u p c w = (case call_exec d now u p c w of (p1, c1, w1) \<Rightarrow> call_run 10 d now u p1 c1 w1)" for p c w
    using call_run.simps(2) [of 12 d now u p c w] call_run.simps(2) [of 11 d now u p c w] call_run.simps(2) [of 10 d now u p c w] by simp_all
  consider "u = []" | h where "u \<noteq> []" "conn c = Some h" | "u \<noteq> []" "conn c = None" by fastforce
  then show ?thesis
  proof cases
    case 1
    then show ?thesis by (subst s) (simp add: VerifyUser_def)
  next
    case (2 h)
    then have k: "connectLocked d c w = (None, c, w)" by (simp add: connectLocked_def)
    show ?thesis unfolding verify_searches [OF 2(1) k] using 2 run_search [of c h 12 2 d now u w] by (simp add: s)
  next
    case 3
    show ?thesis
    proof (cases "dial d c w")
      case (Pair r w1)
      show ?thesis
      proof (cases r)
        case (Inl e)
        then show ?thesis using 3 Pair by (simp add: s s12 VerifyUser_def connectLocked_def)
      next
        case (Inr h)
        then have k: "connectLocked d c w = (None, c\<lparr>conn := Some h\<rparr>, w1)" using 3 Pair by (simp add: connectLocked_def)
        show ?thesis
          unfolding verify_searches [OF 3(1) k] using 3 Pair Inr run_search [of "c\<lparr>conn := Some h\<rparr>" h 10 0 d now u w1]
          by (simp add: s s12 s11)
      qed
    qed
  qed
qed

subsection \<open>Connections\<close>

fun held :: "vpc \<Rightarrow> nat set" where
  "held (VStore k h) = {h}"
| "held _ = {}"

fun pc_ok :: "nat set \<Rightarrow> nat set \<Rightarrow> nat set \<Rightarrow> vpc \<Rightarrow> bool" where
  "pc_ok op is ab (VStore k h) = (h \<in> is)"
| "pc_ok op is ab (VSearch1 h) = (h \<in> is)"
| "pc_ok op is ab (VClose1 h e) = (h \<in> is)"
| "pc_ok op is ab (VReset1 h es) = (h \<in> is \<and> h \<notin> op)"
| "pc_ok op is ab (VSearch2 h es) = (h \<in> is)"
| "pc_ok op is ab (VReset2 h es) = (h \<in> is \<and> (h \<in> op \<longrightarrow> h \<in> ab))"
| "pc_ok op is ab _ = True"

lemma pc_ok_mono:
  "pc_ok op is ab p \<Longrightarrow> is \<subseteq> is' \<Longrightarrow> op' \<inter> is \<subseteq> op \<Longrightarrow> ab \<subseteq> ab' \<Longrightarrow> pc_ok op' is' ab' p"
  by (cases p) auto

lemma connected_ok [simp]: "held (connected k) = {}" "pc_ok op is ab (connected k)"
  by (cases k; simp)+

lemma law_dialURL:
  assumes "lawful_directory d opens issued"
  shows "dialURL d t i url w = (Inl e, w') \<Longrightarrow> opens w' = opens w \<and> issued w' = issued w"
    and "dialURL d t i url w = (Inr h, w') \<Longrightarrow> h \<notin> issued w \<and> opens w' = insert h (opens w) \<and> issued w' = insert h (issued w)"
proof -
  note r = assms [unfolded lawful_directory_def, THEN conjunct1, THEN spec, THEN spec, THEN spec, THEN spec, THEN spec, THEN spec, THEN mp, of t i url w _ w']
  show "dialURL d t i url w = (Inl e, w') \<Longrightarrow> opens w' = opens w \<and> issued w' = issued w" using r [of "Inl e"] by simp
  show "dialURL d t i url w = (Inr h, w') \<Longrightarrow> h \<notin> issued w \<and> opens w' = insert h (opens w) \<and> issued w' = insert h (issued w)"
    using r [of "Inr h"] by simp
qed

lemma law_calls:
  assumes "lawful_directory d opens issued"
  shows "bind d h a b w = (r, w') \<Longrightarrow> opens w' = opens w \<and> issued w' = issued w"
    and "search d h a b w = (x, w') \<Longrightarrow> opens w' = opens w \<and> issued w' = issued w"
    and "closeConn d h w = (r, w') \<Longrightarrow> opens w' = opens w - {h} \<and> issued w' = issued w"
  using assms unfolding lawful_directory_def by (metis snd_conv)+

lemma law_close:
  assumes "lawful_directory d opens issued"
  shows "opens (snd (closeConn d h w)) = opens w - {h}" and "issued (snd (closeConn d h w)) = issued w"
  using law_calls(3) [OF assms] by (metis prod.collapse)+

lemma dial_fails:
  assumes "lawful_directory d opens issued" and "dial d c w = (Inl e, w')"
  shows "opens w' \<subseteq> opens w \<and> issued w \<subseteq> issued w'"
  using assms(2)
  by (auto simp: dial_def Let_def law_close [OF assms(1)] split: sum.splits prod.splits if_splits option.splits
      dest!: law_dialURL [OF assms(1)] law_calls(1) [OF assms(1)])

lemma dial_opens:
  assumes "lawful_directory d opens issued" and "dial d c w = (Inr h, w')"
  shows "h \<notin> issued w \<and> opens w' = insert h (opens w) \<and> issued w' = insert h (issued w)"
  using assms(2)
  by (auto simp: dial_def Let_def split: sum.splits prod.splits if_splits option.splits
      dest!: law_dialURL [OF assms(1)] law_calls(1) [OF assms(1)])

lemma search_laws:
  assumes "lawful_directory d opens issued" and "searchOnce d c h flt w = (r, w')"
  shows "opens w' \<subseteq> opens w \<and> issued w' = issued w \<and>
     (\<forall>e. r = Inl e \<longrightarrow> h \<in> opens w' \<longrightarrow> (\<exists>x. fst (search d h (Base (config c)) flt w) = SearchError x))"
  using assms(2)
  by (auto simp: searchOnce_def law_close [OF assms(1)] split: prod.splits search_outcome.splits dest!: law_calls(2) [OF assms(1)])

text \<open>What a section does to the connections: it only closes old ones, and leaves none without an owner but those it gives up.\<close>

lemma call_connections:
  assumes l: "lawful_directory d opens issued" and x: "call_exec d now u p c w = (p', c', w')"
      and p: "pc_ok (opens w) (issued w) ab p" and c: "set_option (conn c) \<subseteq> issued w"
  shows "issued w \<subseteq> issued w' \<and> opens w' \<inter> issued w \<subseteq> opens w \<and> set_option (conn c') \<subseteq> issued w' \<and>
     pc_ok (opens w') (issued w') (ab \<union> gave_up d c u w p) p' \<and>
     opens w' - (set_option (conn c') \<union> held p' \<union> ab \<union> gave_up d c u w p) \<subseteq> opens w - (set_option (conn c) \<union> held p)"
proof (cases p)
  case (VDial k)
  obtain r w1 where r: "dial d c w = (r, w1)" by (metis surj_pair)
  then show ?thesis using VDial x c dial_fails [OF l, of c w _ w1] dial_opens [OF l, of c w _ w1] by (cases r) auto
next
  case (VSearch1 h)
  obtain r w1 where r: "searchOnce d c h (user_filter d u) w = (r, w1)" by (metis surj_pair)
  then show ?thesis using VSearch1 x c p search_laws [OF l r] by (cases r) auto
next
  case (VSearch2 h es)
  obtain r w1 where r: "searchOnce d c h (user_filter d u) w = (r, w1)" by (metis surj_pair)
  then show ?thesis using VSearch2 x c p search_laws [OF l r] by (cases r) (auto simp: gave_up_def)
next
  case (VClose1 h e)
  then show ?thesis using x c p law_calls(3) [OF l, of h w] by (auto simp: Let_def split: prod.splits)
next
  case (VStore k h)
  then show ?thesis using x c p by (auto simp: law_close [OF l] split: option.splits)
qed (use x c p in \<open>auto simp: forget_def split: if_splits option.splits\<close>)

subsection \<open>All calls\<close>

lemma move_eq:
  assumes "calls p ! i = (u, q)" and "call_exec d now u q (client p) (world p) = (q', c', w')"
  shows "move d i now p = p\<lparr>client := c', world := w', calls := (calls p)[i := (u, q')],
     abandoned := abandoned p \<union> gave_up d (client p) u (world p) q\<rparr>"
  using assms by (simp add: move_def)

definition pool_inv :: "('w \<Rightarrow> nat set) \<Rightarrow> ('w \<Rightarrow> nat set) \<Rightarrow> 'w pool \<Rightarrow> bool" where
  "pool_inv opens issued p \<longleftrightarrow>
     set_option (conn (client p)) \<subseteq> issued (world p) \<and>
     (\<forall>j < length (calls p). pc_ok (opens (world p)) (issued (world p)) (abandoned p) (snd (calls p ! j))) \<and>
     (\<forall>h \<in> opens (world p). conn (client p) = Some h \<or> h \<in> abandoned p \<or> (\<exists>j < length (calls p). h \<in> held (snd (calls p ! j))))"

lemma pool_move_inv:
  assumes l: "lawful_directory d opens issued" and i: "i < length (calls p)" and inv: "pool_inv opens issued p"
  shows "pool_inv opens issued (move d i now p)"
proof -
  obtain u q where u: "calls p ! i = (u, q)" by fastforce
  obtain q' c' w' where x: "call_exec d now u q (client p) (world p) = (q', c', w')" by (metis surj_pair)
  let ?w = "world p" and ?g = "gave_up d (client p) u (world p) q"
  have "pc_ok (opens ?w) (issued ?w) (abandoned p) (snd (calls p ! i))" and c: "set_option (conn (client p)) \<subseteq> issued ?w"
    using inv i by (simp_all add: pool_inv_def)
  then have "pc_ok (opens ?w) (issued ?w) (abandoned p) q" by (simp add: u)
  note k = call_connections [OF l x this c]
  have others: "pc_ok (opens w') (issued w') (abandoned p \<union> ?g) (snd (calls p ! j))" if "j < length (calls p)" for j
  proof -
    have "pc_ok (opens ?w) (issued ?w) (abandoned p) (snd (calls p ! j))" using inv that by (simp add: pool_inv_def)
    then show ?thesis by (rule pc_ok_mono) (use k in simp_all)
  qed
  have "conn c' = Some h \<or> h \<in> abandoned p \<union> ?g \<or> (\<exists>j < length (calls p). h \<in> held (snd ((calls p)[i := (u, q')] ! j)))"
    if h: "h \<in> opens w'" for h
  proof (cases "h \<in> set_option (conn c') \<union> held q' \<union> abandoned p \<union> ?g")
    case True
    then show ?thesis using i by auto
  next
    case False
    with h k have o: "h \<in> opens ?w" "conn (client p) \<noteq> Some h" "h \<notin> held q" by auto
    with inv False have "\<exists>j < length (calls p). h \<in> held (snd (calls p ! j))" by (auto simp: pool_inv_def)
    then obtain j where "j < length (calls p)" "h \<in> held (snd (calls p ! j))" by blast
    moreover have "j \<noteq> i" using o calculation u by auto
    ultimately have "j < length (calls p) \<and> h \<in> held (snd ((calls p)[i := (u, q')] ! j))" by simp
    then show ?thesis by blast
  qed
  then show ?thesis
    using k others i unfolding move_eq [OF u x] pool_inv_def by (auto simp: nth_list_update)
qed

lemma close_inv:
  assumes l: "lawful_directory d opens issued" and inv: "pool_inv opens issued p" and x: "Close d (client p) (world p) = (e, c', w')"
  shows "pool_inv opens issued (p\<lparr>client := c', world := w'\<rparr>)"
proof (cases "conn (client p)")
  case None
  then show ?thesis using inv x by (auto simp: Close_def)
next
  case (Some h)
  then have "opens w' = opens (world p) - {h}" "issued w' = issued (world p)" "conn c' = None"
    using x law_calls(3) [OF l, of h "world p"] by (auto simp: Close_def split: prod.splits)
  moreover have "pc_ok (opens w') (issued w') (abandoned p) q" if "pc_ok (opens (world p)) (issued (world p)) (abandoned p) q" for q
    using that calculation by (intro pc_ok_mono [OF that]) auto
  ultimately show ?thesis using inv Some unfolding pool_inv_def by auto
qed

lemma exec_inv: "lawful_directory d opens issued \<Longrightarrow> pool_inv opens issued p \<Longrightarrow> pool_inv opens issued (pool_exec d e p)"
  by (cases e)
     (auto simp: pool_exec_def pool_move_inv close_inv split: prod.split, auto simp: pool_inv_def nth_append less_Suc_eq dest: less_SucI)

lemma fold_inv: "lawful_directory d opens issued \<Longrightarrow> pool_inv opens issued p \<Longrightarrow> pool_inv opens issued (fold (pool_exec d) es p)"
  by (induction es arbitrary: p) (simp_all add: exec_inv)

text \<open>Every call that was accepted was accepted by one of its own sections.\<close>

definition call_ok :: "'w directory \<Rightarrow> Client \<Rightarrow> 'w \<Rightarrow> event list \<Rightarrow> nat \<Rightarrow> string \<times> vpc \<Rightarrow> bool" where
  "call_ok d c w es i uq \<longleftrightarrow> named (fst uq) (snd uq) \<and> (snd uq = VReturned None \<longrightarrow> vouched d es c w i (fst uq))"

definition all_ok :: "'w directory \<Rightarrow> Client \<Rightarrow> 'w \<Rightarrow> event list \<Rightarrow> 'w pool \<Rightarrow> bool" where
  "all_ok d c w es p \<longleftrightarrow> config (client p) = config c \<and> (\<forall>i < length (calls p). call_ok d c w es i (calls p ! i))"

lemma vouched_more: "vouched d es c w i u \<Longrightarrow> vouched d (es @ es') c w i u"
  unfolding vouched_def by (metis append.assoc append_Cons)

lemma vouched_step:
  assumes "p = run_pool d es c w" and "\<not> crashed p" and "i < length (calls p)" and "calls p ! i = (u, q)"
      and "vouched_now d (client p) u now q (world p)" and "config (client p) = config c"
  shows "vouched d (es @ [Move i now]) c w i u"
proof -
  have "vouched_now d c u now q (world p)" using assms(5,6) by (simp add: vouched_now_def)
  then show ?thesis unfolding vouched_def using assms(1-4) by blast
qed

lemma exec_ok:
  assumes ok: "all_ok d c w es p" and run: "p = run_pool d es c w"
  shows "all_ok d c w (es @ [e]) (pool_exec d e p)"
proof -
  have old: "call_ok d c w (es @ [e]) i (calls p ! i)" if "i < length (calls p)" for i
    using ok that by (auto simp: all_ok_def call_ok_def intro: vouched_more)
  have cfg: "config (client p) = config c" using ok by (simp add: all_ok_def)
  show ?thesis
  proof (cases "crashed p")
    case True
    then show ?thesis using old cfg by (simp add: pool_exec_def all_ok_def)
  next
    case False
    show ?thesis
    proof (cases e)
      case (Verify u)
      then show ?thesis using False old cfg by (auto simp: pool_exec_def all_ok_def nth_append less_Suc_eq call_ok_def named_def)
    next
      case CloseClient
      then show ?thesis
        using False old cfg Close_config [of d "client p" "world p"] by (auto simp: pool_exec_def all_ok_def split: prod.split)
    next
      case (Move i now)
      show ?thesis
      proof (cases "i < length (calls p)")
        case True
        obtain u q where u: "calls p ! i = (u, q)" by fastforce
        obtain q' c' w' where x: "call_exec d now u q (client p) (world p) = (q', c', w')" by (metis surj_pair)
        have "call_ok d c w (es @ [e]) i (u, q')"
          using old [OF True] u x call_named [OF x] call_accepts [of d now u q "client p" "world p" c' w'] Move
            vouched_step [OF run False True u _ cfg, of now]
          by (auto simp: call_ok_def)
        then show ?thesis
          using Move True False old cfg call_config [OF x] by (auto simp: pool_exec_def all_ok_def move_eq [OF u x] nth_list_update)
      qed (use Move False old cfg in \<open>simp add: pool_exec_def all_ok_def\<close>)
    qed
  qed
qed

lemma run_ok: "all_ok d c w es (run_pool d es c w)"
proof (induction es rule: rev_induct)
  case (snoc e es)
  then show ?case using exec_ok [OF snoc refl, of e] by (simp add: run_pool_def)
qed (simp add: run_pool_def all_ok_def fresh_pool_def)

lemma crashed_nth: "crashed p \<longleftrightarrow> (\<exists>j < length (calls p). snd (calls p ! j) = VCrashed)"
  unfolding crashed_def set_conv_nth by force

text \<open>Moving one call again and again is running it alone.\<close>

lemma moves_run:
  assumes "i < length (calls p)" and "calls p ! i = (u, q)" and "\<forall>j < length (calls p). j \<noteq> i \<longrightarrow> snd (calls p ! j) \<noteq> VCrashed"
      and "call_run n d now u q (client p) (world p) = (q', c', w')" and "p' = fold (pool_exec d) (replicate n (Move i now)) p"
  shows "calls p' = (calls p)[i := (u, q')] \<and> client p' = c' \<and> world p' = w'"
  using assms
proof (induction n arbitrary: p q)
  case 0
  then show ?case using list_update_id [of "calls p" i] by simp
next
  case (Suc n)
  obtain q1 c1 w1 where x: "call_exec d now u q (client p) (world p) = (q1, c1, w1)" by (metis surj_pair)
  show ?case
  proof (cases "q = VCrashed")
    case True
    then have "crashed p" using Suc.prems(1,2) by (auto simp: crashed_nth)
    then have "pool_exec d (Move i now) p = p" by (simp add: pool_exec_def)
    then show ?thesis using Suc.IH [OF Suc.prems(1,2,3)] Suc.prems(4,5) True by simp
  next
    case False
    then have "snd (calls p ! j) \<noteq> VCrashed" if "j < length (calls p)" for j using Suc.prems(2,3) that by (cases "j = i") auto
    then have "\<not> crashed p" by (simp add: crashed_nth)
    then have m: "pool_exec d (Move i now) p = move d i now p" using Suc.prems(1) by (simp add: pool_exec_def)
    show ?thesis
      using Suc.IH [of "move d i now p" q1] Suc.prems x by (simp add: m move_eq [OF Suc.prems(2) x] nth_list_update)
  qed
qed

text \<open>A call ends: with every section of its own it has one less before it, whatever the others do.\<close>

definition moves_of :: "nat \<Rightarrow> event list \<Rightarrow> nat" where
  "moves_of i es = length (filter (\<lambda>e. case e of Move j now \<Rightarrow> j = i | _ \<Rightarrow> False) es)"

lemma exec_advances:
  assumes "i < length (calls p)" and "\<not> crashed p"
  shows "i < length (calls (pool_exec d e p)) \<and>
     sections_left (snd (calls (pool_exec d e p) ! i)) \<le> sections_left (snd (calls p ! i)) - moves_of i [e]"
proof (cases e)
  case (Move j now)
  obtain u q where u: "calls p ! j = (u, q)" by fastforce
  obtain q' c' w' where x: "call_exec d now u q (client p) (world p) = (q', c', w')" by (metis surj_pair)
  have m: "calls (move d j now p) = (calls p)[j := (u, q')]" by (simp add: move_eq [OF u x])
  show ?thesis
    using assms Move u m call_advances [OF x] by (cases "j = i") (auto simp: pool_exec_def moves_of_def nth_list_update)
qed (use assms in \<open>auto simp: pool_exec_def moves_of_def nth_append split: prod.split\<close>)

theorem every_call_ends:
  assumes "i < length (calls p)" and "\<not> crashed (fold (pool_exec d) es p)" and "13 \<le> moves_of i es"
  shows "\<exists>u r. calls (fold (pool_exec d) es p) ! i = (u, VReturned r)"
proof -
  have stays: "crashed (fold (pool_exec d) es p)" if "crashed p" for es p
    using that by (induction es) (simp_all add: pool_exec_def)
  have "i < length (calls (fold (pool_exec d) es p)) \<and>
      sections_left (snd (calls (fold (pool_exec d) es p) ! i)) \<le> sections_left (snd (calls p ! i)) - moves_of i es"
    using assms(1,2)
  proof (induction es arbitrary: p)
    case (Cons e es)
    then have "\<not> crashed p" using stays [of p "e # es"] by blast
    from exec_advances [OF Cons.prems(1) this, of d e] Cons.IH [of "pool_exec d e p"] Cons.prems(2)
    show ?case by (auto simp: moves_of_def split: event.splits)
  qed (simp add: moves_of_def)
  moreover have "sections_left (snd (calls p ! i)) \<le> 13" by (cases "snd (calls p ! i)") auto
  ultimately have z: "i < length (calls (fold (pool_exec d) es p))" "sections_left (snd (calls (fold (pool_exec d) es p) ! i)) = 0"
    using assms(3) by simp_all
  then have "snd (calls (fold (pool_exec d) es p) ! i) \<noteq> VCrashed"
    using assms(2) by (simp add: crashed_nth)
  with z have "\<exists>r. snd (calls (fold (pool_exec d) es p) ! i) = VReturned r"
    by (cases "snd (calls (fold (pool_exec d) es p) ! i)") (auto split: if_splits)
  then show ?thesis by (metis prod.collapse)
qed

subsection \<open>Properties\<close>

text \<open>
  C13: \<^verbatim>\<open>VerifyUser\<close> under concurrency.  However calls of \<^verbatim>\<open>VerifyUser\<close> and \<^verbatim>\<open>Close\<close> interleave on one client of a lawful directory, a call that
  was accepted has a name that is not empty, and the run contains a step of this very call in which it searched the directory under the configured base for
  exactly this account name, escaped, and got, in the world of that moment, a first entry that was not barred: no readable control word with the disable bit and no
  readable expiration in the past (a missing or unreadable control word passes).  When all calls have ended, the open connections are the current one and those on which a second
  search ended with an error of the directory.  A further call that runs undisturbed returns after at most thirteen sections, with the answer, the client
  and the world that \<^verbatim>\<open>VerifyUser\<close> as a single function gives.
\<close>
theorem calls_interleaved:
  assumes "lawful_directory d opens issued" and "opens w \<subseteq> set_option (conn c)" and "set_option (conn c) \<subseteq> issued w"
      and "p = run_pool d es c w"
  shows "(\<forall>i u. i < length (calls p) \<and> calls p ! i = (u, VReturned None) \<longrightarrow>
            u \<noteq> [] \<and> vouched d es c w i u) \<and>
         ((\<forall>uq \<in> set (calls p). \<exists>r. snd uq = VReturned r) \<longrightarrow> opens (world p) \<subseteq> set_option (conn (client p)) \<union> abandoned p) \<and>
         (\<not> crashed p \<longrightarrow> (\<forall>u now r c' w' p'. VerifyUser d now u (client p) (world p) = (r, c', w') \<and>
            p' = fold (pool_exec d) (Verify u # replicate 13 (Move (length (calls p)) now)) p \<longrightarrow>
            calls p' = calls p @ [(u, VReturned r)] \<and> client p' = c' \<and> world p' = w'))"
proof (intro conjI allI impI)
  fix i u assume i: "i < length (calls p) \<and> calls p ! i = (u, VReturned None)"
  have "call_ok d c w es i (u, VReturned None)" using run_ok [of d c w es] assms(4) i unfolding all_ok_def by metis
  then show "u \<noteq> []" "vouched d es c w i u" by (auto simp: call_ok_def named_def)
next
  assume ended: "\<forall>uq \<in> set (calls p). \<exists>r. snd uq = VReturned r"
  have "pool_inv opens issued (fresh_pool c w)" using assms(2,3) by (auto simp: pool_inv_def fresh_pool_def)
  then have inv: "pool_inv opens issued p" using fold_inv [OF assms(1)] assms(4) by (simp add: run_pool_def)
  have "held (snd (calls p ! j)) = {}" if "j < length (calls p)" for j using ended that by (metis held.simps(12) nth_mem)
  then show "opens (world p) \<subseteq> set_option (conn (client p)) \<union> abandoned p" using inv by (fastforce simp: pool_inv_def)
next
  fix u now r c' w' p'
  let ?p = "p\<lparr>calls := calls p @ [(u, VBegin)]\<rparr>"
  assume nc: "\<not> crashed p" and a: "VerifyUser d now u (client p) (world p) = (r, c', w') \<and>
      p' = fold (pool_exec d) (Verify u # replicate 13 (Move (length (calls p)) now)) p"
  have p': "p' = fold (pool_exec d) (replicate 13 (Move (length (calls p)) now)) ?p"
    using a nc by (simp add: pool_exec_def)
  have "snd (calls ?p ! j) \<noteq> VCrashed" if "j < length (calls ?p)" "j \<noteq> length (calls p)" for j
    using nc that by (simp add: crashed_nth nth_append less_Suc_eq)
  then have "calls p' = (calls ?p)[length (calls p) := (u, VReturned r)] \<and> client p' = c' \<and> world p' = w'"
    by (intro moves_run [OF _ _ _ _ p']) (use a undisturbed_call [of d now u "client p" "world p"] in simp_all)
  then show "calls p' = calls p @ [(u, VReturned r)]" "client p' = c'" "world p' = w'" by simp_all
qed

text \<open>A directory that counts its connections and on which searches fail on the first \<open>bad\<close> ones; the world is the open ones and the next number.\<close>

definition flaky_dir :: "nat \<Rightarrow> (nat set \<times> nat) directory" where
  "flaky_dir bad = \<lparr>parseUrl = (\<lambda>_. Inr (''h'', ''ldap'')), dialURL = (\<lambda>_ _ _ w. (Inr (snd w), insert (snd w) (fst w), Suc (snd w))),
     bind = (\<lambda>_ _ _ w. (None, w)), search = (\<lambda>h _ _ w. (if h < bad then SearchError ''down'' else Entries [demo_entry], w)),
     closeConn = (\<lambda>h w. (None, fst w - {h}, snd w)), escapeFilter = id\<rparr>"

definition flaky_client :: Client where
  "flaky_client = demo_ldap\<lparr>conn := Some 0\<rparr>"

lemma flaky_lawful: "lawful_directory (flaky_dir bad) fst (\<lambda>w. {..<snd w})"
  by (auto simp: lawful_directory_def flaky_dir_def)

lemmas flaky_run = run_pool_def fresh_pool_def pool_exec_def move_def crashed_def gave_up_def forget_def searchOnce_def dial_def Close_def
  flaky_dir_def flaky_client_def demo_ldap_def lower_def

text \<open>Two calls fail on the old connection; the first redials, the second finds the new connection in place.\<close>

definition shared_reconnect :: "event list" where
  "shared_reconnect = [Verify ''ann'', Verify ''bob'', Move 0 5, Move 1 5, Move 0 5, Move 1 5, Move 0 5, Move 1 5, Move 0 5, Move 0 5, Move 0 5,
     Move 0 5, Move 0 5, Move 1 5, Move 1 5, Move 1 5, Move 1 5, Move 1 5, Move 0 5, Move 0 5]"

lemma shared_reconnect_calls:
  "calls (run_pool (flaky_dir 1) shared_reconnect flaky_client ({0}, 1)) = [(''ann'', VReturned None), (''bob'', VReturned None)] \<and>
   \<not> crashed (run_pool (flaky_dir 1) shared_reconnect flaky_client ({0}, 1)) \<and>
   abandoned (run_pool (flaky_dir 1) shared_reconnect flaky_client ({0}, 1)) = {}"
  by (simp add: shared_reconnect_def flaky_run check_entry_def demo_entry_def ParseInt_def is_digit_def digits_val_def digit_val_def Let_def)

theorem calls_interleaved_witness:
  "vouched (flaky_dir 1) shared_reconnect flaky_client ({0}, 1) 1 ''bob'' \<and>
   fst (world (run_pool (flaky_dir 1) shared_reconnect flaky_client ({0}, 1))) \<subseteq>
     set_option (conn (client (run_pool (flaky_dir 1) shared_reconnect flaky_client ({0}, 1))))"
proof -
  let ?p = "run_pool (flaky_dir 1) shared_reconnect flaky_client ({0}, 1)"
  have i: "1 < length (calls ?p) \<and> calls ?p ! 1 = (''bob'', VReturned None)" and e: "\<forall>uq \<in> set (calls ?p). \<exists>r. snd uq = VReturned r"
    using shared_reconnect_calls by simp_all
  have o: "fst ({0}, 1 :: nat) \<subseteq> set_option (conn flaky_client)" "set_option (conn flaky_client) \<subseteq> {..<snd ({0 :: nat}, 1)}"
    by (simp_all add: flaky_client_def)
  note k = calls_interleaved [OF flaky_lawful o refl, of 1 shared_reconnect]
  show ?thesis using k i e shared_reconnect_calls by blast
qed

text \<open>
  A call can end the program.  Two calls fail on the old connection; \<^verbatim>\<open>ann\<close> redials and stores the new one; before she reads it, \<^verbatim>\<open>bob\<close> finds it,
  searches, fails again and sets the field to nil; \<^verbatim>\<open>ann\<close> reads nil and starts a search on it.  A \<^verbatim>\<open>Close\<close> in the same place does it too.
\<close>
theorem concurrent_calls_crash:
  "crashed (run_pool (flaky_dir 2) [Verify ''ann'', Verify ''bob'', Move 0 5, Move 1 5, Move 0 5, Move 1 5, Move 0 5, Move 1 5, Move 0 5, Move 0 5,
     Move 0 5, Move 0 5, Move 0 5, Move 1 5, Move 1 5, Move 1 5, Move 1 5, Move 1 5, Move 1 5, Move 0 5] flaky_client ({0}, 1)) \<and>
   crashed (run_pool (flaky_dir 1) [Verify ''ann'', Move 0 5, Move 0 5, Move 0 5, Move 0 5, Move 0 5, Move 0 5, Move 0 5, Move 0 5, CloseClient,
     Move 0 5] flaky_client ({0}, 1))"
  by (simp add: flaky_run Let_def)

text \<open>\<^verbatim>\<open>Close\<close> does not last: a call that was dialling stores its connection afterwards, and nobody closes it.\<close>

lemma closed_client_reopens:
  "world (run_pool (flaky_dir 0) [Verify ''ann'', Move 0 5, Move 0 5, CloseClient, Move 0 5, Move 0 5, Move 0 5] (flaky_client\<lparr>conn := None\<rparr>) ({}, 0))
     = ({0}, 1)"
  by (simp add: flaky_run check_entry_def demo_entry_def ParseInt_def is_digit_def digits_val_def digit_val_def Let_def)

end
