(* ===== verification/Crypt.thy ===== *)
theory Crypt
  imports GoBase64
begin

unbundle bit_operations_syntax

section \<open>Encryption helpers\<close>

text \<open>
  \<^verbatim>\<open>crypt/jasypt\<close>, \<^verbatim>\<open>crypt/aes\<close>, \<^verbatim>\<open>crypt/des\<close>, \<^verbatim>\<open>crypt/HmacSHA256\<close> and \<^verbatim>\<open>crypt/generator\<close>.  The primitives of Go's standard library (MD5, the
  DES block cipher, AES-GCM, HMAC) are parameters, with what the code relies on stated as
  \<open>lawful_des\<close> and \<open>lawful_gcm\<close>; the cipher modes, the paddings, the message formats and the
  error paths are the code's.  Random bytes are arguments.
\<close>

subsection \<open>Cipher block chaining over blocks of eight bytes\<close>

definition xorb :: "byte list \<Rightarrow> byte list \<Rightarrow> byte list" where
  "xorb a b = map2 (XOR) a b"

fun cbc_encrypt :: "(byte list \<Rightarrow> byte list) \<Rightarrow> byte list \<Rightarrow> byte list \<Rightarrow> byte list" where
  "cbc_encrypt E iv bs =
     (if bs = [] then [] else let c = E (xorb (take 8 bs) iv) in c @ cbc_encrypt E c (drop 8 bs))"

fun cbc_decrypt :: "(byte list \<Rightarrow> byte list) \<Rightarrow> byte list \<Rightarrow> byte list \<Rightarrow> byte list" where
  "cbc_decrypt D iv bs =
     (if bs = [] then [] else xorb (D (take 8 bs)) iv @ cbc_decrypt D (take 8 bs) (drop 8 bs))"

declare cbc_encrypt.simps [simp del] cbc_decrypt.simps [simp del]

record des =
  md5 :: "byte list \<Rightarrow> byte list"
  desEncrypt :: "byte list \<Rightarrow> byte list \<Rightarrow> byte list"
  desDecrypt :: "byte list \<Rightarrow> byte list \<Rightarrow> byte list"

text \<open>MD5 has 16 bytes; the block cipher under any key of eight bytes permutes the blocks of eight bytes.\<close>

definition lawful_des :: "des \<Rightarrow> bool" where
  "lawful_des d \<longleftrightarrow>
     (\<forall>x. length (md5 d x) = 16) \<and>
     (\<forall>k b. length k = 8 \<and> length b = 8 \<longrightarrow> length (desEncrypt d k b) = 8 \<and> desDecrypt d k (desEncrypt d k b) = b)"

text \<open>\<^verbatim>\<open>des.NewCipher\<close> refuses a key of another size.\<close>

definition NewCipher_ok :: "byte list \<Rightarrow> bool" where
  "NewCipher_ok k \<longleftrightarrow> length k = 8"

subsection \<open>Jasypt\<close>

definition getDerivedKey :: "des \<Rightarrow> string \<Rightarrow> byte list \<Rightarrow> int \<Rightarrow> byte list \<times> byte list" where
  "getDerivedKey d password salt iters =
     (let key = ((md5 d) ^^ nat (iters - 1)) (md5 d (bytes_of password @ salt)) in (take 8 key, drop 8 key))"

definition pad8 :: "byte list \<Rightarrow> byte list" where
  "pad8 plain = (let padNum = 8 - length plain mod 8 in plain @ replicate padNum (of_nat padNum))"

definition doEncrypt :: "des \<Rightarrow> string \<Rightarrow> string \<Rightarrow> byte list \<Rightarrow> int \<Rightarrow> string + byte list" where
  "doEncrypt d password plainText salt iters =
     (let (dk, iv) = getDerivedKey d password salt iters in
      if \<not> NewCipher_ok dk then Inl ''invalid key size''
      else Inr (cbc_encrypt (desEncrypt d dk) iv (pad8 (bytes_of plainText))))"

definition doDecrypt :: "des \<Rightarrow> string \<Rightarrow> byte list \<Rightarrow> byte list \<Rightarrow> int \<Rightarrow> string + string" where
  "doDecrypt d password encText salt iters =
     (if length encText = 0 \<or> length encText mod 8 \<noteq> 0 then Inl ''invalid ciphertext length''
      else let (dk, iv) = getDerivedKey d password salt iters in
        if \<not> NewCipher_ok dk then Inl ''invalid key size''
        else let decrypted = cbc_decrypt (desDecrypt d dk) iv encText;
                 padNum = unat (last decrypted)
             in if padNum < 1 \<or> padNum > 8 then Inl ''invalid padding''
                else Inr (string_of (take (length decrypted - padNum) decrypted)))"

text \<open>\<open>salt\<close> is what \<^verbatim>\<open>rand.Read\<close> delivered, or its error.\<close>

definition Encrypt :: "des \<Rightarrow> string + byte list \<Rightarrow> string \<Rightarrow> int \<Rightarrow> string \<Rightarrow> string + string" where
  "Encrypt d salt password iters plainText =
     (case salt of
        Inl e \<Rightarrow> Inl e
      | Inr s \<Rightarrow> (case doEncrypt d password plainText s iters of
          Inl e \<Rightarrow> Inl e
        | Inr encText \<Rightarrow> Inr (encodeBase64 (s @ encText))))"

definition Decrypt :: "des \<Rightarrow> string \<Rightarrow> int \<Rightarrow> string \<Rightarrow> string + string" where
  "Decrypt d password iters cipherText =
     (case decodeBase64 cipherText of
        (_, True) \<Rightarrow> Inl ''illegal base64 data''
      | (msgBytes, False) \<Rightarrow>
          if length msgBytes < 8 \<or> length msgBytes mod 8 \<noteq> 0 then Inl ''invalid ciphertext length''
          else doDecrypt d password (drop 8 msgBytes) (take 8 msgBytes) iters)"

subsection \<open>AES-GCM\<close>

record gcm =
  sha256 :: "byte list \<Rightarrow> byte list"
  seal :: "byte list \<Rightarrow> byte list \<Rightarrow> byte list \<Rightarrow> byte list"
  unseal :: "byte list \<Rightarrow> byte list \<Rightarrow> byte list \<Rightarrow> string + byte list"

definition nonceSize :: nat where
  "nonceSize = 12"

definition lawful_gcm :: "gcm \<Rightarrow> bool" where
  "lawful_gcm g \<longleftrightarrow> (\<forall>k n p. length n = nonceSize \<longrightarrow> unseal g k n (seal g k n p) = Inr p)"

definition createHash :: "gcm \<Rightarrow> string \<Rightarrow> byte list" where
  "createHash g key = sha256 g (bytes_of key)"

definition CryptPass :: "gcm \<Rightarrow> string + byte list \<Rightarrow> byte list \<Rightarrow> string \<Rightarrow> bool \<Rightarrow> string + string" where
  "CryptPass g nonce key txt isEncrypt =
     (if isEncrypt
      then (case nonce of Inl e \<Rightarrow> Inl e | Inr n \<Rightarrow> Inr (encodeBase64 (n @ seal g key n (bytes_of txt))))
      else (case decodeBase64 txt of
          (_, True) \<Rightarrow> Inl ''illegal base64 data''
        | (data, False) \<Rightarrow>
            if length data < nonceSize then Inl ''ciphertext too short''
            else (case unseal g key (take nonceSize data) (drop nonceSize data) of
                Inl e \<Rightarrow> Inl e | Inr bs \<Rightarrow> Inr (string_of bs))))"

definition Crypt :: "gcm \<Rightarrow> string + byte list \<Rightarrow> string \<Rightarrow> string \<Rightarrow> string + string" where
  "Crypt g nonce txt secret = CryptPass g nonce (createHash g secret) txt True"

definition DeCrypt :: "gcm \<Rightarrow> string \<Rightarrow> string \<Rightarrow> string + string" where
  "DeCrypt g txt secret = CryptPass g (Inl []) (createHash g secret) txt False"

subsection \<open>Single DES\<close>

definition ZeroUnPadding :: "byte list \<Rightarrow> byte list" where
  "ZeroUnPadding bs = rev (dropWhile (\<lambda>b. b = 0) (rev (dropWhile (\<lambda>b. b = 0) bs)))"

text \<open>The last loop writes the first eight bytes; it panics, \<open>Inr None\<close>, when the trimmed data are shorter.\<close>

definition DesDecrypt :: "des \<Rightarrow> byte list \<Rightarrow> byte list \<Rightarrow> string + byte list option" where
  "DesDecrypt d crypted key =
     (if length crypted = 0 \<or> length crypted mod 8 \<noteq> 0 then Inl ''ciphertext must be a non-empty multiple of 8 bytes''
      else if \<not> NewCipher_ok key then Inl ''invalid key size''
      else let startData = desDecrypt d key (take 8 crypted);
               origData = ZeroUnPadding (cbc_decrypt (desDecrypt d key) key crypted)
           in Inr (if length origData < 8 then None else Some (startData @ drop 8 origData)))"

subsection \<open>HMAC\<close>

definition hmac_Encode :: "(byte list \<Rightarrow> byte list \<Rightarrow> byte list) \<Rightarrow> string \<Rightarrow> string \<Rightarrow> string" where
  "hmac_Encode hmac data secret = encodeBase64 (hmac (bytes_of secret) (bytes_of data))"

definition hmac_Verify :: "(byte list \<Rightarrow> byte list \<Rightarrow> byte list) \<Rightarrow> string \<Rightarrow> string \<Rightarrow> string \<Rightarrow> bool" where
  "hmac_Verify hmac data secret encoded =
     (case decodeBase64 encoded of
        (_, True) \<Rightarrow> False
      | (decoded, False) \<Rightarrow> hmac (bytes_of secret) (bytes_of data) = decoded)"

subsection \<open>Facts\<close>

lemma xorb_length [simp]: "length (xorb a b) = min (length a) (length b)"
  by (simp add: xorb_def)

lemma xorb_cancel: "length a = length b \<Longrightarrow> xorb (xorb a b) b = a"
proof (induction a b rule: list_induct2)
  case (Cons x xs y ys)
  have "(x XOR y) XOR y = x" by (simp add: xor.assoc)
  then show ?case using Cons by (simp add: xorb_def)
qed (simp add: xorb_def)

lemma cbc_round_trip:
  assumes law: "\<And>b. length b = 8 \<Longrightarrow> length (E b) = 8 \<and> D (E b) = b" and "length iv = 8" and "8 dvd length bs"
  shows "cbc_decrypt D iv (cbc_encrypt E iv bs) = bs \<and> length (cbc_encrypt E iv bs) = length bs"
  using assms(2,3)
proof (induction "length bs" arbitrary: iv bs rule: less_induct)
  case less
  show ?case
  proof (cases "bs = []")
    case True
    then show ?thesis by (simp add: cbc_encrypt.simps cbc_decrypt.simps)
  next
    case False
    then have n: "8 \<le> length bs" using less.prems(2) by (auto dest: dvd_imp_le)
    let ?x = "xorb (take 8 bs) iv" and ?rest = "drop 8 bs"
    let ?c = "E ?x"
    have x: "length ?x = 8" using n less.prems(1) by simp
    then have c: "length ?c = 8" "D ?c = ?x" using law by simp_all
    have r: "8 dvd length ?rest" "length ?rest < length bs" using n less.prems(2) by (auto intro: dvd_diff_nat)
    note ih = less.hyps [OF r(2) c(1) r(1)]
    have e: "cbc_encrypt E iv bs = ?c @ cbc_encrypt E ?c ?rest"
      using False by (subst cbc_encrypt.simps) (simp add: Let_def)
    have "cbc_decrypt D iv (cbc_encrypt E iv bs) = xorb (D ?c) iv @ cbc_decrypt D ?c (cbc_encrypt E ?c ?rest)"
      unfolding e using c(1) by (subst cbc_decrypt.simps) auto
    also have "\<dots> = take 8 bs @ ?rest"
      using ih c(2) xorb_cancel [of "take 8 bs" iv] n less.prems(1) by simp
    finally show ?thesis unfolding e using ih c(1) n by simp
  qed
qed

lemma derived_key_sizes:
  assumes "lawful_des d"
  shows "length (fst (getDerivedKey d pw salt n)) = 8" and "length (snd (getDerivedKey d pw salt n)) = 8"
proof -
  have "length (((md5 d) ^^ k) (md5 d x)) = 16" for k x
    using assms by (cases k) (simp_all add: lawful_des_def)
  then show "length (fst (getDerivedKey d pw salt n)) = 8" "length (snd (getDerivedKey d pw salt n)) = 8"
    by (simp_all add: getDerivedKey_def Let_def)
qed

lemma pad8_facts:
  "8 dvd length (pad8 p)" "pad8 p \<noteq> []" "1 \<le> unat (last (pad8 p))" "unat (last (pad8 p)) \<le> 8"
  "take (length (pad8 p) - unat (last (pad8 p))) (pad8 p) = p"
proof -
  define k where "k = 8 - length p mod 8"
  have k: "1 \<le> k" "k \<le> 8" using mod_less_divisor [of 8 "length p"] by (simp_all add: k_def)
  have p: "pad8 p = p @ replicate k (of_nat k)" by (simp only: pad8_def Let_def k_def)
  have "length p + k = 8 * (length p div 8) + 8"
    using mult_div_mod_eq [of 8 "length p"] mod_less_divisor [of 8 "length p"] unfolding k_def by linarith
  then show "8 dvd length (pad8 p)" by (simp only: p length_append length_replicate) simp
  show "pad8 p \<noteq> []" using p k by simp
  have "unat (of_nat k :: byte) = k" using k by (simp add: unat_of_nat)
  then have l: "unat (last (pad8 p)) = k" using p k by simp
  show "1 \<le> unat (last (pad8 p))" "unat (last (pad8 p)) \<le> 8" using l k by simp_all
  have "take (length (pad8 p) - k) (pad8 p) = p" by (simp add: p)
  then show "take (length (pad8 p) - unat (last (pad8 p))) (pad8 p) = p" by (simp only: l)
qed

lemma jasypt_lemma:
  assumes "lawful_des d" and "length salt = 8"
  shows "\<exists>c. Encrypt d (Inr salt) pw n pt = Inr c \<and> Decrypt d pw n c = Inr pt"
proof -
  obtain dk iv where k: "getDerivedKey d pw salt n = (dk, iv)" by (metis surj_pair)
  have sz: "length dk = 8" "length iv = 8" using derived_key_sizes [OF assms(1), of pw salt n] k by simp_all
  let ?p = "pad8 (bytes_of pt)"
  let ?enc = "cbc_encrypt (desEncrypt d dk) iv ?p"
  have cbc: "cbc_decrypt (desDecrypt d dk) iv ?enc = ?p" "length ?enc = length ?p"
    using cbc_round_trip [of "desEncrypt d dk" "desDecrypt d dk" iv ?p] assms(1) sz pad8_facts(1) by (auto simp: lawful_des_def)
  have e: "Encrypt d (Inr salt) pw n pt = Inr (encodeBase64 (salt @ ?enc))"
    using k sz by (simp add: Encrypt_def doEncrypt_def NewCipher_ok_def)
  have m: "length ?enc mod 8 = 0" "length ?enc \<noteq> 0" using cbc(2) pad8_facts(1,2) [of "bytes_of pt"] by (simp_all add: mod_eq_0_iff_dvd)
  have "doDecrypt d pw ?enc salt n = Inr (string_of (take (length ?p - unat (last ?p)) ?p))"
    using m k sz cbc pad8_facts(3,4) [of "bytes_of pt"] by (simp add: doDecrypt_def NewCipher_ok_def Let_def)
  then have "doDecrypt d pw ?enc salt n = Inr pt" using pad8_facts(5) [of "bytes_of pt"] by simp
  moreover have "length (salt @ ?enc) mod 8 = 0" using m assms(2) by (simp add: mod_add_eq [symmetric])
  ultimately have "Decrypt d pw n (encodeBase64 (salt @ ?enc)) = Inr pt"
    using assms(2) m by (simp add: Decrypt_def)
  with e show ?thesis by blast
qed

end
