(* ===== verification/Adapters.thy ===== *)
theory Adapters
  imports BBolt "HOL-Library.Sublist"
begin

section \<open>Thin layers over the standard library and third-party packages\<close>

text \<open>
  \<^verbatim>\<open>utils/utilsStream.go\<close>, \<^verbatim>\<open>utils/utilsJson.go\<close>, \<^verbatim>\<open>utils/gos\<close>, \<^verbatim>\<open>codec\<close>, \<^verbatim>\<open>crypt/bcrypt\<close>, \<^verbatim>\<open>web/gin/middleware/websspi\<close>, the logger \<^verbatim>\<open>db/bbolt/bbl.go\<close> and
  \<^verbatim>\<open>Float64ToByte\<close>.  Third-party calls (JSON, protobuf, bcrypt, SSPI) are arguments.  Shown: the three ways to read a stream agree and give a
  prefix of it, round trips under the documented laws, what a panic in a safe goroutine leaves; and where errors are swallowed.
\<close>

subsection \<open>Streams\<close>

text \<open>A reader is the list of its answers to \<^verbatim>\<open>Read\<close>: the bytes read and how the call ended.  An exhausted list is the end of file.\<close>

datatype read_end = More | Eof | Failed string

type_synonym reader = "(byte list \<times> read_end) list"

text \<open>\<^verbatim>\<open>io.ReadAll\<close> and \<^verbatim>\<open>io.Copy\<close> into a buffer: both keep the bytes that come with an error.\<close>

fun ReadAll :: "reader \<Rightarrow> byte list \<times> string option" where
  "ReadAll [] = ([], None)"
| "ReadAll ((b, More) # r) = (let (bs, e) = ReadAll r in (b @ bs, e))"
| "ReadAll ((b, Eof) # r) = (b, None)"
| "ReadAll ((b, Failed e) # r) = (b, Some e)"

fun io_Copy :: "reader \<Rightarrow> byte list \<Rightarrow> byte list \<times> string option" where
  "io_Copy [] buf = (buf, None)"
| "io_Copy ((b, More) # r) buf = io_Copy r (buf @ b)"
| "io_Copy ((b, Eof) # r) buf = (buf @ b, None)"
| "io_Copy ((b, Failed e) # r) buf = (buf @ b, Some e)"

definition StreamToByte :: "reader \<Rightarrow> byte list" where
  "StreamToByte r = fst (ReadAll r)"

definition StreamToString :: "reader \<Rightarrow> string" where
  "StreamToString r = string_of (fst (io_Copy r []))"

text \<open>The second component tells whether the reader was closed.\<close>

definition ReadCloserToString :: "reader \<Rightarrow> string \<times> bool" where
  "ReadCloserToString r = (string_of (fst (ReadAll r)), True)"

definition content :: "reader \<Rightarrow> byte list" where
  "content r = concat (map fst r)"

lemma io_Copy_ReadAll: "io_Copy r buf = (buf @ fst (ReadAll r), snd (ReadAll r))"
  by (induction r buf rule: io_Copy.induct) (simp_all add: case_prod_beta)

text \<open>
  The three functions read the same bytes, in order and none twice: a prefix of what the reader holds, all of it when no call fails or ends early.
\<close>
theorem streams_agree:
  "StreamToString r = string_of (StreamToByte r) \<and> ReadCloserToString r = (StreamToString r, True) \<and>
   prefix (StreamToByte r) (content r) \<and> (list_all (\<lambda>x. snd x = More) r \<longrightarrow> StreamToByte r = content r)"
proof -
  have "prefix (fst (ReadAll r)) (content r) \<and> (list_all (\<lambda>x. snd x = More) r \<longrightarrow> fst (ReadAll r) = content r)"
    by (induction r rule: ReadAll.induct) (auto simp: content_def case_prod_beta prefix_def)
  then show ?thesis
    by (simp add: StreamToByte_def StreamToString_def ReadCloserToString_def io_Copy_ReadAll)
qed

text \<open>A failed read is not reported: the caller gets the bytes before it.\<close>

lemma failed_read_hidden: "StreamToByte [(a, More), (b, Failed e), (c, More)] = a @ b"
  by (simp add: StreamToByte_def)

subsection \<open>JSON and the codecs\<close>

text \<open>\<open>marshal\<close> is \<^verbatim>\<open>json.Marshal\<close> or \<^verbatim>\<open>json.MarshalIndent\<close>, which return bytes and an error.\<close>

definition ToJsonB :: "('a \<Rightarrow> byte list \<times> string option) \<Rightarrow> 'a \<Rightarrow> byte list" where
  "ToJsonB marshal a = (case marshal a of (b, None) \<Rightarrow> b | (_, Some e) \<Rightarrow> [])"

definition ToJson :: "('a \<Rightarrow> byte list \<times> string option) \<Rightarrow> 'a \<Rightarrow> string" where
  "ToJson marshal a = (case marshal a of (b, None) \<Rightarrow> string_of b | (_, Some e) \<Rightarrow> e)"

definition ToJsonPretty :: "('a \<Rightarrow> byte list \<times> string option) \<Rightarrow> 'a \<Rightarrow> string" where
  "ToJsonPretty marshalIndent a = (case marshalIndent a of (b, None) \<Rightarrow> string_of b | (_, Some e) \<Rightarrow> e)"

definition EncodeStruct :: "('a \<Rightarrow> byte list \<times> string option) \<Rightarrow> 'a \<Rightarrow> byte list" where
  "EncodeStruct marshal d = fst (marshal d)"

definition DecodeStruct :: "(byte list \<Rightarrow> 'a \<Rightarrow> string option \<times> 'a) \<Rightarrow> byte list \<Rightarrow> 'a \<Rightarrow> string option \<times> 'a" where
  "DecodeStruct unmarshal b target = unmarshal b target"

definition pb_EncodeStruct :: "('a \<Rightarrow> byte list) \<Rightarrow> 'a \<Rightarrow> byte list" where
  "pb_EncodeStruct encode d = encode d"

definition pb_DecodeStruct :: "(byte list \<Rightarrow> 'a \<Rightarrow> string option \<times> 'a) \<Rightarrow> byte list \<Rightarrow> 'a \<Rightarrow> string option \<times> 'a" where
  "pb_DecodeStruct decode b target = decode b target"

text \<open>What a JSON library documents: a value that can be encoded is decoded from its encoding, whatever the target held.\<close>

definition lawful_json :: "('a \<Rightarrow> byte list \<times> string option) \<Rightarrow> (byte list \<Rightarrow> 'a \<Rightarrow> string option \<times> 'a) \<Rightarrow> bool" where
  "lawful_json marshal unmarshal \<longleftrightarrow> (\<forall>a b t. marshal a = (b, None) \<longrightarrow> unmarshal b t = (None, a))"

text \<open>What the helpers give for an encodable value: all the same bytes, and the codec reads them back.\<close>

lemma json_round_trip:
  assumes "lawful_json marshal unmarshal" and "marshal a = (b, None)"
  shows "EncodeStruct marshal a = ToJsonB marshal a \<and> ToJson marshal a = string_of (ToJsonB marshal a) \<and>
    DecodeStruct unmarshal (EncodeStruct marshal a) t = (None, a)"
  using assms by (simp add: lawful_json_def EncodeStruct_def ToJsonB_def ToJson_def DecodeStruct_def)

text \<open>For a value that cannot be encoded \<^verbatim>\<open>ToJson\<close> returns the text of the error in place of the JSON text.\<close>

lemma ToJson_returns_error: "marshal a = (b, Some e) \<Longrightarrow> ToJson marshal a = e \<and> ToJsonB marshal a = []"
  by (simp add: ToJson_def ToJsonB_def)

subsection \<open>Password hashes\<close>

text \<open>\<open>generate\<close> and \<open>compare\<close> are the two functions of \<^verbatim>\<open>golang.org/x/crypto/bcrypt\<close>.\<close>

definition HashPassword :: "(byte list \<Rightarrow> nat \<Rightarrow> byte list \<times> string option) \<Rightarrow> string \<Rightarrow> string \<times> string option" where
  "HashPassword generate password = (let (bytes, err) = generate (bytes_of password) 14 in (string_of bytes, err))"

definition CheckPasswordHash :: "(byte list \<Rightarrow> byte list \<Rightarrow> string option) \<Rightarrow> string \<Rightarrow> string \<Rightarrow> bool" where
  "CheckPasswordHash compare password hash \<longleftrightarrow> compare (bytes_of hash) (bytes_of password) = None"

lemma hash_checks:
  assumes "\<And>p n h. generate p n = (h, None) \<Longrightarrow> compare h p = None" and "HashPassword generate password = (hash, None)"
  shows "CheckPasswordHash compare password hash"
  using assms(1) [of "bytes_of password" 14] assms(2) by (auto simp: HashPassword_def CheckPasswordHash_def split: prod.splits)

subsection \<open>Goroutines that recover\<close>

text \<open>
  The body of a goroutine works on a world and may panic, having done a part of its work.  A panic that nobody recovers ends the program (\<open>Dead\<close>);
  \<^verbatim>\<open>SafeGo\<close> and \<^verbatim>\<open>SafeGoCtx\<close> recover and log.
\<close>

datatype 'w go_result = Done 'w | Panics string 'w

datatype 'w program = Alive 'w "string list" | Dead string

fun plain_go :: "('w \<Rightarrow> 'w go_result) \<Rightarrow> 'w program \<Rightarrow> 'w program" where
  "plain_go fn (Dead r) = Dead r"
| "plain_go fn (Alive w log) = (case fn w of Done w' \<Rightarrow> Alive w' log | Panics r w' \<Rightarrow> Dead r)"

fun SafeGo :: "('w \<Rightarrow> 'w go_result) \<Rightarrow> 'w program \<Rightarrow> 'w program" where
  "SafeGo fn (Dead r) = Dead r"
| "SafeGo fn (Alive w log) = (case fn w of Done w' \<Rightarrow> Alive w' log | Panics r w' \<Rightarrow> Alive w' (log @ [r]))"

definition SafeGoCtx :: "'c \<Rightarrow> ('c \<Rightarrow> 'w \<Rightarrow> 'w go_result) \<Rightarrow> 'w program \<Rightarrow> 'w program" where
  "SafeGoCtx ctx fn p = SafeGo (fn ctx) p"

text \<open>Safe goroutines never end the program, log one line for each panic, and are plain ones where nothing panics.\<close>

theorem safe_go_alive:
  "\<exists>w' log'. fold SafeGo fns (Alive w log) = Alive w' (log @ log') \<and> length log' \<le> length fns \<and>
     ((\<forall>fn \<in> set fns. \<forall>w. \<exists>w'. fn w = Done w') \<longrightarrow> log' = [] \<and> fold plain_go fns (Alive w log) = Alive w' log)"
proof (induction fns arbitrary: w log)
  case (Cons fn fns)
  show ?case
  proof (cases "fn w")
    case (Done w1)
    then show ?thesis using Cons.IH [of w1 log] by fastforce
  next
    case (Panics r w1)
    obtain w' log' where ih: "fold SafeGo fns (Alive w1 (log @ [r])) = Alive w' ((log @ [r]) @ log')" "length log' \<le> length fns"
      using Cons.IH [of w1 "log @ [r]"] by blast
    then show ?thesis using Panics by (intro exI [of _ w'] exI [of _ "r # log'"]) (auto, metis go_result.distinct(1))
  qed
qed simp

subsection \<open>SSPI\<close>

text \<open>\<open>freed\<close> is ghost: the authenticators handed to \<^verbatim>\<open>Free\<close>.\<close>

record SSPI =
  auth :: "nat option"
  freed :: "nat list"

definition NewSSPI :: SSPI where
  "NewSSPI = \<lparr>auth = None, freed = []\<rparr>"

definition sspi_Start :: "nat option \<times> string option \<Rightarrow> SSPI \<Rightarrow> string option \<times> SSPI" where
  "sspi_Start new ss = (let (au, err) = new in (err, ss\<lparr>auth := au\<rparr>))"

definition sspi_Stop :: "(nat \<Rightarrow> string option) \<Rightarrow> SSPI \<Rightarrow> string option \<times> SSPI" where
  "sspi_Stop free ss = (case auth ss of None \<Rightarrow> (None, ss) | Some au \<Rightarrow> (free au, ss\<lparr>freed := freed ss @ [au]\<rparr>))"

definition WithAuth :: "(nat option \<Rightarrow> 'h \<Rightarrow> 'h) \<Rightarrow> SSPI \<Rightarrow> 'h \<Rightarrow> 'h" where
  "WithAuth wrap ss next = wrap (auth ss) next"

text \<open>\<^verbatim>\<open>Stop\<close> keeps the authenticator: a second call frees it again, and handlers are still wrapped with it.\<close>

lemma sspi_stop_twice:
  "auth ss = Some au \<Longrightarrow> freed (snd (sspi_Stop free (snd (sspi_Stop free ss)))) = freed ss @ [au, au] \<and>
   WithAuth wrap (snd (sspi_Stop free ss)) next = wrap (Some au) next"
  by (simp add: sspi_Stop_def WithAuth_def)

subsection \<open>The logger of the key-value store\<close>

text \<open>\<^verbatim>\<open>fmt.Sprintf("%v", v...)\<close>: an argument is its type name with its text.\<close>

fun extra_args :: "(string \<times> string) list \<Rightarrow> string" where
  "extra_args [] = []"
| "extra_args [(t, x)] = t @ ''='' @ x"
| "extra_args ((t, x) # y # ys) = t @ ''='' @ x @ '', '' @ extra_args (y # ys)"

fun sprint_v :: "(string \<times> string) list \<Rightarrow> string" where
  "sprint_v [] = ''%!v(MISSING)''"
| "sprint_v [(t, x)] = x"
| "sprint_v ((t, x) # ys) = x @ ''%!(EXTRA '' @ extra_args ys @ '')''"

datatype bb_level = LevelDebug | LevelInfo | LevelWarn | LevelError

text \<open>The methods: the level they ask for, the prefix, and the text; \<open>enabled\<close> is the default logger, \<open>sprintf\<close> formats.\<close>

definition bb_log :: "(bb_level \<Rightarrow> bool) \<Rightarrow> bb_level \<Rightarrow> string \<Rightarrow> string \<Rightarrow> (bb_level \<times> string) option" where
  "bb_log enabled lv pre txt = (if enabled lv then Some (lv, pre @ txt) else None)"

definition Debug where "Debug enabled v = bb_log enabled LevelDebug [] (sprint_v v)"
definition Debugf where "Debugf enabled sprintf (f :: string) v = bb_log enabled LevelDebug [] (sprintf f v)"
definition Error where "Error enabled v = bb_log enabled LevelError [] (sprint_v v)"
definition Errorf where "Errorf enabled sprintf (f :: string) v = bb_log enabled LevelError [] (sprintf f v)"
definition Info where "Info enabled v = bb_log enabled LevelInfo [] (sprint_v v)"
definition Infof where "Infof enabled sprintf (f :: string) v = bb_log enabled LevelInfo [] (sprintf f v)"
definition Warning where "Warning enabled v = bb_log enabled LevelWarn [] (sprint_v v)"
definition Warningf where "Warningf enabled sprintf (f :: string) v = bb_log enabled LevelWarn [] (sprintf f v)"
definition Fatal where "Fatal enabled v = bb_log enabled LevelError ''FATAL: '' (sprint_v v)"
definition Fatalf where "Fatalf enabled sprintf (f :: string) v = bb_log enabled LevelError ''FATAL: '' (sprintf f v)"
definition Panic where "Panic enabled v = bb_log enabled LevelError ''PANIC: '' (sprint_v v)"
definition Panicf where "Panicf enabled sprintf (f :: string) v = bb_log enabled LevelError ''PANIC: '' (sprintf f v)"

text \<open>With more than one argument the line shows the complaint of \<^verbatim>\<open>Sprintf\<close>; \<^verbatim>\<open>Fatal\<close> and \<^verbatim>\<open>Panic\<close> only log.\<close>

lemma bb_two_arguments:
  "Info (\<lambda>_. True) [(''string'', ''open''), (''int'', ''3'')] = Some (LevelInfo, ''open%!(EXTRA int=3)'')"
  by (simp add: Info_def bb_log_def)

subsection \<open>The bytes of a float\<close>

text \<open>\<open>bits\<close> is \<^verbatim>\<open>math.Float64bits\<close> of the number.\<close>

definition Float64ToByte :: "64 word \<Rightarrow> byte list" where
  "Float64ToByte bits = be64 bits"

lemma float_bytes: "be_val (Float64ToByte bits) = unat bits \<and> length (Float64ToByte bits) = 8"
  using be_val_Itob [of bits] by (simp add: Float64ToByte_def Itob_def be64_def)

end
