(* ===== verification/Spec2Isabelle.thy ===== *)
theory Spec2Isabelle
  imports FloatUtils MemCacheTTL Fail2Ban ServiceSet MqWorkers SmsStore Postgres BBolt MailSender TcClient PrettyLog DbTypes Generator GinServer Otel FastHttp RowData MemCache Keepass Files Processes TextUtils HtmlText GormLog BasicConfig WebAuth LdapPool Crypt Utils Uuid Adapters
begin

text \<open>
  \<^bold>\<open>Verification of arcella-lib.\<close>

  The library is a set of Go packages from which services are assembled.  An application hands its
  services (databases, message queue, web server, SMS centre, chat client, telemetry) to the controller of \<^verbatim>\<open>app/v3\<close>, which
  loads the configuration, starts the services, runs until a signal and stops them.  Web services add the gin
  middlewares (ban list, rate limiter, NTLM and basic authentication) and use the HTTP and LDAP clients; caches,
  logging, encryption helpers and utilities serve all of them.

  \<^bold>\<open>Theories.\<close>  Each theory models the files it names, with their function names; where two sources use
  one name, or a name is taken in HOL, a prefix is added.

  Foundations and contracts:
  \<^item> \<open>Prelude\<close>: machine integers, bytes and strings, Go maps.  \<open>GoHeap\<close>: \<^verbatim>\<open>container/heap\<close>, with the locale
    \<open>min_queue\<close>.  \<open>GoStrconv\<close>: decimal numbers.  \<open>GoFloat\<close>: floating point numbers of the two
    formats of the language, every operation computed exactly and rounded once (shown: the result is a nearest number of the format).
    \<open>GoTime\<close>: the calendar, locations, and the layouts of the dates (shown: dates and day numbers correspond, \<^verbatim>\<open>Date\<close> finds an
    instant with the wanted reading).  \<open>GoBase64\<close>: \<^verbatim>\<open>base64.StdEncoding\<close>, with the locale \<open>codec\<close>.
  \<^item> \<open>TtlStore\<close>: the locale \<open>ttl_store\<close>, a store whose entries live for a while (interpreted on the cache and on the ban list).
    \<open>ConnSlot\<close>: the specification \<open>slot_step\<close> of a component with at most one connection in use and the locale \<open>conn_slot\<close> of its refinements
    (interpreted on the RabbitMQ client, the chat client and the listening web server).  \<open>db_service\<close> in \<open>SqlServices\<close>: a service with one handle
    (interpreted on the data bases, the key-value store, the mail sender and the telemetry).  \<open>column_type\<close> in \<open>DbTypes\<close>: a column that can be
    scanned and written (interpreted on the four types).

  The application and its services:
  \<^item> \<open>AppController\<close> (\<^verbatim>\<open>app/v3/appcv3.go\<close>): services and hooks are functions on a world.  Shown: a failed start rolls back in
    reverse order, the order of a whole run, and that a failed start leaves the context uncancelled.  \<open>BasicConfig\<close> (\<^verbatim>\<open>app/v3/config/basic\<close>): the tree of reflected values with defaults, environment
    and encoded strings.  Shown: types are kept and nothing panics on plain types; which file is taken, and the precedence of the sources of a string anywhere in the tree.
    \<open>PrettyLog\<close> (\<^verbatim>\<open>app/v3/log\<close>): the log handler with its buffer pool and cache.  Shown: a line is the pure rendering of its record in every
    state of both; what is written of a long message ends at a rune.
  \<^item> \<open>RabbitMQ\<close>, \<open>MqWorkers\<close> and \<open>MqLife\<close> (\<^verbatim>\<open>mq/rabbitmq\<close>): the connection goroutine runs section by section against \<^verbatim>\<open>Stop\<close>, a step relation with an
    invariant by rule induction; the dispatchers and workers of all consumers interleave, with the field the dispatchers read when they begin.  Shown: nothing stays open after \<^verbatim>\<open>Stop\<close>, refinement of the
    one-connection contract, bounds of the reconnection delay with the rounding of its floating point computation, the consumers come to rest, every delivery of a channel that was read is handled once, and two runs on which a channel is not read.  \<open>MqLife\<close>: the same client over any number of
    starts and stops, a pool of goroutines over the shared fields.  Shown: a stopped client comes to rest after boundedly many steps with nothing
    open, when each \<^verbatim>\<open>Start\<close> waited for the previous goroutine; two runs, a leak and a hang, when it did not or when the first dial fails.
  \<^item> \<open>TcHttp\<close> and \<open>TcClient\<close> (\<^verbatim>\<open>tc\<close>): the token request, and caller, restarts, readers, writers and token loop as interleaved events.  Shown:
    complete token fields are redacted in logs (and cut ones are not); for one caller that starts the client again only when nothing of the earlier life is left, nothing stays open
    after \<^verbatim>\<open>Stop\<close> and every life refines the one-connection contract; no message is lost or doubled
    without trace, the token is renewed within its life; runs on which the authentication message is dropped, a reader ends the program and an early second \<^verbatim>\<open>Start\<close> leaks.
  \<^item> \<open>Smsc\<close> and \<open>SmsStore\<close> (\<^verbatim>\<open>smsc\<close>): sending with retries, and the routing of responses.  Shown: the identifier returned answers
    this message, at most five attempts, late responses are ignored; the request store returns what was stored.
    \<open>MailSender\<close> (\<^verbatim>\<open>mail/sender\<close>): the kept SMTP connection.  Shown: what an attempt sends, when it is repeated, that nothing leaks.
  \<^item> \<open>SqlServices\<close> and \<open>Postgres\<close> (\<^verbatim>\<open>db/mssql\<close>, \<^verbatim>\<open>db/oracle\<close>, \<^verbatim>\<open>db/postgres\<close>).  Shown: no leaked handles, the retry of pings, the back-off of
    restarts, one pool at a time in every orderly run of starts, stops, pings and restarts with \<^verbatim>\<open>GetDB\<close> never stale, \<^verbatim>\<open>LISTEN\<close> on identifiers only.  \<open>BBolt\<close> (\<^verbatim>\<open>db/bbolt\<close>): operations over an engine with its documented laws.
    Shown: batches are atomic, sequence keys list values in the order added.  \<open>DbTypes\<close> (\<^verbatim>\<open>db/types\<close>), \<open>GormLog\<close> (\<^verbatim>\<open>db/helpers/gorm\<close>: no query value is
    logged) and \<open>RowData\<close> (\<^verbatim>\<open>utils/db\<close>: one object per row, whatever a scan leaves untouched).
  \<^item> \<open>ServiceSet\<close>: nine services (data bases, key-value store, telemetry, mail, SMS centre, message queue, web server) under the controller, with the goroutines
    of the message queue, the web server and PostgreSQL running in between, over the locale \<open>service_set\<close>.  Shown: a run that ends leaves nothing open, also later, a failed start at most what
    the failing service opened (an Oracle service that fails so is exhibited), but for a PostgreSQL service that was stopped while a restart was asleep or about to begin.
  \<^item> \<open>Otel\<close> (\<^verbatim>\<open>monitoring/otel\<close>): start and stop of the providers, resource attributes.  Shown: stop leaves nothing running after one start; the
    search for a span identifier ends with the first valid read.

  The web side:
  \<^item> \<open>Fail2Ban\<close> (\<^verbatim>\<open>web/gin/middleware/fail2ban\<close>): the watch list, the ban list and the handler.  Shown: the ban comes at exactly
    the configured count, holds for its whole period against any traffic, and never hits an address without
    not-found answers.  \<open>GinMiddleware\<close>: rate limiter (one bucket per address), CORS, request log.  \<open>GinServer\<close> (\<^verbatim>\<open>web/gin/ginWeb.go\<close>): the
    installed chain, shown to ban as the ban list alone, and the server's goroutines, shown to refine the one-connection contract and to serve never again after a shutdown.
  \<^item> \<open>HttpClient\<close>, \<open>WebAuth\<close> and \<open>FastHttp\<close> (\<^verbatim>\<open>web/std/client\<close>, \<^verbatim>\<open>web/gin/middleware/auth\<close>, \<^verbatim>\<open>ntlm\<close>, \<^verbatim>\<open>ntlm-ext\<close>, \<^verbatim>\<open>web/fasthttp\<close>).  Shown: the shared client is
    never stale, bodies are bounded, the NTLM handler is fail-closed and equal to the extended one, basic authentication round
    trip, the logging transport changes nothing and masks credentials.
  \<^item> \<open>Ldap\<close> (\<^verbatim>\<open>ldap\<close>): user verification with reconnection, and attribute conversions.  Shown: what acceptance means for the searches the call made, GUID round trip, dates are shown
    with their own digits in any zone (and so not in the zone of the other times of an entry).  \<open>LdapPool\<close>: any
    number of calls of one client, section by section, with \<^verbatim>\<open>Close\<close>.  Shown: an accepted call made the search that vouches for it in the run itself, in every interleaving; which connections stay
    open, an undisturbed call is the sequential function, every call ends; a run in which a call ends the program.

  Caches, encryption, utilities:
  \<^item> \<open>MemCacheTTL\<close> (\<^verbatim>\<open>cache/memcachettl/memCacheTTL.go\<close>): items and expiry heap in one record, every method one
    definition, the two critical sections of \<^verbatim>\<open>Get\<close> apart; the \<^verbatim>\<open>Start\<close>/\<^verbatim>\<open>Stop\<close> lifecycle of the reaper goroutines is
    a step relation.  Shown: eviction removes exactly what is due, a stored value is returned until it expires, the
    limit holds, no channel is closed twice.  \<open>MemCache\<close> (\<^verbatim>\<open>cache/memcache\<close>): the map of pointers over an explicit memory.
  \<^item> \<open>Crypt\<close> (\<^verbatim>\<open>crypt/jasypt\<close>, \<^verbatim>\<open>aes\<close>, \<^verbatim>\<open>des\<close>, \<^verbatim>\<open>HmacSHA256\<close>): the CBC and padding round trip behind the encrypted settings.  \<open>Generator\<close> (\<^verbatim>\<open>crypt/generator\<close>).
    \<open>Keepass\<close> (\<^verbatim>\<open>crypt/keepass\<close>): the cache of decoded files is transparent.
  \<^item> \<open>FloatUtils\<close> (\<^verbatim>\<open>utils/utilsNumbers.go\<close>, \<^verbatim>\<open>utilsString.go\<close>): cutting digits off, numbers and text.  Shown: a number with no more digits than asked for
    is kept, no digits asked for gives the integer part; two inputs on which rounding gives another number.
  \<^item> \<open>Utils\<close>, \<open>TextUtils\<close>, \<open>Files\<close>, \<open>HtmlText\<close>, \<open>Processes\<close>, \<open>Uuid\<close> (\<^verbatim>\<open>utils\<close>).  Shown: \<^verbatim>\<open>SubStr\<close> against its rune-based reference, the sieve, reversal of
    characters, copies all or nothing, hidden scripts, the process tables (the last macOS process is not read), the obfuscation round trip.
  \<^item> \<open>Adapters\<close> (\<^verbatim>\<open>utils/utilsStream.go\<close>, \<^verbatim>\<open>utilsJson.go\<close>, \<^verbatim>\<open>gos\<close>, \<^verbatim>\<open>codec\<close>, \<^verbatim>\<open>crypt/bcrypt\<close>, \<^verbatim>\<open>websspi\<close>, \<^verbatim>\<open>db/bbolt/bbl.go\<close>): thin layers over libraries, what they add
    and what they hide.  Shown: the stream helpers agree, safe goroutines never end the program.
  \<^item> This theory holds the properties that span components: an encrypted setting through the
    configuration manager, and the NTLM middleware with the LDAP client as its verifier.

  \<^bold>\<open>Modelling.\<close>  State is a record passed explicitly; an error is a value of a sum or option type; a panic is a
  value too (\<^const>\<open>None\<close>, or a constructor).  Goroutines that share state under a mutex are step relations whose
  steps are the critical sections.  Time, randomness, the network, brokers, drivers, libraries and directories are arguments, with
  what the code relies on as named hypotheses (\<open>gin_next\<close>, \<open>lawful_gin\<close>, \<open>lawful_des\<close>, \<open>lawful_cache\<close>, \<open>lawful_codecs\<close>, \<open>lawful_entropy\<close>, \<open>lawful_directory\<close>, \<open>lawful_json\<close>, \<open>lawful_location\<close>, \<open>lawful_pow\<close>, \<open>lawful_text\<close>, \<open>honest_files\<close>).  No
  fuel is used: every loop is a function with a termination proof, a loop that waits for events runs over a finite list
  of them, and the one loop that may not end (the search for a span identifier) is a partial function with a proof that it returns.
  Fields marked ghost (\<open>opened\<close>, \<open>heard\<close>, \<open>execs\<close>, \<open>confirmMode\<close>, \<open>handled\<close>, \<open>arrived\<close>, \<open>sessions\<close>, \<open>abandoned\<close>, \<open>late\<close> and counters) only record.

  \<^bold>\<open>Not modelled.\<close>  Log output other than that of the loggers; the conversion between text and floating point numbers, \<^verbatim>\<open>math.Pow\<close> and
  \<^verbatim>\<open>time.ParseDuration\<close>, which are parameters; the time zone data base; the JSON text of the chat messages; the deprecated gorilla stub, which has no methods; getters of
  names and constants; a nil service in the list the application starts, and panics inside services.  One composition is left out: the chat client is not among the services under the controller: its \<^verbatim>\<open>Stop\<close> waits for its own
  goroutines and need not return, and a service of the controller is a function that does.  Of the chat client, \<^verbatim>\<open>Start\<close> and \<^verbatim>\<open>Stop\<close> do not overlap.
\<close>

section \<open>Properties across components\<close>

text \<open>The demonstration cipher: a constant hash and the identity on blocks.\<close>

definition demo_des :: des where
  "demo_des = \<lparr>md5 = (\<lambda>_. replicate 16 7), desEncrypt = (\<lambda>_ b. b), desDecrypt = (\<lambda>_ b. b)\<rparr>"

text \<open>The decoder of the configuration manager (\<^verbatim>\<open>app/v3/config/basic\<close>): the encryption of \<^verbatim>\<open>jasypt\<close> with what the environment says.\<close>

definition Decode :: "des \<Rightarrow> CryptDecoder \<Rightarrow> string \<Rightarrow> string + string" where
  "Decode d cd plainText = Crypt.Decrypt d (CryptDecoder.password cd) (CryptDecoder.iterations cd) plainText"

definition NewBasicConfigWithDecoder :: "(string \<Rightarrow> string + string) \<Rightarrow> 'f BasicConfig.world \<Rightarrow> 'f BasicConfig.world" where
  "NewBasicConfigWithDecoder inDecoder w = w\<lparr>decode := inDecoder\<rparr>"

definition NewBasicConfig :: "des \<Rightarrow> 'f BasicConfig.world \<Rightarrow> 'f BasicConfig.world" where
  "NewBasicConfig d w = w\<lparr>decode := Decode d (NewDecoder (getenv w))\<rparr>"

text \<open>
  C24: A secret survives the way through the configuration file: what \<^verbatim>\<open>jasypt.Encrypt\<close> produced for it under the password and the iteration
  count that the environment gives to \<^verbatim>\<open>NewBasicConfig\<close>, written as \<^verbatim>\<open>ENC(...)\<close> in a string setting that no environment variable
  overrides, is loaded as the secret, for every secret, salt and environment; a count that is missing, unreadable or not positive is 1000.
\<close>
theorem encrypted_setting_round_trip:
  assumes "lawful_des d" and "length salt = 8" and "env_value w t = []"
      and "n = (case ParseInt 64 (getenv w ''JASYPT_ITERATIONS'') of (k, None) \<Rightarrow> if k > 0 then k else 1000 | (k, Some e) \<Rightarrow> 1000)"
      and "Crypt.Encrypt d (Inr salt) (getenv w ''JASYPT_PASSWORD'') n secret = Inr c"
  shows "modifyValue (NewBasicConfig d w) t (VString False (''ENC('' @ c @ '')'')) = Some (VString False secret)"
proof -
  have "ParseInt 64 [] = (0, Some SyntaxError)" by (simp add: ParseInt_def)
  then have n: "CryptDecoder.iterations (NewDecoder (getenv w)) = n"
    using assms(4) by (auto simp: NewDecoder_def split: prod.split option.split)
  have "Crypt.Decrypt d (getenv w ''JASYPT_PASSWORD'') n c = Inr secret"
    using jasypt_lemma [OF assms(1,2), of "getenv w ''JASYPT_PASSWORD''" n secret] assms(5) by auto
  then have "Decode d (NewDecoder (getenv w)) c = Inr secret" unfolding Decode_def n by (simp add: NewDecoder_def)
  moreover have "env_value (NewBasicConfig d w) t = []" using assms(3) by (cases "tagEnv t") (simp_all add: NewBasicConfig_def env_value_def)
  ultimately show ?thesis
    by (simp add: NewBasicConfig_def processString_def is_encoded_def BasicConfig.has_prefix_def BasicConfig.has_suffix_def split: option.split)
qed

theorem encrypted_setting_round_trip_witness:
  "\<exists>c. Crypt.Encrypt demo_des (Inr (replicate 8 1)) ''pw'' 1000 ''s3cret'' = Inr c \<and>
     modifyValue (NewBasicConfig demo_des (demo_world\<lparr>getenv := (\<lambda>x. if x = ''JASYPT_PASSWORD'' then ''pw'' else [])\<rparr>))
       \<lparr>tagDefault = None, tagEnv = None\<rparr> (VString False (''ENC('' @ c @ '')'')) = Some (VString False ''s3cret'')"
proof -
  let ?w = "demo_world\<lparr>getenv := (\<lambda>x. if x = ''JASYPT_PASSWORD'' then ''pw'' else [])\<rparr>"
  have l: "lawful_des demo_des" by (simp add: lawful_des_def demo_des_def)
  have s: "length (replicate 8 1 :: byte list) = 8" by simp
  obtain c where c: "Crypt.Encrypt demo_des (Inr (replicate 8 1)) ''pw'' 1000 ''s3cret'' = Inr c"
    using jasypt_lemma [OF l s, of "''pw''" 1000 "''s3cret''"] by blast
  have e: "env_value ?w \<lparr>tagDefault = None, tagEnv = None\<rparr> = []" by (simp add: env_value_def)
  have n: "1000 = (case ParseInt 64 (getenv ?w ''JASYPT_ITERATIONS'') of (k, None) \<Rightarrow> if k > 0 then k else 1000 | (k, Some e) \<Rightarrow> 1000)"
    by (simp add: ParseInt_def)
  from encrypted_setting_round_trip [OF l s e n, of "''s3cret''" c] c show ?thesis by auto
qed

text \<open>
  C23: With the LDAP client as the verifier of the NTLM middleware, a request for a protected path that is not answered
  401 carries a type-3 message naming a user whom \<^verbatim>\<open>VerifyUser\<close> accepted: the last search that this call made (\<open>searches_made\<close>), in the world it was called
  in, was under the configured base for exactly this account name, escaped, and was answered with a first entry that is not barred now: no readable control word with the
  disable bit and no readable expiration in the past (a missing or unreadable control word passes).
\<close>
theorem ntlm_ldap_login:
  assumes "gin_next next" and "pathMatches (url_path x) path"
      and "NTLMMiddleware next path (Some (\<lambda>u dom. map_option concat (fst (VerifyUser d now u c w)))) x = Some x'"
      and "\<not> (aborted x' \<and> resp_status x' = Some 401)"
  shows "\<exists>user domain h en es l. claims (authorization x) user domain \<and> user \<noteq> [] \<and> fst (VerifyUser d now user c w) = None \<and>
      searches_made d now user c w =
        l @ [(h, Base (Ldap.config c), ''(sAMAccountName='' @ escapeFilter d user @ '')'', Entries (en # es))] \<and> not_barred now en"
proof -
  from ntlm_outcomes [OF assms(1,2), of "Some (\<lambda>u dom. map_option concat (fst (VerifyUser d now u c w)))"] assms(3,4)
  obtain user domain where cl: "claims (authorization x) user domain" and v: "fst (VerifyUser d now user c w) = None" by auto
  then obtain c' w' where "VerifyUser d now user c w = (None, c', w')" by (metis prod.collapse)
  from VerifyUser_accepts [OF this] cl v show ?thesis unfolding user_filter_def by blast
qed

text \<open>A type-3 message of user \<^verbatim>\<open>u\<close> in domain \<^verbatim>\<open>d\<close>: the field at 38 points to byte 46, the one at 30 to byte 47.\<close>

definition demo_type3 :: "byte list" where
  "demo_type3 = replicate 8 0 @ [3] @ replicate 21 0 @ [1, 0, 1, 0, 47, 0, 0, 0] @ [1, 0, 1, 0, 46, 0, 0, 0] @ [117, 100]"

definition demo_login :: ctx where
  "demo_login = demo_ctx (''NTLM '' @ encodeBase64 demo_type3)"

lemma demo_type3_bytes:
  "demo_type3 = [0, 0, 0, 0, 0, 0, 0, 0, 3, 0, 0, 0, 0, 0, 0, 0, 0, 0, 0, 0, 0, 0, 0, 0, 0, 0, 0, 0, 0, 0, 1, 0, 1, 0, 47, 0, 0, 0,
     1, 0, 1, 0, 46, 0, 0, 0, 117, 100]"
  by (simp add: demo_type3_def eval_nat_numeral)

lemma demo_login_passes:
  "NTLMMiddleware demo_next ''/p'' (Some (\<lambda>u dom. map_option concat (fst (VerifyUser (demo_dir demo_entry) 5 u demo_ldap ())))) demo_login =
   Some (demo_next (put_key ''domain'' ''d'' (put_key ''username'' ''u'' (cors_headers demo_login))))"
proof -
  have sp: "split_on CHR '' '' (''NTLM '' @ encodeBase64 demo_type3) = [''NTLM'', encodeBase64 demo_type3]"
    using encode_no_space by (subst split_on_two) simp
  have user: "getNTLMField demo_type3 38 = Some (''u'', True)" and dom: "getNTLMField demo_type3 30 = Some (''d'', True)"
    by (simp_all add: getNTLMField_def demo_type3_bytes get16_def slice_def removeZeros_def string_of_def char_of_byte_def char_of_def bit_0)
  have path: "pathMatches (url_path demo_login) ''/p''" by (simp add: pathMatches_def demo_login_def demo_ctx_def)
  have v: "fst (VerifyUser (demo_dir demo_entry) 5 ''u'' demo_ldap ()) = None"
    by (simp add: VerifyUser_def connectLocked_def searchWithTimeout_def searchOnce_def check_entry_def demo_dir_def demo_ldap_def
        demo_entry_def ParseInt_def is_digit_def digits_val_def digit_val_def)
  have hdr: "authorization (cors_headers demo_login) = ''NTLM '' @ encodeBase64 demo_type3"
    by (simp add: demo_login_def demo_ctx_def)
  show ?thesis
    unfolding NTLMMiddleware_def Let_def hdr sp using path user dom v by (simp add: demo_type3_bytes [symmetric]) (simp add: demo_type3_bytes)
qed

theorem ntlm_ldap_login_witness:
  "\<exists>user domain. claims (authorization demo_login) user domain \<and>
     searches_made (demo_dir demo_entry) 5 user demo_ldap () = [(7, ''dc=x'', ''(sAMAccountName='' @ user @ '')'', Entries [demo_entry])]"
proof -
  let ?v = "\<lambda>u dom. map_option concat (fst (VerifyUser (demo_dir demo_entry) 5 u demo_ldap ()))"
  have g: "gin_next demo_next" by (simp add: gin_next_def demo_next_def)
  have p: "pathMatches (url_path demo_login) ''/p''" by (simp add: pathMatches_def demo_login_def demo_ctx_def)
  have "\<not> (aborted (demo_next (put_key ''domain'' ''d'' (put_key ''username'' ''u'' (cors_headers demo_login)))) \<and>
      resp_status (demo_next (put_key ''domain'' ''d'' (put_key ''username'' ''u'' (cors_headers demo_login)))) = Some 401)"
    by (simp add: demo_next_def put_key_def demo_login_def demo_ctx_def)
  from ntlm_ldap_login [OF g p demo_login_passes this] obtain user domain where
    "claims (authorization demo_login) user domain" "user \<noteq> []" by blast
  moreover from this(2) have
    "searches_made (demo_dir demo_entry) 5 user demo_ldap () = [(7, ''dc=x'', ''(sAMAccountName='' @ user @ '')'', Entries [demo_entry])]"
    by (simp add: searches_made_def VerifyUser_def connectLocked_def searchWithTimeout_def searchOnce_def demo_dir_def demo_ldap_def
        split: option.split)
  ultimately show ?thesis by blast
qed

end
